(* ===== verification/Utp_Prelude.thy ===== *)
theory Utp_Prelude
  imports Main "HOL-Library.Word" "HOL-Library.Monad_Syntax"
begin

text \<open>
  Shared vocabulary of the development: the machine integers of the Go sources, the sentinel
  errors of the package, the reading of a Go panic as \<^const>\<open>None\<close>, the collections of
  rewrite rules the component theories extend, and generic lemmas on words and lists.

  A Go function that can panic has type \<open>'a go\<close>; \<^const>\<open>None\<close> is the panic. A Go function
  that returns an \<open>error\<close> returns a \<open>goerr option\<close>, \<^const>\<open>None\<close> being \<open>nil\<close>, next to its new
  state, because a Go function may change state and still return an error.
\<close>

type_synonym u8 = "8 word"
type_synonym u16 = "16 word"
type_synonym u32 = "32 word"
type_synonym bytes = "u8 list"
type_synonym 'a go = "'a option"

text \<open>\<open>time.Duration\<close> and \<open>time.Time\<close> count nanoseconds; both are signed.\<close>

type_synonym duration = int
type_synonym time = int

text \<open>The sentinel errors of the package, and errors made on the spot from a text.\<close>

datatype goerr =
    ErrInvalidHeaderSize | ErrInvalidPacketVersion | ErrInvalidPacketType
  | ErrInvalidExtensionType | ErrInsufficientLen | ErrPacketTooShort
  | ErrInsufficientSelectiveAckLen | ErrInvalidSelectiveAckLen
  | ErrEmptyDataPayload | ErrConnInvalidAckNum | ErrInvalidFin | ErrInvalidSeqNum
  | ErrInvalidSyn | ErrReset | ErrSynFromAcceptor | ErrTimedOut
  | ErrInvalidAckNum | ErrNoneAckNum | ErrCannotFindLostPacket | ErrSentPacketMarkLost
  | ErrInsufficientWindowSize | ErrUnknownSeqNum | ErrDuplicateTransmission
  | ErrConnect | ErrNotConnected | EOF | Errorf string

named_theorems circular_simps \<open>circular 16-bit arithmetic read as natural numbers\<close>
named_theorems panic_free \<open>operations that do not panic in a well-formed state\<close>
named_theorems inv_intros \<open>operations keep their component's invariant\<close>

text \<open>
  The Go slice expression \<open>xs[lo:hi]\<close> on a slice whose capacity is its length: it panics unless
  \<open>0 \<le> lo \<le> hi \<le> len(xs)\<close>.
\<close>

definition go_slice :: "int \<Rightarrow> int \<Rightarrow> 'a list \<Rightarrow> 'a list go" where
  "go_slice lo hi xs =
     (if 0 \<le> lo \<and> lo \<le> hi \<and> hi \<le> int (length xs)
      then Some (take (nat (hi - lo)) (drop (nat lo) xs)) else None)"

section \<open>Words as natural numbers\<close>

lemma unat_lt_65536: "unat (x :: u16) < 65536"
proof -
  have "unat x < 2 ^ LENGTH(16)" by (rule unsigned_less)
  then show ?thesis by simp
qed

lemma unat_lt_u32: "unat (x :: u32) < 4294967296"
proof -
  have "unat x < 2 ^ LENGTH(32)" by (rule unsigned_less)
  then show ?thesis by simp
qed

lemma unat_sub_u16 [circular_simps]:
  "unat (a - b :: u16) = (if b \<le> a then unat a - unat b else unat a + 65536 - unat b)"
  by (simp add: unat_sub_if' word_le_nat_alt)

lemma unat_add_u16 [circular_simps]:
  "unat (a + b :: u16) = (if unat a + unat b < 65536 then unat a + unat b
                          else unat a + unat b - 65536)"
  by (simp add: unat_plus_if')

lemma unat_of_nat_u16 [circular_simps]: "unat (of_nat n :: u16) = n mod 65536"
  by (simp add: unat_of_nat)

lemma unat_of_nat_u16_small [simp]: "n < 65536 \<Longrightarrow> unat (of_nat n :: u16) = n"
  by (simp add: unat_of_nat_u16)

lemma of_nat_u16_inj:
  "\<lbrakk> m < 65536; n < 65536 \<rbrakk> \<Longrightarrow> (of_nat m :: u16) = of_nat n \<longleftrightarrow> m = n"
  by (metis unat_of_nat_u16_small)

lemma u16_offset: "(x :: u16) = s + of_nat (unat (x - s))"
  by simp

section \<open>Integer division\<close>

text \<open>Go's \<open>/\<close> and \<open>%\<close> truncate towards zero; the remainder has the sign of the dividend.\<close>

definition go_quot :: "int \<Rightarrow> int \<Rightarrow> int" where
  "go_quot a b = sgn a * sgn b * (\<bar>a\<bar> div \<bar>b\<bar>)"

definition go_rem :: "int \<Rightarrow> int \<Rightarrow> int" where
  "go_rem a b = a - b * go_quot a b"

lemma go_quot_pos: "\<lbrakk> 0 \<le> a; 0 < b \<rbrakk> \<Longrightarrow> go_quot a b = a div b"
  by (cases "a = 0") (auto simp: go_quot_def)

lemma go_rem_pos: "\<lbrakk> 0 \<le> a; 0 < b \<rbrakk> \<Longrightarrow> go_rem a b = a mod b"
  by (simp add: go_rem_def go_quot_pos minus_mult_div_eq_mod)

section \<open>Orders by a key\<close>

text \<open>
  The \<open>Less\<close> methods of the sources compare one field of their items, the key. The trees of
  pending and lost packets and the heap of delays rely on this.
\<close>

locale key_order =
  fixes lt :: "'i \<Rightarrow> 'i \<Rightarrow> bool" and key :: "'i \<Rightarrow> 'k :: linorder"
  assumes less_key: "lt x y \<longleftrightarrow> key x < key y"
begin

lemma not_less_key: "\<not> lt x y \<longleftrightarrow> key y \<le> key x"
  by (simp add: less_key not_less)

end

section \<open>Lists\<close>

lemma sum_list_map_filter_le:
  "sum_list (map f (filter P xs)) \<le> sum_list (map (f :: 'a \<Rightarrow> nat) xs)"
  by (induction xs) auto

lemma sum_list_remove:
  assumes "x \<in> set xs"
  shows "sum_list (map (f :: 'a \<Rightarrow> nat) (remove1 x xs)) + f x = sum_list (map f xs)"
  using assms by (induction xs) auto

lemma upt_map_Suc_append:
  "map f [0..<Suc n] = map f [0..<n] @ [f n]"
  by simp

end
