(* ===== verification/Utp_Utils.thy ===== *)
theory Utp_Utils
  imports Utp_Prelude
begin

text \<open>
  \<^verbatim>\<open>utp_utils.go\<close>: the arithmetic helpers. Go's \<open>int\<close> and \<open>int64\<close> are \<^typ>\<open>int\<close>; the callers of these
  helpers pass values far below \<open>2^63\<close>. The clock readings and the random draw (the package
  \<^verbatim>\<open>fastrand\<close>) are arguments.
\<close>

definition minInt :: "int \<Rightarrow> int \<Rightarrow> int" where
  "minInt a b = (if a < b then a else b)"

definition minUint32 :: "u32 \<Rightarrow> u32 \<Rightarrow> u32" where
  "minUint32 a b = (if a < b then a else b)"

definition maxInt64 :: "int \<Rightarrow> int \<Rightarrow> int" where
  "maxInt64 a b = (if a > b then a else b)"

definition ClampUint32 :: "u32 \<Rightarrow> u32 \<Rightarrow> u32 \<Rightarrow> u32" where
  "ClampUint32 val mn mx =
     (if val < mn then mn else if val > mx then mx else val)"

text \<open>\<open>uint32(time.Now().UnixMicro())\<close>: the low 32 bits of the clock in microseconds.\<close>

definition UnixMicro :: "time \<Rightarrow> int" where
  "UnixMicro t = t div 1000"

definition NowMicro :: "time \<Rightarrow> u32" where
  "NowMicro now = word_of_int (UnixMicro now)"

definition DurationBetween :: "u32 \<Rightarrow> u32 \<Rightarrow> duration" where
  "DurationBetween earlier later =
     (if later < earlier then uint (4294967295 - earlier + later)
      else uint (later - earlier))"

definition RandomUint16 :: "(u32 \<Rightarrow> u32) \<Rightarrow> u16" where
  "RandomUint16 Uint32n = ucast (Uint32n 65535)"

lemma minInt_eq_min [simp]: "minInt a b = min a b"
  by (simp add: minInt_def)

lemma minUint32_eq_min [simp]: "minUint32 a b = min a b"
  by (auto simp: minUint32_def min_def)

lemma maxInt64_eq_max [simp]: "maxInt64 a b = max a b"
  by (simp add: maxInt64_def)

lemma ClampUint32_bounds:
  "mn \<le> mx \<Longrightarrow> mn \<le> ClampUint32 v mn mx \<and> ClampUint32 v mn mx \<le> mx"
  by (auto simp: ClampUint32_def)

lemma unat_min_u32: "unat (min a b :: u32) = min (unat a) (unat b)"
  by (auto simp: min_def word_le_nat_alt)

text \<open>
  C30. \<open>DurationBetween\<close> is the distance on the circle of \<open>2^32\<close> microseconds when the
  clock has not wrapped between the two readings, and one microsecond short of it when it has:
  the wrap-around branch subtracts from \<open>math.MaxUint32\<close> and not from \<open>2^32\<close>.
\<close>

theorem DurationBetween_distance:
  "DurationBetween earlier later =
     (if later < earlier then uint (later - earlier) - 1 else uint (later - earlier))"
proof (cases "later < earlier")
  case True
  then have ne: "later - earlier \<noteq> 0" by auto
  have m: "(4294967295 :: u32) = - 1" by simp
  have d: "(4294967295 :: u32) - earlier + later = (later - earlier) - 1"
    unfolding m by (simp add: algebra_simps)
  have "0 < uint (later - earlier)"
    using ne by (metis order_le_less uint_0_iff uint_ge_0)
  then have u: "uint ((later - earlier) - 1) = uint (later - earlier) - 1"
    using uint_sub_lem [of 1 "later - earlier"] by simp
  show ?thesis
    unfolding DurationBetween_def d u using True by (simp only: if_True)
next
  case False
  then show ?thesis by (simp add: DurationBetween_def)
qed

end
