(* ===== verification/Packet.thy ===== *)
theory Packet
  imports Utp_Utils
begin

unbundle bit_operations_syntax

text \<open>
  \<^verbatim>\<open>packet.go\<close>: the packet header, the selective acknowledgement, the packet with its extension
  chain, their byte encodings and decoders, and the packet builder. \<open>PacketType\<close> is the byte type
  of the source with its five constants, so that a decoder can meet a value outside them.
  The lemmas are in the theory \<open>Packet_Codec\<close>.
\<close>

type_synonym PacketType = u8

definition st_data :: PacketType where "st_data = 0"
definition st_fin :: PacketType where "st_fin = 1"
definition st_state :: PacketType where "st_state = 2"
definition st_reset :: PacketType where "st_reset = 3"
definition st_syn :: PacketType where "st_syn = 4"

lemmas st_defs = st_data_def st_fin_def st_state_def st_reset_def st_syn_def

definition MINIMAL_HEADER_SIZE :: nat where "MINIMAL_HEADER_SIZE = 20"
definition SELECTIVE_ACK_BITS :: nat where "SELECTIVE_ACK_BITS = 32"
definition EXTENSION_TYPE_LEN :: nat where "EXTENSION_TYPE_LEN = 1"
definition EXTENSION_LEN_LEN :: nat where "EXTENSION_LEN_LEN = 1"
definition PROTOCOL_VERSION_ONE :: u8 where "PROTOCOL_VERSION_ONE = 1"

lemmas packet_consts = MINIMAL_HEADER_SIZE_def SELECTIVE_ACK_BITS_def EXTENSION_TYPE_LEN_def
  EXTENSION_LEN_LEN_def PROTOCOL_VERSION_ONE_def

definition PacketType_Check :: "PacketType \<Rightarrow> goerr option" where
  "PacketType_Check p = (if p > 4 then Some ErrInvalidPacketType else None)"

section \<open>The header\<close>

record PacketHeaderV1 =
  h_PacketType :: PacketType
  h_Version :: u8
  h_Extension :: u8
  h_ConnectionId :: u16
  h_Timestamp :: int
  h_TimestampDiff :: u32
  h_WndSize :: u32
  h_SeqNum :: u16
  h_AckNum :: u16

text \<open>\<open>encoding/binary\<close>: big-endian append and read of 16- and 32-bit values.\<close>

definition AppendUint16 :: "bytes \<Rightarrow> u16 \<Rightarrow> bytes" where
  "AppendUint16 b v = b @ [ucast (drop_bit 8 v), ucast v]"

definition AppendUint32 :: "bytes \<Rightarrow> u32 \<Rightarrow> bytes" where
  "AppendUint32 b v =
     b @ [ucast (drop_bit 24 v), ucast (drop_bit 16 v), ucast (drop_bit 8 v), ucast v]"

definition Uint16 :: "bytes \<Rightarrow> u16" where
  "Uint16 b = ucast (b ! 1) OR push_bit 8 (ucast (b ! 0))"

definition Uint32 :: "bytes \<Rightarrow> u32" where
  "Uint32 b = ucast (b ! 3) OR push_bit 8 (ucast (b ! 2))
              OR push_bit 16 (ucast (b ! 1)) OR push_bit 24 (ucast (b ! 0))"

text \<open>The Go slice expression \<open>b[lo:hi]\<close>.\<close>

definition slice :: "nat \<Rightarrow> nat \<Rightarrow> 'a list \<Rightarrow> 'a list" where
  "slice lo hi b = take (hi - lo) (drop lo b)"

definition encodeTypeVer :: "PacketHeaderV1 \<Rightarrow> u8" where
  "encodeTypeVer h = push_bit 4 (h_PacketType h) OR h_Version h"

definition EncodeToBytes :: "PacketHeaderV1 \<Rightarrow> bytes" where
  "EncodeToBytes h =
     (let b = [encodeTypeVer h, h_Extension h];
          b = AppendUint16 b (h_ConnectionId h);
          b = AppendUint32 b (word_of_int (h_Timestamp h));
          b = AppendUint32 b (h_TimestampDiff h);
          b = AppendUint32 b (h_WndSize h);
          b = AppendUint16 b (h_SeqNum h)
      in AppendUint16 b (h_AckNum h))"

definition DecodePacketHeader :: "bytes \<Rightarrow> goerr + PacketHeaderV1" where
  "DecodePacketHeader val =
     (if length val < MINIMAL_HEADER_SIZE then Inl ErrInvalidHeaderSize
      else
        let packetType = drop_bit 4 (val ! 0) in
        case PacketType_Check packetType of
          Some err \<Rightarrow> Inl err
        | None \<Rightarrow>
          let version = val ! 0 AND 0x0F;
              extension = val ! 1;
              connID = Uint16 (slice 2 4 val);
              tsMicros = Uint32 (slice 4 8 val);
              tsDiffMicros = Uint32 (slice 8 12 val);
              windowSize = Uint32 (slice 12 16 val);
              seqNum = Uint16 (slice 16 18 val);
              ackNum = Uint16 (slice 18 20 val)
          in Inr \<lparr>h_PacketType = packetType, h_Version = version, h_Extension = extension,
                  h_ConnectionId = connID, h_Timestamp = uint tsMicros,
                  h_TimestampDiff = tsDiffMicros, h_WndSize = windowSize,
                  h_SeqNum = seqNum, h_AckNum = ackNum\<rparr>)"

section \<open>The selective acknowledgement\<close>

text \<open>\<open>acked\<close> is a slice of arrays \<open>[32]bool\<close>; \<open>copy32\<close> is \<open>copy(fragment[:], xs)\<close> into a fresh array.\<close>

record SelectiveAck =
  acked :: "bool list list"

definition copy32 :: "bool list \<Rightarrow> bool list" where
  "copy32 xs = take SELECTIVE_ACK_BITS (xs @ replicate SELECTIVE_ACK_BITS False)"

definition NewSelectiveAck :: "bool list \<Rightarrow> SelectiveAck" where
  "NewSelectiveAck ack =
     (let chunks = length ack div SELECTIVE_ACK_BITS;
          remainder = length ack mod SELECTIVE_ACK_BITS;
          full = map (\<lambda>i. copy32 (slice (i * SELECTIVE_ACK_BITS) ((i + 1) * SELECTIVE_ACK_BITS) ack))
                     [0..<chunks]
      in if remainder > 0
         then \<lparr>acked = full @ [copy32 (drop (chunks * SELECTIVE_ACK_BITS) ack)]\<rparr>
         else \<lparr>acked = full\<rparr>)"

definition sack_EncodedLen :: "SelectiveAck \<Rightarrow> nat" where
  "sack_EncodedLen s = (length (acked s) * SELECTIVE_ACK_BITS) div 8"

definition Acked :: "SelectiveAck \<Rightarrow> bool list" where
  "Acked s = foldl (\<lambda>result boolArray. result @ boolArray) [] (acked s)"

definition encode_byte :: "bool list \<Rightarrow> nat \<Rightarrow> u8" where
  "encode_byte w i =
     foldl (\<lambda>byteVal j. if i + j < length w \<and> w ! (i + j)
                        then byteVal OR push_bit (7 - j) 1 else byteVal)
           0 [0..<8]"

definition sack_Encode :: "SelectiveAck \<Rightarrow> bytes" where
  "sack_Encode s = concat (map (\<lambda>w. map (encode_byte w) [0, 8, 16, 24]) (acked s))"

definition decode_word :: "bytes \<Rightarrow> nat \<Rightarrow> bool list" where
  "decode_word data i =
     concat (map (\<lambda>j. map (\<lambda>k. (data ! (i + j) AND push_bit (7 - k) 1) \<noteq> 0) [0..<8]) [0..<4])"

definition DecodeSelectiveAck :: "bytes \<Rightarrow> goerr + SelectiveAck" where
  "DecodeSelectiveAck data =
     (if length data < 4 then Inl ErrInsufficientSelectiveAckLen
      else if length data mod 4 \<noteq> 0 then Inl ErrInvalidSelectiveAckLen
      else Inr \<lparr>acked = map (\<lambda>c. decode_word data (4 * c)) [0..<length data div 4]\<rparr>)"

section \<open>The packet and its extension chain\<close>

record packet =
  Header :: PacketHeaderV1
  Eack :: "SelectiveAck option"
  Body :: bytes

record ExtensionData =
  ext_extension :: u8
  ext_payload :: bytes

definition packet_EncodedLen :: "packet \<Rightarrow> nat" where
  "packet_EncodedLen p =
     MINIMAL_HEADER_SIZE
     + (case Eack p of None \<Rightarrow> 0
        | Some s \<Rightarrow> sack_EncodedLen s + EXTENSION_TYPE_LEN + EXTENSION_LEN_LEN)
     + length (Body p)"

definition packet_Encode :: "packet \<Rightarrow> bytes" where
  "packet_Encode p =
     EncodeToBytes (Header p)
     @ (case Eack p of None \<Rightarrow> []
        | Some s \<Rightarrow> let ack = sack_Encode s in [0, of_nat (length ack)] @ ack)
     @ Body p"

function raw_extensions_loop ::
  "bytes \<Rightarrow> u8 \<Rightarrow> nat \<Rightarrow> ExtensionData list \<Rightarrow> goerr + (ExtensionData list \<times> nat)" where
  "raw_extensions_loop data ext index extensions =
     (if ext = 0 then Inr (extensions, index)
      else if length (drop index data) < 2 then Inl ErrInsufficientLen
      else
        let nextExt = data ! index;
            extLen = unat (data ! (index + 1));
            extStart = index + 2
        in if length (drop extStart data) < extLen then Inl ErrInsufficientLen
           else raw_extensions_loop data nextExt (extStart + extLen)
                  (extensions @ [\<lparr>ext_extension = ext,
                                  ext_payload = slice extStart (extStart + extLen) data\<rparr>]))"
  by pat_completeness auto
termination
  by (relation "measure (\<lambda>(data, ext, index, es). length data - index)") auto

declare raw_extensions_loop.simps [simp del]

definition DecodeRawExtensions :: "u8 \<Rightarrow> bytes \<Rightarrow> goerr + (ExtensionData list \<times> nat)" where
  "DecodeRawExtensions firstExt data = raw_extensions_loop data firstExt 0 []"

text \<open>The zero value of \<open>ExtensionData\<close> stands when no extension has type 1; the last one wins.\<close>

definition sack_extension :: "ExtensionData list \<Rightarrow> ExtensionData" where
  "sack_extension es =
     foldl (\<lambda>e d. if ext_extension d = 1 then d else e) \<lparr>ext_extension = 0, ext_payload = []\<rparr> es"

definition DecodePacket :: "bytes \<Rightarrow> goerr + packet" where
  "DecodePacket b =
     (if length b < MINIMAL_HEADER_SIZE then Inl ErrInvalidHeaderSize
      else case DecodePacketHeader (slice 0 MINIMAL_HEADER_SIZE b) of
        Inl err \<Rightarrow> Inl err
      | Inr header \<Rightarrow>
        (case DecodeRawExtensions (h_Extension header) (drop MINIMAL_HEADER_SIZE b) of
           Inl err \<Rightarrow> Inl err
         | Inr (extensions, extensionsLen) \<Rightarrow>
           (let extension = sack_extension extensions;
                ack = (if length (ext_payload extension) \<noteq> 0
                       then map_sum id Some (DecodeSelectiveAck (ext_payload extension))
                       else Inr None)
            in case ack of
                 Inl err \<Rightarrow> Inl err
               | Inr eack \<Rightarrow>
                 let payloadStartIndex = MINIMAL_HEADER_SIZE + extensionsLen;
                     payload = (if length b = payloadStartIndex then []
                                else drop payloadStartIndex b)
                 in if h_PacketType header = st_data \<and> length payload = 0
                    then Inl ErrEmptyDataPayload
                    else Inr \<lparr>Header = header, Eack = eack, Body = payload\<rparr>)))"

section \<open>The builder\<close>

record PacketBuilder =
  pb_packetType :: PacketType
  pb_connID :: u16
  pb_tsMicros :: u32
  pb_tsDiffMicros :: u32
  pb_windowSize :: u32
  pb_seqNum :: u16
  pb_ackNum :: u16
  pb_selectiveAck :: "SelectiveAck option"
  pb_payload :: bytes

definition NewPacketBuilder :: "PacketType \<Rightarrow> u16 \<Rightarrow> u32 \<Rightarrow> u32 \<Rightarrow> u16 \<Rightarrow> PacketBuilder" where
  "NewPacketBuilder packetType connID tsMicros windowSize seqNum =
     \<lparr>pb_packetType = packetType, pb_connID = connID, pb_tsMicros = tsMicros,
      pb_tsDiffMicros = 0, pb_windowSize = windowSize, pb_seqNum = seqNum, pb_ackNum = 0,
      pb_selectiveAck = None, pb_payload = []\<rparr>"

definition WithTsMicros :: "u32 \<Rightarrow> PacketBuilder \<Rightarrow> PacketBuilder" where
  "WithTsMicros ts b = b\<lparr>pb_tsMicros := ts\<rparr>"

definition WithTsDiffMicros :: "u32 \<Rightarrow> PacketBuilder \<Rightarrow> PacketBuilder" where
  "WithTsDiffMicros ts b = b\<lparr>pb_tsDiffMicros := ts\<rparr>"

definition WithWindowSize :: "u32 \<Rightarrow> PacketBuilder \<Rightarrow> PacketBuilder" where
  "WithWindowSize w b = b\<lparr>pb_windowSize := w\<rparr>"

definition WithAckNum :: "u16 \<Rightarrow> PacketBuilder \<Rightarrow> PacketBuilder" where
  "WithAckNum a b = b\<lparr>pb_ackNum := a\<rparr>"

definition WithSelectiveAck :: "SelectiveAck option \<Rightarrow> PacketBuilder \<Rightarrow> PacketBuilder" where
  "WithSelectiveAck s b = b\<lparr>pb_selectiveAck := s\<rparr>"

definition WithPayload :: "bytes \<Rightarrow> PacketBuilder \<Rightarrow> PacketBuilder" where
  "WithPayload p b = b\<lparr>pb_payload := p\<rparr>"

definition Build :: "PacketBuilder \<Rightarrow> packet" where
  "Build b =
     (let headerExtension = (case pb_selectiveAck b of None \<Rightarrow> 0 | Some _ \<Rightarrow> 1)
      in \<lparr>Header = \<lparr>h_PacketType = pb_packetType b, h_Version = PROTOCOL_VERSION_ONE,
                    h_Extension = headerExtension, h_ConnectionId = pb_connID b,
                    h_Timestamp = uint (pb_tsMicros b), h_TimestampDiff = pb_tsDiffMicros b,
                    h_WndSize = pb_windowSize b, h_SeqNum = pb_seqNum b, h_AckNum = pb_ackNum b\<rparr>,
          Eack = pb_selectiveAck b,
          Body = pb_payload b\<rparr>)"

lemmas builder_defs = NewPacketBuilder_def WithTsMicros_def WithTsDiffMicros_def
  WithWindowSize_def WithAckNum_def WithSelectiveAck_def WithPayload_def

end
