(* ===== verification/Packet_Codec.thy ===== *)
theory Packet_Codec
  imports Packet
begin

unbundle bit_operations_syntax

text \<open>
  Correctness of the byte formats of \<^verbatim>\<open>packet.go\<close>. The contract of an encoder with its decoder is
  the locale \<open>codec\<close>; the header, the selective acknowledgement and the whole packet are its
  three interpretations. Other results: the lengths the code announces are the lengths it writes,
  the decoder's results are well formed on every input, the builder makes well-formed packets,
  and a packet whose header does not announce its selective acknowledgement is misread.
\<close>

section \<open>The contract of a codec\<close>

locale codec =
  fixes enc :: "'a \<Rightarrow> bytes"
    and dec :: "bytes \<Rightarrow> goerr + 'a"
    and ok :: "'a \<Rightarrow> bool"
  assumes roundtrip: "ok x \<Longrightarrow> dec (enc x) = Inr x"
begin

lemma enc_inj: "\<lbrakk> ok x; ok y; enc x = enc y \<rbrakk> \<Longrightarrow> x = y"
  by (metis roundtrip sum.inject(2))

lemma dec_enc_unique: "\<lbrakk> ok x; dec (enc x) = Inr y \<rbrakk> \<Longrightarrow> y = x"
  by (simp add: roundtrip)

end

section \<open>Big-endian integers\<close>

lemma Uint16_be: "Uint16 [ucast (drop_bit 8 v), ucast v] = v"
  by (rule bit_word_eqI) (auto simp: Uint16_def bit_simps)

lemma Uint32_be:
  "Uint32 [ucast (drop_bit 24 v), ucast (drop_bit 16 v), ucast (drop_bit 8 v), ucast v] = v"
proof (rule bit_word_eqI)
  fix n
  assume "n < LENGTH(32)"
  then consider "n < 8" | "8 \<le> n" "n < 16" | "16 \<le> n" "n < 24" | "24 \<le> n" "n < 32"
    by fastforce
  then show "bit (Uint32 [ucast (drop_bit 24 v), ucast (drop_bit 16 v), ucast (drop_bit 8 v),
               ucast v]) n = bit v n"
    by cases (auto simp: Uint32_def bit_simps)
qed

lemma length_Append [simp]:
  "length (AppendUint16 b v) = length b + 2"
  "length (AppendUint32 b w) = length b + 4"
  by (simp_all add: AppendUint16_def AppendUint32_def)

section \<open>The header\<close>

definition header_ok :: "PacketHeaderV1 \<Rightarrow> bool" where
  "header_ok h \<longleftrightarrow> h_PacketType h \<le> 4 \<and> h_Version h < 16
                   \<and> 0 \<le> h_Timestamp h \<and> h_Timestamp h < 2 ^ 32"

lemma length_EncodeToBytes [simp]: "length (EncodeToBytes h) = MINIMAL_HEADER_SIZE"
  by (simp add: EncodeToBytes_def Let_def packet_consts)

lemma bit_lt16:
  assumes "(v :: u8) < 16" and "bit v n"
  shows "n < 4"
proof -
  have "unat v < 16"
    using assms(1) by (simp add: word_less_nat_alt)
  then have "unat (take_bit 4 v) = unat v"
    by (simp only: unsigned_take_bit_eq) (simp add: take_bit_nat_eq_self)
  then have "take_bit 4 v = v" by (rule unsigned_word_eqI)
  then show ?thesis
    using assms(2) by (metis bit_take_bit_iff)
qed

lemma typeVer_type:
  assumes "(v :: u8) < 16" and "t < 16"
  shows "drop_bit 4 (push_bit 4 t OR v) = t"
proof (rule bit_word_eqI)
  fix n
  assume "n < LENGTH(8)"
  then show "bit (drop_bit 4 (push_bit 4 t OR v)) n = bit t n"
    using bit_lt16 [OF assms(1), of "4 + n"] bit_lt16 [OF assms(2), of n]
    by (auto simp: bit_simps)
qed

lemma typeVer_version:
  assumes "(v :: u8) < 16"
  shows "(push_bit 4 t OR v) AND 0x0F = v"
proof (rule bit_word_eqI)
  fix n
  assume n: "n < LENGTH(8)"
  have m: "(0x0F :: u8) = mask 4" by (simp add: mask_eq_exp_minus_1)
  show "bit ((push_bit 4 t OR v) AND 0x0F) n = bit v n"
    unfolding m using n bit_lt16 [OF assms, of n] by (auto simp: bit_simps)
qed

lemma header_roundtrip:
  assumes "header_ok h"
  shows "DecodePacketHeader (EncodeToBytes h) = Inr h"
proof -
  have t: "h_PacketType h < 16" "\<not> h_PacketType h > 4" and v: "h_Version h < 16"
    using assms by (auto simp: header_ok_def word_le_nat_alt word_less_nat_alt)
  have ts: "uint (word_of_int (h_Timestamp h) :: u32) = h_Timestamp h"
    using assms by (simp add: header_ok_def uint_word_of_int)
  have b: "drop_bit 4 (encodeTypeVer h) = h_PacketType h"
      "encodeTypeVer h AND 0x0F = h_Version h"
    unfolding encodeTypeVer_def using t v by (simp_all only: typeVer_type typeVer_version)
  show ?thesis
    using t
    by (simp add: DecodePacketHeader_def EncodeToBytes_def Let_def packet_consts AppendUint16_def
        AppendUint32_def slice_def b PacketType_Check_def Uint16_be Uint32_be ts)
qed

interpretation header_codec: codec EncodeToBytes DecodePacketHeader header_ok
  by unfold_locales (rule header_roundtrip)

section \<open>The selective acknowledgement\<close>

definition sack_ok :: "SelectiveAck \<Rightarrow> bool" where
  "sack_ok s \<longleftrightarrow> acked s \<noteq> [] \<and> (\<forall>w \<in> set (acked s). length w = SELECTIVE_ACK_BITS)"

lemma concat_nth_fixed:
  assumes "\<And>x. x \<in> set xs \<Longrightarrow> length (f x) = n" and "c < length xs" and "j < n"
  shows "concat (map f xs) ! (n * c + j) = f (xs ! c) ! j"
  using assms
proof (induction xs arbitrary: c)
  case (Cons x xs)
  then show ?case
    by (cases c) (simp_all add: nth_append)
qed simp

lemma length_concat_fixed:
  "(\<And>x. x \<in> set xs \<Longrightarrow> length (f x) = n) \<Longrightarrow> length (concat (map f xs)) = n * length xs"
  by (induction xs) auto

lemma length_sack_Encode: "length (sack_Encode s) = 4 * length (acked s)"
  unfolding sack_Encode_def by (rule length_concat_fixed) simp

lemma sack_EncodedLen_correct: "sack_EncodedLen s = length (sack_Encode s)"
  by (simp add: sack_EncodedLen_def length_sack_Encode packet_consts)

lemma bit_set_bits_foldl:
  "bit (foldl (\<lambda>b j. if P j then b OR push_bit (7 - j) (1 :: u8) else b) acc js) n
     \<longleftrightarrow> bit acc n \<or> (\<exists>j \<in> set js. P j \<and> n = 7 - j \<and> n < 8)"
  by (induction js arbitrary: acc) (auto simp: bit_simps)

lemma encode_byte_bit:
  assumes "i + k < length w" and "k < 8"
  shows "(encode_byte w i AND push_bit (7 - k) 1) \<noteq> 0 \<longleftrightarrow> w ! (i + k)"
proof -
  have "(encode_byte w i AND push_bit (7 - k) 1) \<noteq> 0 \<longleftrightarrow> bit (encode_byte w i) (7 - k)"
    by (simp add: bit_iff_and_push_bit_not_eq_0)
  also have "\<dots> \<longleftrightarrow> (\<exists>j < 8. (i + j < length w \<and> w ! (i + j)) \<and> 7 - k = 7 - j \<and> 7 - k < 8)"
    unfolding encode_byte_def bit_set_bits_foldl by auto
  also have "\<dots> \<longleftrightarrow> w ! (i + k)"
  proof -
    have "7 - k = 7 - j \<longleftrightarrow> k = j" if "j < 8" for j
      using that assms(2) by linarith
    then show ?thesis using assms by auto
  qed
  finally show ?thesis .
qed

lemma decode_word_encode:
  assumes "length w = 32" and "\<And>j. j < 4 \<Longrightarrow> data ! (i + j) = encode_byte w (8 * j)"
  shows "decode_word data i = w"
proof -
  have "decode_word data i = concat (map (\<lambda>j. map (\<lambda>k. w ! (8 * j + k)) [0..<8]) [0..<4])"
    unfolding decode_word_def
    by (intro arg_cong [where f = concat] map_cong refl)
      (use assms in \<open>simp add: encode_byte_bit del: push_bit_of_1\<close>)
  also have "\<dots> = map ((!) w) [0..<32]"
    by (simp add: upt_conv_Cons eval_nat_numeral)
  also have "\<dots> = w"
    using assms(1) map_nth [of w] by simp
  finally show ?thesis .
qed

lemma sack_Encode_nth:
  assumes "c < length (acked s)" and "j < 4"
  shows "sack_Encode s ! (4 * c + j) = encode_byte (acked s ! c) (8 * j)"
proof -
  have "sack_Encode s ! (4 * c + j) = map (encode_byte (acked s ! c)) [0, 8, 16, 24] ! j"
    unfolding sack_Encode_def by (rule concat_nth_fixed) (use assms in auto)
  moreover have "j = 0 \<or> j = 1 \<or> j = 2 \<or> j = 3" using assms(2) by auto
  ultimately show ?thesis by auto
qed

lemma sack_roundtrip:
  assumes "sack_ok s"
  shows "DecodeSelectiveAck (sack_Encode s) = Inr s"
proof -
  have len: "length (acked s) \<ge> 1"
    using assms by (cases "acked s") (auto simp: sack_ok_def)
  have "map (\<lambda>c. decode_word (sack_Encode s) (4 * c)) [0..<length (acked s)] = acked s"
  proof (rule nth_equalityI)
    fix c
    assume "c < length (map (\<lambda>c. decode_word (sack_Encode s) (4 * c)) [0..<length (acked s)])"
    then have c: "c < length (acked s)" by simp
    have "decode_word (sack_Encode s) (4 * c) = acked s ! c"
      using assms c by (intro decode_word_encode sack_Encode_nth)
        (auto simp: sack_ok_def packet_consts)
    with c show "map (\<lambda>c. decode_word (sack_Encode s) (4 * c)) [0..<length (acked s)] ! c
        = acked s ! c" by simp
  qed simp
  moreover have "acked s \<noteq> []" using len by auto
  ultimately show ?thesis
    by (simp add: DecodeSelectiveAck_def length_sack_Encode)
qed

interpretation sack_codec: codec sack_Encode DecodeSelectiveAck sack_ok
  by unfold_locales (rule sack_roundtrip)

lemma length_copy32 [simp]: "length (copy32 xs) = SELECTIVE_ACK_BITS"
  by (simp add: copy32_def)

lemma NewSelectiveAck_chunks:
  "w \<in> set (acked (NewSelectiveAck bs)) \<Longrightarrow> length w = SELECTIVE_ACK_BITS"
  by (auto simp: NewSelectiveAck_def Let_def split: if_splits)

lemma length_NewSelectiveAck:
  "length (acked (NewSelectiveAck bs)) = (length bs + 31) div 32"
proof -
  define q r where "q = length bs div 32" and "r = length bs mod 32"
  have l: "length bs = 32 * q + r" and r: "r < 32"
    by (simp_all add: q_def r_def)
  show ?thesis
    using l r unfolding q_def [symmetric] r_def [symmetric]
    by (auto simp: NewSelectiveAck_def Let_def packet_consts)
qed

lemma NewSelectiveAck_ok: "bs \<noteq> [] \<Longrightarrow> sack_ok (NewSelectiveAck bs)"
  unfolding sack_ok_def
  using NewSelectiveAck_chunks length_NewSelectiveAck [of bs]
  by (cases bs) auto

section \<open>The packet\<close>

text \<open>
  A packet is well formed when its header is, the extension byte announces the selective
  acknowledgement exactly when there is one, that acknowledgement fits the one-byte length field
  (63 words of 32 bits, the cap of the receive buffer) and a data packet carries data.
\<close>

definition packet_ok :: "packet \<Rightarrow> bool" where
  "packet_ok p \<longleftrightarrow>
     header_ok (Header p)
     \<and> (case Eack p of
          None \<Rightarrow> h_Extension (Header p) = 0
        | Some s \<Rightarrow> h_Extension (Header p) = 1 \<and> sack_ok s \<and> length (acked s) \<le> 63)
     \<and> (h_PacketType (Header p) = st_data \<longrightarrow> Body p \<noteq> [])"

lemma raw_extensions_none: "DecodeRawExtensions 0 data = Inr ([], 0)"
  by (simp add: DecodeRawExtensions_def raw_extensions_loop.simps)

lemma raw_extensions_sack:
  assumes "length ack < 256"
  shows "DecodeRawExtensions 1 (0 # of_nat (length ack) # ack @ body)
           = Inr ([\<lparr>ext_extension = 1, ext_payload = ack\<rparr>], length ack + 2)"
proof -
  have u: "unat (of_nat (length ack) :: u8) = length ack"
    using assms by (simp add: unat_of_nat)
  let ?d = "0 # of_nat (length ack) # ack @ body"
  have "raw_extensions_loop ?d 1 0 []
      = raw_extensions_loop ?d 0 (2 + length ack) [\<lparr>ext_extension = 1, ext_payload = ack\<rparr>]"
    by (subst raw_extensions_loop.simps) (simp add: u slice_def Let_def)
  also have "\<dots> = Inr ([\<lparr>ext_extension = 1, ext_payload = ack\<rparr>], 2 + length ack)"
    by (subst raw_extensions_loop.simps) simp
  finally show ?thesis
    by (simp add: DecodeRawExtensions_def add.commute)
qed

lemma DecodePacket_split:
  assumes "header_ok h"
    and "DecodeRawExtensions (h_Extension h) rest = Inr (es, n)" and "n \<le> length rest"
    and "ext_payload (sack_extension es) = [] \<and> eack = None
         \<or> (\<exists>s. DecodeSelectiveAck (ext_payload (sack_extension es)) = Inr s
              \<and> ext_payload (sack_extension es) \<noteq> [] \<and> eack = Some s)"
    and "h_PacketType h = st_data \<longrightarrow> drop n rest \<noteq> []"
  shows "DecodePacket (EncodeToBytes h @ rest) = Inr \<lparr>Header = h, Eack = eack, Body = drop n rest\<rparr>"
proof -
  have "DecodePacketHeader (slice 0 MINIMAL_HEADER_SIZE (EncodeToBytes h @ rest)) = Inr h"
    by (simp add: slice_def header_roundtrip [OF assms(1)])
  with assms(2-5) show ?thesis
    by (auto simp: DecodePacket_def Let_def)
qed

lemma packet_roundtrip:
  assumes "packet_ok p"
  shows "DecodePacket (packet_Encode p) = Inr p"
proof (cases "Eack p")
  case None
  then have "DecodePacket (EncodeToBytes (Header p) @ Body p)
      = Inr \<lparr>Header = Header p, Eack = None, Body = drop 0 (Body p)\<rparr>"
    using assms
    by (intro DecodePacket_split [where es = "[]"])
      (auto simp: packet_ok_def raw_extensions_none sack_extension_def)
  with None show ?thesis by (simp add: packet_Encode_def)
next
  case (Some s)
  let ?a = "sack_Encode s"
  let ?rest = "0 # of_nat (length ?a) # ?a @ Body p"
  from assms Some have h: "header_ok (Header p)" "h_Extension (Header p) = 1" and s: "sack_ok s"
    and len: "length ?a < 256"
    and d: "h_PacketType (Header p) = st_data \<longrightarrow> Body p \<noteq> []"
    by (auto simp: packet_ok_def length_sack_Encode)
  have ne: "?a \<noteq> []"
    using s length_sack_Encode [of s] by (auto simp: sack_ok_def)
  have "DecodePacket (EncodeToBytes (Header p) @ ?rest)
      = Inr \<lparr>Header = Header p, Eack = Some s, Body = drop (length ?a + 2) ?rest\<rparr>"
    using h d ne
    by (intro DecodePacket_split [where es = "[\<lparr>ext_extension = 1, ext_payload = ?a\<rparr>]"])
      (simp_all add: raw_extensions_sack [OF len] sack_extension_def sack_roundtrip [OF s])
  with Some show ?thesis by (simp add: packet_Encode_def Let_def)
qed

interpretation packet_codec: codec packet_Encode DecodePacket packet_ok
  by unfold_locales (rule packet_roundtrip)

lemma length_packet_Encode: "length (packet_Encode p) = packet_EncodedLen p"
  by (simp add: packet_Encode_def packet_EncodedLen_def packet_consts sack_EncodedLen_correct Let_def
      length_EncodeToBytes [unfolded packet_consts] split: option.split)

section \<open>Decoding arbitrary bytes\<close>

lemma raw_extensions_loop_bound:
  assumes "raw_extensions_loop data ext index es = Inr (es', n)" and "index \<le> length data"
  shows "index \<le> n \<and> n \<le> length data"
  using assms
proof (induction data ext index es rule: raw_extensions_loop.induct)
  case (1 data ext index es)
  show ?case
  proof (cases "ext = 0")
    case True
    with 1 show ?thesis by (simp add: raw_extensions_loop.simps [of data 0])
  next
    case False
    let ?next = "index + 2 + unat (data ! (index + 1))"
    from False 1 have "?next \<le> length data"
      and "\<not> length (drop index data) < 2"
      and "\<not> length (drop (index + 2) data) < unat (data ! (index + 1))"
      by (auto simp: raw_extensions_loop.simps [of data ext index es] Let_def split: if_splits)
    with False 1 have "?next \<le> n \<and> n \<le> length data"
      by (simp add: raw_extensions_loop.simps [of data ext index es] Let_def)
    then show ?thesis by simp
  qed
qed

lemma DecodePacketHeader_ok:
  assumes "DecodePacketHeader b = Inr h"
  shows "header_ok h"
proof -
  have "(b ! 0 AND 0x0F) < 16"
  proof -
    have "b ! 0 AND 0x0F \<le> 0x0F" by (rule word_and_le1)
    then show ?thesis by (simp add: word_le_nat_alt word_less_nat_alt)
  qed
  moreover have "uint (Uint32 (slice 4 8 b)) < 2 ^ 32"
    using uint_bounded [of "Uint32 (slice 4 8 b)"] by simp
  ultimately show ?thesis
    using assms
    by (auto simp: DecodePacketHeader_def header_ok_def PacketType_Check_def Let_def not_less
        split: if_splits option.splits)
qed

lemma DecodeSelectiveAck_ok:
  assumes "DecodeSelectiveAck b = Inr s"
  shows "sack_ok s"
  using assms
  by (auto simp: DecodeSelectiveAck_def sack_ok_def decode_word_def packet_consts
      length_concat comp_def sum_list_triv split: if_splits)

lemma DecodePacketE:
  assumes "DecodePacket b = Inr p"
  obtains es n where "MINIMAL_HEADER_SIZE \<le> length b"
    and "DecodePacketHeader (take MINIMAL_HEADER_SIZE b) = Inr (Header p)"
    and "DecodeRawExtensions (h_Extension (Header p)) (drop MINIMAL_HEADER_SIZE b) = Inr (es, n)"
    and "Eack p = None \<and> ext_payload (sack_extension es) = []
         \<or> (\<exists>s. Eack p = Some s \<and> DecodeSelectiveAck (ext_payload (sack_extension es)) = Inr s)"
    and "Body p = drop (MINIMAL_HEADER_SIZE + n) b"
    and "h_PacketType (Header p) = st_data \<longrightarrow> Body p \<noteq> []"
  using assms
  by (auto simp: DecodePacket_def slice_def Let_def map_sum_def
      split: if_splits sum.splits prod.splits)

section \<open>Properties\<close>

text \<open>
  C5. Every well-formed packet survives the wire: decoding its encoding gives back the same
  header, selective acknowledgement and body.
\<close>

theorem packet_decode_encode:
  assumes "packet_ok p"
  shows "DecodePacket (packet_Encode p) = Inr p"
  by (rule packet_codec.roundtrip [OF assms])

definition sample_packet :: packet where
  "sample_packet =
     Build (WithPayload [7, 8, 9] (WithSelectiveAck (Some (NewSelectiveAck [True, False, True]))
       (WithAckNum 41 (NewPacketBuilder st_data 17 1000 4096 42))))"

lemma sample_packet_ok: "packet_ok sample_packet"
proof -
  have "sack_ok (NewSelectiveAck [True, False, True])"
    by (rule NewSelectiveAck_ok) simp
  moreover have "length (acked (NewSelectiveAck [True, False, True])) \<le> 63"
    by (simp add: length_NewSelectiveAck)
  ultimately show ?thesis
    by (simp add: sample_packet_def packet_ok_def Build_def builder_defs header_ok_def st_defs
        packet_consts)
qed

theorem packet_decode_encode_witness:
  "DecodePacket (packet_Encode sample_packet) = Inr sample_packet"
  by (rule packet_decode_encode [OF sample_packet_ok])



text \<open>
  C27. The length the code computes before encoding is the length of the bytes it writes, for the
  selective acknowledgement and for the packet.
\<close>

theorem EncodedLen_correct:
  "sack_EncodedLen s = length (sack_Encode s) \<and> packet_EncodedLen p = length (packet_Encode p)"
  by (simp add: sack_EncodedLen_correct length_packet_Encode)

lemma Build_packet_ok:
  assumes "pb_packetType b \<le> 4"
    and "pb_packetType b = st_data \<longrightarrow> pb_payload b \<noteq> []"
    and "pb_selectiveAck b = None
         \<or> (\<exists>bs. pb_selectiveAck b = Some (NewSelectiveAck bs) \<and> bs \<noteq> [] \<and> length bs \<le> 32 * 63)"
  shows "packet_ok (Build b)"
proof -
  have "uint (pb_tsMicros b) < 2 ^ 32" using uint_bounded [of "pb_tsMicros b"] by simp
  then show ?thesis
    using assms NewSelectiveAck_ok
    by (auto simp: packet_ok_def Build_def header_ok_def packet_consts length_NewSelectiveAck
        split: option.splits)
qed



text \<open>
  C35. A packet that carries a selective acknowledgement its header does not announce (extension
  byte 0) is misread by the peer: the decoder succeeds, drops the acknowledgement and returns the
  extension bytes, a zero, the length and the bit mask, in front of the payload.
\<close>

theorem unannounced_sack_corrupts_body:
  assumes "header_ok (Header p)" and "h_Extension (Header p) = 0" and "Eack p = Some s"
  shows "DecodePacket (packet_Encode p)
    = Inr (p\<lparr>Eack := None,
            Body := 0 # of_nat (length (sack_Encode s)) # sack_Encode s @ Body p\<rparr>)"
proof -
  let ?rest = "0 # of_nat (length (sack_Encode s)) # sack_Encode s @ Body p"
  have "DecodePacket (EncodeToBytes (Header p) @ ?rest)
      = Inr \<lparr>Header = Header p, Eack = None, Body = drop 0 ?rest\<rparr>"
    using assms
    by (intro DecodePacket_split [where es = "[]"])
      (simp_all add: raw_extensions_none sack_extension_def)
  with assms(3) show ?thesis by (simp add: packet_Encode_def Let_def)
qed

theorem unannounced_sack_corrupts_body_witness:
  "\<exists>b. DecodePacket (packet_Encode
         (sample_packet\<lparr>Header := (Header sample_packet)\<lparr>h_Extension := 0\<rparr>\<rparr>)) = Inr b
     \<and> Body b \<noteq> [7, 8, 9]"
  using unannounced_sack_corrupts_body
    [of "sample_packet\<lparr>Header := (Header sample_packet)\<lparr>h_Extension := 0\<rparr>\<rparr>"]
  by (simp add: sample_packet_def Build_def builder_defs header_ok_def packet_consts st_defs)

end
