(* ===== verification/Send_Buffer.thy ===== *)
theory Send_Buffer
  imports Utp_Utils
begin

text \<open>
  \<^verbatim>\<open>send_buffer.go\<close>: the bytes the application has written and the connection has not yet put into
  packets, as a list of chunks and the number of bytes already taken from the first chunk. What it
  promises is a bounded queue of bytes, the locale \<open>byte_fifo\<close>, of which it is the
  interpretation: writes append at the end as far as there is room, reads take from the front.
\<close>

record sendBuffer =
  sb_pending :: "bytes list"
  sb_offset :: int
  sb_size :: int

definition newSendBuffer :: "int \<Rightarrow> sendBuffer" where
  "newSendBuffer sz = \<lparr>sb_pending = [], sb_offset = 0, sb_size = sz\<rparr>"

definition sb_Available :: "sendBuffer \<Rightarrow> int" where
  "sb_Available sb =
     (let used = foldl (\<lambda>used data. used + int (length data)) 0 (sb_pending sb)
      in sb_size sb + sb_offset sb - used)"

definition sb_IsEmpty :: "sendBuffer \<Rightarrow> bool" where
  "sb_IsEmpty sb = (length (sb_pending sb) = 0)"

definition sb_Write :: "sendBuffer \<Rightarrow> bytes \<Rightarrow> (sendBuffer \<times> int) go" where
  "sb_Write sb data =
     (let available = sb_Available sb in
      if int (length data) \<le> available
      then Some (sb\<lparr>sb_pending := sb_pending sb @ [data]\<rparr>, int (length data))
      else do {
        part \<leftarrow> go_slice 0 available data;
        Some (sb\<lparr>sb_pending := sb_pending sb @ [part]\<rparr>, available)
      })"

text \<open>\<open>Read(buf)\<close> fills a buffer of length \<open>buflen\<close>; the result lists the bytes it has put there.\<close>

definition sb_Read :: "sendBuffer \<Rightarrow> int \<Rightarrow> (sendBuffer \<times> bytes) go" where
  "sb_Read sb buflen =
     (if buflen = 0 then Some (sb, [])
      else if length (sb_pending sb) = 0 then Some (sb, [])
      else
        let data = hd (sb_pending sb);
            n = minInt (int (length data) - sb_offset sb) buflen
        in do {
          out \<leftarrow> go_slice (sb_offset sb) (sb_offset sb + n) data;
          Some (if sb_offset sb + n = int (length data)
                then sb\<lparr>sb_offset := 0, sb_pending := tl (sb_pending sb)\<rparr>
                else sb\<lparr>sb_offset := sb_offset sb + n\<rparr>, out)
        })"

section \<open>A bounded queue of bytes\<close>

text \<open>Running a sequence of writes and reads collects what was accepted and what was read.\<close>

datatype fifo_op = FWrite bytes | FRead nat

fun fifo_run ::
  "('s \<Rightarrow> bytes \<Rightarrow> ('s \<times> int) go) \<Rightarrow> ('s \<Rightarrow> int \<Rightarrow> ('s \<times> bytes) go)
     \<Rightarrow> 's \<Rightarrow> fifo_op list \<Rightarrow> ('s \<times> bytes \<times> bytes) go" where
  "fifo_run wr rd s [] = Some (s, [], [])"
| "fifo_run wr rd s (FWrite data # ops) =
     do { (s', n) \<leftarrow> wr s data;
          (s'', acc, out) \<leftarrow> fifo_run wr rd s' ops;
          Some (s'', take (nat n) data @ acc, out) }"
| "fifo_run wr rd s (FRead k # ops) =
     do { (s', d) \<leftarrow> rd s (int k);
          (s'', acc, out) \<leftarrow> fifo_run wr rd s' ops;
          Some (s'', acc, d @ out) }"

locale byte_fifo =
  fixes wr :: "'s \<Rightarrow> bytes \<Rightarrow> ('s \<times> int) go"
    and rd :: "'s \<Rightarrow> int \<Rightarrow> ('s \<times> bytes) go"
    and avail :: "'s \<Rightarrow> int"
    and contents :: "'s \<Rightarrow> bytes"
    and capacity :: "'s \<Rightarrow> int"
    and inv :: "'s \<Rightarrow> bool"
  assumes avail: "inv s \<Longrightarrow> avail s = capacity s - int (length (contents s))"
    and avail_nonneg: "inv s \<Longrightarrow> 0 \<le> avail s"
    and fifo_write: "inv s \<Longrightarrow> \<exists>s'. wr s data = Some (s', min (int (length data)) (avail s))
                  \<and> contents s' = contents s @ take (nat (avail s)) data
                  \<and> capacity s' = capacity s \<and> inv s'"
    and fifo_read: "inv s \<Longrightarrow> 0 \<le> k \<Longrightarrow> \<exists>s' out. rd s k = Some (s', out)
                 \<and> contents s = out @ contents s' \<and> int (length out) \<le> k
                 \<and> capacity s' = capacity s \<and> inv s'"
begin

lemma run_fifo:
  "inv s \<Longrightarrow> \<exists>s' acc out. fifo_run wr rd s ops = Some (s', acc, out)
      \<and> out @ contents s' = contents s @ acc
      \<and> int (length (contents s')) \<le> capacity s \<and> inv s'"
proof (induction ops arbitrary: s)
  case Nil
  then show ?case using avail avail_nonneg by force
next
  case (Cons op ops)
  show ?case
  proof (cases op)
    case (FWrite data)
    let ?n = "min (int (length data)) (avail s)"
    obtain s1 where s1: "wr s data = Some (s1, ?n)" "inv s1" "capacity s1 = capacity s"
      "contents s1 = contents s @ take (nat (avail s)) data"
      using fifo_write [OF Cons.prems, of data] by blast
    moreover have "take (nat ?n) data = take (nat (avail s)) data"
      by (simp add: min_def)
    ultimately show ?thesis
      using FWrite Cons.IH [OF s1(2)] by force
  next
    case (FRead k)
    obtain s1 d where s1: "rd s (int k) = Some (s1, d)" "contents s = d @ contents s1"
      "capacity s1 = capacity s" "inv s1"
      using fifo_read [OF Cons.prems, of "int k"] by auto
    then show ?thesis
      using FRead Cons.IH [OF s1(4)] by force
  qed
qed

end

section \<open>The send buffer is one\<close>

definition sb_contents :: "sendBuffer \<Rightarrow> bytes" where
  "sb_contents sb = drop (nat (sb_offset sb)) (concat (sb_pending sb))"

definition sb_inv :: "sendBuffer \<Rightarrow> bool" where
  "sb_inv sb \<longleftrightarrow>
     0 \<le> sb_offset sb
     \<and> (case sb_pending sb of [] \<Rightarrow> sb_offset sb = 0
        | d # _ \<Rightarrow> sb_offset sb = 0 \<or> sb_offset sb < int (length d))
     \<and> int (length (sb_contents sb)) \<le> sb_size sb"

lemma foldl_length_concat:
  "foldl (\<lambda>used data. used + int (length data)) a xss = a + int (length (concat xss))"
  by (induction xss arbitrary: a) auto

lemma sb_offset_le:
  "sb_inv sb \<Longrightarrow> nat (sb_offset sb) \<le> length (concat (sb_pending sb))"
  by (auto simp: sb_inv_def split: list.splits)

lemma sb_Available_contents:
  "sb_inv sb \<Longrightarrow> sb_Available sb = sb_size sb - int (length (sb_contents sb))"
  using sb_offset_le [of sb]
  by (simp add: sb_Available_def foldl_length_concat sb_contents_def sb_inv_def)

lemma sb_append_inv:
  assumes "sb_inv sb" and "int (length data) \<le> sb_Available sb"
  shows "sb_contents (sb\<lparr>sb_pending := sb_pending sb @ [data]\<rparr>) = sb_contents sb @ data"
    and "sb_inv (sb\<lparr>sb_pending := sb_pending sb @ [data]\<rparr>)"
proof -
  show c: "sb_contents (sb\<lparr>sb_pending := sb_pending sb @ [data]\<rparr>) = sb_contents sb @ data"
    using sb_offset_le [OF assms(1)] by (simp add: sb_contents_def)
  show "sb_inv (sb\<lparr>sb_pending := sb_pending sb @ [data]\<rparr>)"
    using assms c sb_Available_contents [OF assms(1)]
    by (auto simp: sb_inv_def split: list.splits)
qed

lemma sb_Write_spec:
  assumes "sb_inv sb"
  shows "\<exists>sb'. sb_Write sb data = Some (sb', min (int (length data)) (sb_Available sb))
      \<and> sb_contents sb' = sb_contents sb @ take (nat (sb_Available sb)) data
      \<and> sb_size sb' = sb_size sb \<and> sb_inv sb'"
proof -
  have nn: "0 \<le> sb_Available sb"
    using assms sb_Available_contents [OF assms] by (simp add: sb_inv_def)
  have len: "int (length (take (nat (sb_Available sb)) data)) \<le> sb_Available sb"
    using nn by simp
  show ?thesis
  proof (cases "int (length data) \<le> sb_Available sb")
    case True
    then have "take (nat (sb_Available sb)) data = data" by simp
    then show ?thesis
      using True sb_append_inv [OF assms True] by (simp add: sb_Write_def)
  next
    case False
    then show ?thesis
      using nn sb_append_inv [OF assms len] by (simp add: sb_Write_def go_slice_def Let_def)
  qed
qed

lemma sb_Read_spec:
  assumes "sb_inv sb" and "0 \<le> k"
  shows "\<exists>sb' out. sb_Read sb k = Some (sb', out)
      \<and> sb_contents sb = out @ sb_contents sb' \<and> int (length out) \<le> k
      \<and> sb_size sb' = sb_size sb \<and> sb_inv sb'"
proof (cases "k = 0 \<or> sb_pending sb = []")
  case True
  then show ?thesis using assms by (auto simp: sb_Read_def)
next
  case False
  then obtain d ds where p: "sb_pending sb = d # ds" and k: "k \<noteq> 0"
    by (cases "sb_pending sb") auto
  let ?o = "sb_offset sb"
  define n where "n = min (int (length d) - ?o) k"
  have o: "0 \<le> ?o" "?o \<le> int (length d)"
    using assms(1) p by (auto simp: sb_inv_def)
  then have n: "0 \<le> n" "?o + n \<le> int (length d)" "n \<le> k"
    using assms(2) by (auto simp: n_def)
  define out where "out = take (nat n) (drop (nat ?o) d)"
  have sl: "go_slice ?o (?o + n) d = Some out"
    using o n by (simp add: go_slice_def out_def)
  have lo: "int (length out) = n"
    using o n by (simp add: out_def)
  show ?thesis
  proof (cases "?o + n = int (length d)")
    case True
    let ?sb = "sb\<lparr>sb_offset := 0, sb_pending := ds\<rparr>"
    have c: "sb_contents sb = out @ sb_contents ?sb"
      using True o n by (simp add: sb_contents_def p out_def)
    then have "sb_inv ?sb"
      using assms(1) by (auto simp: sb_inv_def split: list.splits)
    with True c sl k lo n(3) p show ?thesis
      by (simp add: sb_Read_def n_def [symmetric])
  next
    case False
    let ?sb = "sb\<lparr>sb_offset := ?o + n\<rparr>"
    have "drop (nat ?o) d = out @ drop (nat (?o + n)) d"
      using o n unfolding out_def by (simp add: nat_add_distrib add.commute flip: drop_drop)
    then have c: "sb_contents sb = out @ sb_contents ?sb"
      using o n by (simp add: sb_contents_def p)
    then have "sb_inv ?sb"
      using assms(1) o n False by (auto simp: sb_inv_def p)
    with False c sl k lo n(3) p show ?thesis
      by (simp add: sb_Read_def n_def [symmetric])
  qed
qed

interpretation send_queue: byte_fifo sb_Write sb_Read sb_Available sb_contents sb_size sb_inv
proof unfold_locales
  show "0 \<le> sb_Available s" if "sb_inv s" for s
    using that sb_Available_contents [OF that] by (simp add: sb_inv_def)
qed (blast intro: sb_Available_contents sb_Write_spec sb_Read_spec)+

lemma newSendBuffer_inv [inv_intros]:
  "0 \<le> sz \<Longrightarrow> sb_inv (newSendBuffer sz)"
  "sb_contents (newSendBuffer sz) = []"
  "sb_size (newSendBuffer sz) = sz"
  by (simp_all add: newSendBuffer_def sb_inv_def sb_contents_def)

lemma sb_Read_progress:
  assumes "sb_inv sb" and "0 < k" and "sb_pending sb = d # ds" and "d \<noteq> []"
    and "sb_Read sb k = Some (sb', out)"
  shows "out \<noteq> []"
  using assms by (auto simp: sb_Read_def Let_def go_slice_def sb_inv_def min_def
    split: if_splits)

section \<open>Properties\<close>

text \<open>
  C9. The send buffer is a bounded first-in first-out queue of bytes. From a new buffer, any
  sequence of writes and reads runs without a panic; the bytes read, followed by the bytes still
  held, are exactly the accepted bytes in the order they were written, and never more bytes are
  held than the size allows.
\<close>

theorem sendBuffer_fifo:
  assumes "0 \<le> sz"
  shows "\<exists>sb acc out. fifo_run sb_Write sb_Read (newSendBuffer sz) ops = Some (sb, acc, out)
      \<and> out @ sb_contents sb = acc \<and> int (length (sb_contents sb)) \<le> sz"
  using send_queue.run_fifo [OF newSendBuffer_inv(1) [OF assms], of ops]
  by (auto simp: newSendBuffer_inv)

theorem sendBuffer_fifo_witness:
  "\<exists>sb. fifo_run sb_Write sb_Read (newSendBuffer 4)
          [FWrite [1, 2, 3], FWrite [4, 5, 6], FRead 2, FRead 9] = Some (sb, [1, 2, 3, 4], [1, 2, 3])
      \<and> sb_contents sb = [4]"
  using sendBuffer_fifo [of 4 "[FWrite [1, 2, 3], FWrite [4, 5, 6], FRead 2, FRead 9]"]
  by (simp add: newSendBuffer_def sb_Write_def sb_Read_def sb_Available_def go_slice_def Let_def)

text \<open>
  C26. A write into a well-formed send buffer never panics, takes exactly as many bytes as there is
  room for, and leaves that much less room.
\<close>

theorem sb_Write_takes_what_fits:
  assumes "sb_inv sb"
  shows "\<exists>sb'. sb_Write sb data = Some (sb', min (int (length data)) (sb_Available sb))
      \<and> sb_contents sb' = sb_contents sb @ take (nat (sb_Available sb)) data
      \<and> sb_Available sb' = sb_Available sb - min (int (length data)) (sb_Available sb)
      \<and> sb_inv sb'"
proof -
  obtain sb' where *: "sb_Write sb data = Some (sb', min (int (length data)) (sb_Available sb))"
    "sb_contents sb' = sb_contents sb @ take (nat (sb_Available sb)) data"
    "sb_size sb' = sb_size sb" "sb_inv sb'"
    using send_queue.fifo_write [OF assms, of data] by blast
  with assms send_queue.avail_nonneg [OF assms] show ?thesis
    by (auto simp: sb_Available_contents)
qed

theorem sb_Write_takes_what_fits_witness:
  "\<exists>sb'. sb_Write (newSendBuffer 2) [1, 2, 3] = Some (sb', 2) \<and> sb_Available sb' = 0"
  using sb_Write_takes_what_fits [OF newSendBuffer_inv(1), of 2 "[1, 2, 3]"]
  by (auto simp: newSendBuffer_def sb_Available_def)

end
