(* ===== verification/Circular_Range.thy ===== *)
theory Circular_Range
  imports Utp_Prelude
begin

text \<open>
  \<^verbatim>\<open>seq.go\<close>: a range of 16-bit sequence numbers, inclusive at both ends, on the circle of
  65536 numbers. \<open>Contains\<close> is the membership test, \<open>Next\<close> the iterator. The lemmas read both on
  the circle: an item is in the range exactly when its distance from the start is at most the
  distance of the end, and the iterator yields exactly these items, in order, once each.
\<close>

record circularRangeInclusive =
  cr_start :: u16
  cr_end :: u16
  cr_exhausted :: bool

definition newCircularRangeInclusive :: "u16 \<Rightarrow> u16 \<Rightarrow> circularRangeInclusive" where
  "newCircularRangeInclusive s e = \<lparr>cr_start = s, cr_end = e, cr_exhausted = False\<rparr>"

definition Start :: "circularRangeInclusive \<Rightarrow> u16" where
  "Start r = cr_start r"

definition End :: "circularRangeInclusive \<Rightarrow> u16" where
  "End r = cr_end r"

definition Contains :: "circularRangeInclusive \<Rightarrow> u16 \<Rightarrow> bool" where
  "Contains r item =
     (if cr_end r \<ge> cr_start r then item \<ge> cr_start r \<and> item \<le> cr_end r
      else if item \<ge> cr_start r then True
      else item \<le> cr_end r)"

definition Next :: "circularRangeInclusive \<Rightarrow> circularRangeInclusive \<times> u16 \<times> bool" where
  "Next r =
     (if cr_exhausted r then (r, 0, False)
      else if cr_start r = cr_end r then (r\<lparr>cr_exhausted := True\<rparr>, cr_end r, True)
      else (let step = cr_start r + 1; current = cr_start r
            in (r\<lparr>cr_start := step\<rparr>, current, True)))"

text \<open>The loop every caller of the iterator writes: take items until \<open>Next\<close> says there is none.\<close>

fun drain :: "nat \<Rightarrow> circularRangeInclusive \<Rightarrow> u16 list option" where
  "drain 0 r = None"
| "drain (Suc fuel) r =
     (case Next r of (r', x, ok) \<Rightarrow>
        if ok then map_option (Cons x) (drain fuel r') else Some [])"

section \<open>Membership on the circle\<close>

lemma Contains_circular:
  "Contains r x \<longleftrightarrow> unat (x - cr_start r) \<le> unat (cr_end r - cr_start r)"
  using unat_lt_65536 [of x] unat_lt_65536 [of "cr_end r"] unat_lt_65536 [of "cr_start r"]
  by (auto simp: Contains_def unat_sub_u16 word_le_nat_alt split: if_splits)

lemma Contains_new [simp]:
  "Contains (newCircularRangeInclusive s e) x \<longleftrightarrow> unat (x - s) \<le> unat (e - s)"
  by (simp add: Contains_circular newCircularRangeInclusive_def)

lemma cr_new_simps [simp]:
  "cr_start (newCircularRangeInclusive s e) = s"
  "cr_end (newCircularRangeInclusive s e) = e"
  "Start (newCircularRangeInclusive s e) = s"
  "End (newCircularRangeInclusive s e) = e"
  by (simp_all add: newCircularRangeInclusive_def Start_def End_def)

section \<open>The iterator\<close>

definition items :: "circularRangeInclusive \<Rightarrow> u16 list" where
  "items r = map (\<lambda>k. cr_start r + of_nat k) [0..<Suc (unat (cr_end r - cr_start r))]"

lemma drain_exhausted: "cr_exhausted r \<Longrightarrow> drain (Suc fuel) r = Some []"
  by (simp add: Next_def)

lemma items_step:
  assumes "cr_start r \<noteq> cr_end r"
  shows "items r = cr_start r # items (r\<lparr>cr_start := cr_start r + 1\<rparr>)"
proof -
  have d: "cr_end r - cr_start r \<noteq> 0"
    using assms by simp
  have e: "unat (cr_end r - cr_start r) = Suc (unat (cr_end r - (cr_start r + 1)))"
  proof -
    have "cr_end r - cr_start r = (cr_end r - (cr_start r + 1)) + 1" by simp
    moreover have "(cr_end r - (cr_start r + 1)) + 1 \<noteq> 0" using d by simp
    ultimately show ?thesis by (metis unatSuc add.commute)
  qed
  have "items r = map (\<lambda>k. cr_start r + of_nat k) (0 # map Suc [0..<unat (cr_end r - cr_start r)])"
    unfolding items_def by (metis upt_conv_Cons zero_less_Suc map_Suc_upt)
  then show ?thesis
    by (simp add: items_def e o_def add.assoc del: upt_Suc)
qed

lemma drain_items:
  assumes "\<not> cr_exhausted r" and "fuel > Suc (unat (cr_end r - cr_start r))"
  shows "drain fuel r = Some (items r)"
  using assms
proof (induction "unat (cr_end r - cr_start r)" arbitrary: r fuel)
  case 0
  then have eq: "cr_start r = cr_end r"
    by (metis unat_eq_0 right_minus_eq)
  from 0 obtain f where f: "fuel = Suc (Suc f)"
    by (cases fuel) (auto simp: gr0_conv_Suc)
  have "drain (Suc f) (r\<lparr>cr_exhausted := True\<rparr>) = Some []"
    by (rule drain_exhausted) simp
  with 0 eq f show ?case
    by (simp add: Next_def items_def del: drain.simps(2) add: drain.simps(2) [of "Suc f"])
next
  case (Suc n)
  let ?r = "r\<lparr>cr_start := cr_start r + 1\<rparr>"
  from Suc.hyps(2) have ne: "cr_start r \<noteq> cr_end r" by auto
  from Suc.prems obtain f where f: "fuel = Suc f"
    by (cases fuel) auto
  have "length (items r) = Suc (length (items ?r))"
    using items_step [OF ne] by simp
  then have n: "n = unat (cr_end ?r - cr_start ?r)"
    using Suc.hyps(2) by (simp add: items_def)
  have "drain f ?r = Some (items ?r)"
    using Suc.prems Suc.hyps(2) f n by (intro Suc.hyps(1)) auto
  then show ?case
    using ne f Suc.prems(1) items_step [OF ne] by (simp add: Next_def Let_def)
qed

lemma set_items: "set (items r) = {x. Contains r x}"
proof (rule set_eqI, rule iffI)
  fix x
  assume "x \<in> set (items r)"
  then obtain k where "k \<le> unat (cr_end r - cr_start r)" and "x = cr_start r + of_nat k"
    unfolding items_def set_map set_upt by (elim imageE) (metis atLeastLessThan_iff less_Suc_eq_le)
  moreover from this have "k < 65536"
    using unat_lt_65536 [of "cr_end r - cr_start r"] by linarith
  ultimately show "x \<in> {x. Contains r x}"
    by (simp add: Contains_circular)
next
  fix x
  assume "x \<in> {x. Contains r x}"
  then have "unat (x - cr_start r) < Suc (unat (cr_end r - cr_start r))"
    by (simp add: Contains_circular)
  moreover have "x = cr_start r + of_nat (unat (x - cr_start r))"
    by simp
  ultimately show "x \<in> set (items r)"
    unfolding items_def by (metis (no_types, lifting) atLeastLessThan_iff image_eqI
      le0 list.set_map set_upt)
qed

lemma distinct_items: "distinct (items r)"
proof -
  have "inj_on (\<lambda>k. cr_start r + of_nat k) {0..<Suc (unat (cr_end r - cr_start r))}"
  proof (rule inj_onI)
    fix a b
    assume "a \<in> {0..<Suc (unat (cr_end r - cr_start r))}"
      and "b \<in> {0..<Suc (unat (cr_end r - cr_start r))}"
      and eq: "cr_start r + of_nat a = cr_start r + (of_nat b :: u16)"
    then have "a < 65536" "b < 65536"
      using unat_lt_65536 [of "cr_end r - cr_start r"] by simp_all
    with eq show "a = b" by (simp add: of_nat_u16_inj)
  qed
  then show ?thesis
    by (simp add: items_def distinct_map del: upt_Suc)
qed

section \<open>Properties\<close>

text \<open>
  C28. Iterating a fresh range with \<open>Next\<close> stops after at most 65536 items and yields exactly the
  sequence numbers that \<open>Contains\<close> accepts, each once, counting up from the start with
  wrap-around.
\<close>

theorem range_iteration_exact:
  "\<exists>xs. drain 65537 (newCircularRangeInclusive s e) = Some xs
      \<and> set xs = {x. Contains (newCircularRangeInclusive s e) x}
      \<and> distinct xs
      \<and> xs = map (\<lambda>k. s + of_nat k) [0..<Suc (unat (e - s))]"
proof (intro exI conjI)
  let ?r = "newCircularRangeInclusive s e"
  show "drain 65537 ?r = Some (items ?r)"
    using unat_lt_65536 [of "e - s"]
    by (intro drain_items) (simp_all add: newCircularRangeInclusive_def)
  show "set (items ?r) = {x. Contains ?r x}" by (rule set_items)
  show "distinct (items ?r)" by (rule distinct_items)
  show "items ?r = map (\<lambda>k. s + of_nat k) [0..<Suc (unat (e - s))]"
    by (simp add: items_def del: upt_Suc)
qed

end
