(* ===== verification/BTree_Spec.thy ===== *)
theory BTree_Spec
  imports Utp_Prelude
begin

text \<open>
  The ordered trees of the package \<^verbatim>\<open>github.com/google/btree\<close>, used by the receive buffer (pending
  packets) and by the sent packets (lost sequence numbers). The package is not part of the
  sources, so its trees are a parameter: a record of the methods the sources call, with the
  documented behaviour of these methods as the locale \<open>btree\<close>. \<open>invar\<close> holds of the trees the
  package builds. Everything is stated through \<open>Ascend\<close>, which visits the items in increasing
  order; two items neither of which is less than the other are the same item for the tree.

  \<open>list_BTree\<close> is a sorted list with the same methods. It shows that the contract can be met,
  and it is the tree of the concrete examples of the development.
\<close>

record ('t, 'i) BTree =
  bt_New :: 't
  bt_ReplaceOrInsert :: "'i \<Rightarrow> 't \<Rightarrow> 't"
  bt_Delete :: "'i \<Rightarrow> 't \<Rightarrow> 't"
  bt_Get :: "'i \<Rightarrow> 't \<Rightarrow> 'i option"
  bt_Has :: "'i \<Rightarrow> 't \<Rightarrow> bool"
  bt_Len :: "'t \<Rightarrow> nat"
  bt_Ascend :: "'t \<Rightarrow> 'i list"

locale btree =
  fixes B :: "('t, 'i) BTree"
    and lt :: "'i \<Rightarrow> 'i \<Rightarrow> bool"
    and invar :: "'t \<Rightarrow> bool"
  assumes less_irrefl: "\<not> lt x x"
    and less_trans: "lt x y \<Longrightarrow> lt y z \<Longrightarrow> lt x z"
    and New: "bt_Ascend B (bt_New B) = []" "invar (bt_New B)"
    and Ascend_sorted: "invar t \<Longrightarrow> sorted_wrt lt (bt_Ascend B t)"
    and Insert: "invar t \<Longrightarrow> set (bt_Ascend B (bt_ReplaceOrInsert B x t))
                   = insert x {y \<in> set (bt_Ascend B t). lt x y \<or> lt y x}"
    and invar_Insert: "invar t \<Longrightarrow> invar (bt_ReplaceOrInsert B x t)"
    and Delete: "invar t \<Longrightarrow> set (bt_Ascend B (bt_Delete B x t))
                   = {y \<in> set (bt_Ascend B t). lt x y \<or> lt y x}"
    and invar_Delete: "invar t \<Longrightarrow> invar (bt_Delete B x t)"
    and Get: "invar t \<Longrightarrow> bt_Get B x t = Some y
                \<longleftrightarrow> y \<in> set (bt_Ascend B t) \<and> \<not> lt x y \<and> \<not> lt y x"
    and Has: "invar t \<Longrightarrow> bt_Has B x t
                \<longleftrightarrow> (\<exists>y \<in> set (bt_Ascend B t). \<not> lt x y \<and> \<not> lt y x)"
    and Len: "invar t \<Longrightarrow> bt_Len B t = length (bt_Ascend B t)"
begin

lemmas invars = New(2) invar_Insert invar_Delete

lemma distinct_Ascend: "invar t \<Longrightarrow> distinct (bt_Ascend B t)"
  using Ascend_sorted [of t]
  by (metis less_irrefl distinct_conv_nth sorted_wrt_iff_nth_less nat_neq_iff)

lemma same_item:
  assumes "invar t" "x \<in> set (bt_Ascend B t)" "y \<in> set (bt_Ascend B t)"
    and "\<not> lt x y" "\<not> lt y x"
  shows "x = y"
proof -
  obtain i j where "i < length (bt_Ascend B t)" "x = bt_Ascend B t ! i"
    and "j < length (bt_Ascend B t)" "y = bt_Ascend B t ! j"
    using assms(2,3) by (metis in_set_conv_nth)
  with assms Ascend_sorted [OF assms(1)] show ?thesis
    by (metis linorder_neqE_nat sorted_wrt_iff_nth_less)
qed

text \<open>A sum over the items follows the insertions and deletions.\<close>

lemma sum_Ascend:
  "invar t \<Longrightarrow> sum_list (map f (bt_Ascend B t)) = sum f (set (bt_Ascend B t))"
  by (simp add: distinct_Ascend sum_list_distinct_conv_sum_set)

lemma set_Insert_fresh:
  assumes "invar t" "\<not> bt_Has B x t"
  shows "set (bt_Ascend B (bt_ReplaceOrInsert B x t)) = insert x (set (bt_Ascend B t))"
    and "x \<notin> set (bt_Ascend B t)"
  using assms less_irrefl by (auto simp: Insert Has)

lemma set_Delete_member:
  assumes "invar t" "x \<in> set (bt_Ascend B t)"
  shows "set (bt_Ascend B (bt_Delete B x t)) = set (bt_Ascend B t) - {x}"
  using assms less_irrefl same_item [OF assms(1)] by (auto simp: Delete)

lemma Len_card: "invar t \<Longrightarrow> bt_Len B t = card (set (bt_Ascend B t))"
  by (simp add: Len distinct_card distinct_Ascend)

lemma Get_None:
  "invar t \<Longrightarrow> bt_Get B x t = None
     \<longleftrightarrow> (\<forall>y \<in> set (bt_Ascend B t). lt x y \<or> lt y x)"
  using Get [of t x] by (metis not_None_eq)

lemma Len_0: "invar t \<Longrightarrow> bt_Len B t = 0 \<longleftrightarrow> bt_Ascend B t = []"
  by (simp add: Len)

end

section \<open>A sorted list meets the contract\<close>

fun list_insert :: "('i \<Rightarrow> 'i \<Rightarrow> bool) \<Rightarrow> 'i \<Rightarrow> 'i list \<Rightarrow> 'i list" where
  "list_insert lt x [] = [x]"
| "list_insert lt x (y # ys) =
     (if lt x y then x # y # ys
      else if lt y x then y # list_insert lt x ys
      else x # ys)"

definition list_BTree :: "('i \<Rightarrow> 'i \<Rightarrow> bool) \<Rightarrow> ('i list, 'i) BTree" where
  "list_BTree lt =
     \<lparr>bt_New = [],
      bt_ReplaceOrInsert = list_insert lt,
      bt_Delete = (\<lambda>x. filter (\<lambda>y. lt x y \<or> lt y x)),
      bt_Get = (\<lambda>x. find (\<lambda>y. \<not> lt x y \<and> \<not> lt y x)),
      bt_Has = (\<lambda>x t. \<exists>y \<in> set t. \<not> lt x y \<and> \<not> lt y x),
      bt_Len = length,
      bt_Ascend = id\<rparr>"

context key_order
begin

lemma set_list_insert:
  "sorted_wrt lt xs \<Longrightarrow> set (list_insert lt x xs) = insert x {y \<in> set xs. lt x y \<or> lt y x}"
  by (induction xs) (auto simp: less_key)

lemma sorted_list_insert: "sorted_wrt lt xs \<Longrightarrow> sorted_wrt lt (list_insert lt x xs)"
  by (induction xs) (auto simp: set_list_insert less_key)

lemma find_equiv:
  "sorted_wrt lt xs \<Longrightarrow>
     find (\<lambda>y. \<not> lt x y \<and> \<not> lt y x) xs = Some y \<longleftrightarrow> y \<in> set xs \<and> \<not> lt x y \<and> \<not> lt y x"
  by (induction xs) (auto simp: less_key)

sublocale btree "list_BTree lt" lt "sorted_wrt lt"
  by unfold_locales
    (simp_all add: list_BTree_def set_list_insert sorted_list_insert find_equiv
      sorted_wrt_filter, simp_all add: less_key)

end

end
