(* ===== verification/Recv_Buffer.thy ===== *)
theory Recv_Buffer
  imports Circular_Range Packet_Codec BTree_Spec
begin

text \<open>
  \<^verbatim>\<open>recv_buffer.go\<close>: the receive buffer. \<open>buf[0..offset]\<close> holds the bytes that are in order and not
  yet read, \<open>pending\<close> the packets that arrived ahead of a gap, \<open>consumed\<close> counts the packets
  moved from \<open>pending\<close> into \<open>buf\<close>. The tree of pending packets is the parameter \<open>B\<close> of the theory
  \<open>BTree_Spec\<close>. The lemmas of the buffer are proved once in the locale \<open>recv_tree\<close>, for every tree
  that keeps the contract; logging is left out.
\<close>

definition MAX_SELECTIVE_ACK_COUNT :: nat where "MAX_SELECTIVE_ACK_COUNT = 32 * 63"

record pendingItem =
  pi_seqNum :: u16
  pi_data :: bytes

definition pendingItem_Less :: "pendingItem \<Rightarrow> pendingItem \<Rightarrow> bool" where
  "pendingItem_Less i other \<longleftrightarrow> pi_seqNum i < pi_seqNum other"

record 't receiveBuffer =
  rb_buf :: bytes
  rb_offset :: int
  rb_pending :: 't
  rb_initSeqNum :: u16
  rb_consumed :: u16

definition newReceiveBuffer :: "('t, pendingItem) BTree \<Rightarrow> nat \<Rightarrow> u16 \<Rightarrow> 't receiveBuffer" where
  "newReceiveBuffer B sz initSeqNum =
     \<lparr>rb_buf = replicate sz 0, rb_offset = 0, rb_pending = bt_New B,
      rb_initSeqNum = initSeqNum, rb_consumed = 0\<rparr>"

definition rb_Available :: "('t, pendingItem) BTree \<Rightarrow> 't receiveBuffer \<Rightarrow> int" where
  "rb_Available B rb =
     foldl (\<lambda>available item. available - int (length (pi_data item)))
       (int (length (rb_buf rb)) - rb_offset rb) (bt_Ascend B (rb_pending rb))"

definition rb_IsEmpty :: "('t, pendingItem) BTree \<Rightarrow> 't receiveBuffer \<Rightarrow> bool" where
  "rb_IsEmpty B rb \<longleftrightarrow> rb_offset rb = 0 \<and> bt_Len B (rb_pending rb) = 0"

definition rb_InitSeqNum :: "'t receiveBuffer \<Rightarrow> u16" where
  "rb_InitSeqNum rb = rb_initSeqNum rb"

definition rb_WasWritten :: "('t, pendingItem) BTree \<Rightarrow> 't receiveBuffer \<Rightarrow> u16 \<Rightarrow> bool" where
  "rb_WasWritten B rb seqNum =
     (let exists = bt_Has B \<lparr>pi_seqNum = seqNum, pi_data = []\<rparr> (rb_pending rb);
          writtenRange = \<lparr>cr_start = rb_initSeqNum rb, cr_end = rb_initSeqNum rb + rb_consumed rb,
                          cr_exhausted = False\<rparr>
      in exists \<or> Contains writtenRange seqNum)"

text \<open>\<open>Read(buf)\<close> fills a buffer of length \<open>buflen\<close>; the second \<open>copy\<close> moves the rest to the front.\<close>

definition rb_Read :: "'t receiveBuffer \<Rightarrow> int \<Rightarrow> ('t receiveBuffer \<times> bytes) go" where
  "rb_Read rb buflen =
     (if buflen = 0 then Some (rb, [])
      else
        let n = minInt buflen (rb_offset rb) in do {
          out \<leftarrow> go_slice 0 n (rb_buf rb);
          let remaining = rb_offset rb - n;
          rest \<leftarrow> go_slice n (n + remaining) (rb_buf rb);
          Some (rb\<lparr>rb_buf := rest @ drop (length rest) (rb_buf rb), rb_offset := remaining\<rparr>, out)
        })"

text \<open>
  The loop of \<open>Write\<close> that moves pending packets into the buffer. Each round deletes one pending
  item, so \<open>pending.Len() + 1\<close> rounds of fuel suffice (lemma \<open>drain_ok\<close>).
\<close>

fun rb_drain ::
  "('t, pendingItem) BTree \<Rightarrow> nat \<Rightarrow> 't receiveBuffer \<Rightarrow> u16 \<Rightarrow> 't receiveBuffer go" where
  "rb_drain B 0 rb nxt = None"
| "rb_drain B (Suc fuel) rb nxt =
     (case bt_Get B \<lparr>pi_seqNum = nxt, pi_data = []\<rparr> (rb_pending rb) of
        None \<Rightarrow> Some rb
      | Some pending \<Rightarrow>
        let en = rb_offset rb + int (length (pi_data pending)) in do {
          _ \<leftarrow> go_slice (rb_offset rb) en (rb_buf rb);
          rb_drain B fuel
            (rb\<lparr>rb_buf := take (nat (rb_offset rb)) (rb_buf rb) @ pi_data pending
                           @ drop (nat en) (rb_buf rb),
                rb_offset := en,
                rb_consumed := rb_consumed rb + 1,
                rb_pending := bt_Delete B pending (rb_pending rb)\<rparr>)
            (nxt + 1)
        })"

definition rb_Write ::
  "('t, pendingItem) BTree \<Rightarrow> 't receiveBuffer \<Rightarrow> bytes \<Rightarrow> u16
     \<Rightarrow> ('t receiveBuffer \<times> goerr option) go" where
  "rb_Write B rb data seqNum =
     (if rb_WasWritten B rb seqNum then Some (rb, None)
      else if int (length data) > rb_Available B rb
      then Some (rb, Some (Errorf ''insufficient space in buffer''))
      else
        let pending = bt_ReplaceOrInsert B \<lparr>pi_seqNum = seqNum, pi_data = data\<rparr> (rb_pending rb);
            nxt = rb_initSeqNum rb + 1 + rb_consumed rb
        in do {
          rb' \<leftarrow> rb_drain B (Suc (bt_Len B pending)) (rb\<lparr>rb_pending := pending\<rparr>) nxt;
          Some (rb', None)
        })"

definition rb_AckNum :: "'t receiveBuffer \<Rightarrow> u16" where
  "rb_AckNum rb = rb_initSeqNum rb + rb_consumed rb"

text \<open>
  The loop of \<open>SelectiveAck\<close> adds one flag a round and stops at \<open>MAX_SELECTIVE_ACK_COUNT\<close> flags or
  when every pending number has been met; the first argument is the number of flags left to add.
\<close>

fun sack_loop :: "nat \<Rightarrow> u16 list \<Rightarrow> u16 \<Rightarrow> bool list \<Rightarrow> bool list" where
  "sack_loop 0 pendingSeqs lastAck ack = ack"
| "sack_loop (Suc n) pendingSeqs lastAck ack =
     (if pendingSeqs = [] then ack
      else if lastAck \<in> set pendingSeqs
      then sack_loop n (removeAll lastAck pendingSeqs) (lastAck + 1) (ack @ [True])
      else sack_loop n pendingSeqs (lastAck + 1) (ack @ [False]))"

definition rb_SelectiveAck ::
  "('t, pendingItem) BTree \<Rightarrow> 't receiveBuffer \<Rightarrow> SelectiveAck option" where
  "rb_SelectiveAck B rb =
     (if bt_Len B (rb_pending rb) = 0 then None
      else
        let lastAck = rb_AckNum rb + 2;
            pendingSeqs = map pi_seqNum (bt_Ascend B (rb_pending rb))
        in Some (NewSelectiveAck (sack_loop MAX_SELECTIVE_ACK_COUNT pendingSeqs lastAck [])))"

section \<open>Invariant and stream\<close>

text \<open>
  \<open>rb_wf d\<close>: the bytes held fit the buffer, and every pending packet lies more than \<open>d\<close> beyond the
  last consumed one. Between operations \<open>d = 1\<close>: the next packet in order is never pending. Inside
  the loop of \<open>Write\<close> only \<open>d = 0\<close> holds.
\<close>

definition rb_wf ::
  "('t, pendingItem) BTree \<Rightarrow> ('t \<Rightarrow> bool) \<Rightarrow> nat \<Rightarrow> 't receiveBuffer \<Rightarrow> bool" where
  "rb_wf B invar d rb \<longleftrightarrow>
     invar (rb_pending rb) \<and> 0 \<le> rb_offset rb
     \<and> rb_offset rb + int (\<Sum>i \<in> set (bt_Ascend B (rb_pending rb)). length (pi_data i))
         \<le> int (length (rb_buf rb))
     \<and> (\<forall>i \<in> set (bt_Ascend B (rb_pending rb)).
          unat (rb_consumed rb) + d < unat (pi_seqNum i - rb_initSeqNum rb))"

abbreviation rb_inv :: "('t, pendingItem) BTree \<Rightarrow> ('t \<Rightarrow> bool) \<Rightarrow> 't receiveBuffer \<Rightarrow> bool" where
  "rb_inv B invar \<equiv> rb_wf B invar 1"

text \<open>
  \<open>rb_stream chunk delivered\<close>: when the peer's packet with number \<open>s\<close> carries \<open>chunk s\<close>, the bytes
  delivered so far followed by the bytes in order are the first \<open>consumed\<close> chunks of the stream.
\<close>

definition stream_prefix :: "(u16 \<Rightarrow> bytes) \<Rightarrow> u16 \<Rightarrow> nat \<Rightarrow> bytes" where
  "stream_prefix chunk init n = concat (map (\<lambda>k. chunk (init + 1 + of_nat k)) [0..<n])"

definition rb_stream ::
  "('t, pendingItem) BTree \<Rightarrow> (u16 \<Rightarrow> bytes) \<Rightarrow> bytes \<Rightarrow> 't receiveBuffer \<Rightarrow> bool" where
  "rb_stream B chunk delivered rb \<longleftrightarrow>
     delivered @ take (nat (rb_offset rb)) (rb_buf rb)
       = stream_prefix chunk (rb_initSeqNum rb) (unat (rb_consumed rb))
     \<and> (\<forall>i \<in> set (bt_Ascend B (rb_pending rb)). pi_data i = chunk (pi_seqNum i))"

text \<open>The packets seen so far, as the set of their distances from the initial number.\<close>

definition rb_seen :: "('t, pendingItem) BTree \<Rightarrow> 't receiveBuffer \<Rightarrow> u16 set" where
  "rb_seen B rb = {s. unat (s - rb_initSeqNum rb) \<le> unat (rb_consumed rb)}
                   \<union> pi_seqNum ` set (bt_Ascend B (rb_pending rb))"

lemma u16_diff_eq_iff: "unat (a - c) = unat (b - c) \<longleftrightarrow> a = (b :: u16)"
  by (metis diff_add_cancel unsigned_word_eqI)

lemma foldl_minus_length:
  "foldl (\<lambda>a i. a - int (length (f i))) a xs = a - int (sum_list (map (\<lambda>i. length (f i)) xs))"
  by (induction xs arbitrary: a) auto

lemma stream_prefix_Suc:
  "stream_prefix chunk init (Suc n) = stream_prefix chunk init n @ chunk (init + 1 + of_nat n)"
  by (simp add: stream_prefix_def)

locale recv_tree = btree B pendingItem_Less invar
  for B :: "('t, pendingItem) BTree" and invar :: "'t \<Rightarrow> bool"
begin

lemma equiv_seq: "(\<not> pendingItem_Less x y \<and> \<not> pendingItem_Less y x) \<longleftrightarrow> pi_seqNum x = pi_seqNum y"
  by (auto simp: pendingItem_Less_def)

lemma Available_eq:
  "rb_wf B invar d rb \<Longrightarrow>
     rb_Available B rb = int (length (rb_buf rb)) - rb_offset rb
       - int (\<Sum>i \<in> set (bt_Ascend B (rb_pending rb)). length (pi_data i))"
  by (simp add: rb_Available_def foldl_minus_length sum_Ascend rb_wf_def)

lemma wf_offset:
  assumes "rb_wf B invar d rb"
  shows "0 \<le> rb_offset rb" and "rb_offset rb \<le> int (length (rb_buf rb))"
proof -
  have "rb_offset rb + int (\<Sum>i \<in> set (bt_Ascend B (rb_pending rb)). length (pi_data i))
      \<le> int (length (rb_buf rb))" and "0 \<le> rb_offset rb"
    using assms unfolding rb_wf_def by blast+
  then show "0 \<le> rb_offset rb" and "rb_offset rb \<le> int (length (rb_buf rb))"
    by linarith+
qed

lemma WasWritten_iff:
  "rb_wf B invar d rb \<Longrightarrow> rb_WasWritten B rb s \<longleftrightarrow> s \<in> rb_seen B rb"
  by (auto simp: rb_WasWritten_def Let_def Has equiv_seq Contains_circular rb_seen_def rb_wf_def
      image_iff)

lemma drain_step:
  assumes wf: "rb_wf B invar 0 rb"
    and mem: "p \<in> set (bt_Ascend B (rb_pending rb))"
    and seq: "pi_seqNum p = rb_initSeqNum rb + 1 + rb_consumed rb"
    and rb': "rb' = rb\<lparr>rb_buf := take (nat (rb_offset rb)) (rb_buf rb) @ pi_data p
                 @ drop (nat (rb_offset rb + int (length (pi_data p)))) (rb_buf rb),
               rb_offset := rb_offset rb + int (length (pi_data p)),
               rb_consumed := rb_consumed rb + 1,
               rb_pending := bt_Delete B p (rb_pending rb)\<rparr>"
  shows "rb_wf B invar 0 rb'"
    and "rb_offset rb + int (length (pi_data p)) \<le> int (length (rb_buf rb))"
    and "length (rb_buf rb') = length (rb_buf rb)"
    and "unat (rb_consumed rb') = Suc (unat (rb_consumed rb))"
    and "rb_seen B rb' = rb_seen B rb"
    and "rb_stream B chunk del rb \<Longrightarrow> rb_stream B chunk del rb'"
    and "rb_Available B rb' = rb_Available B rb"
    and "card (set (bt_Ascend B (rb_pending rb))) = Suc (card (set (bt_Ascend B (rb_pending rb'))))"
proof -
  let ?S = "set (bt_Ascend B (rb_pending rb))"
  let ?len = "\<lambda>i. length (pi_data i)"
  have inv: "invar (rb_pending rb)" using wf by (simp add: rb_wf_def)
  have S': "set (bt_Ascend B (rb_pending rb')) = ?S - {p}"
    using set_Delete_member [OF inv mem] by (simp add: rb')
  have sum: "(\<Sum>i \<in> ?S. ?len i) = ?len p + (\<Sum>i \<in> ?S - {p}. ?len i)"
    using mem by (simp add: sum.remove)
  have d: "pi_seqNum p - rb_initSeqNum rb = rb_consumed rb + 1"
    using seq by simp
  have "unat (rb_consumed rb) < unat (rb_consumed rb + 1)"
    using wf mem by (simp add: rb_wf_def d [symmetric])
  then have cons: "unat (rb_consumed rb + 1) = Suc (unat (rb_consumed rb))"
    by (auto simp: unat_add_u16 split: if_splits)
  show fit: "rb_offset rb + int (length (pi_data p)) \<le> int (length (rb_buf rb))"
  proof -
    have "rb_offset rb + int (\<Sum>i \<in> ?S. ?len i) \<le> int (length (rb_buf rb))"
      using wf unfolding rb_wf_def by blast
    then show ?thesis unfolding sum of_nat_add by linarith
  qed
  have off: "0 \<le> rb_offset rb" using wf by (simp add: rb_wf_def)
  show len: "length (rb_buf rb') = length (rb_buf rb)"
    using fit off by (simp add: rb')
  have dist: "unat (s - rb_initSeqNum rb) = Suc (unat (rb_consumed rb)) \<longleftrightarrow> s = pi_seqNum p" for s
    using u16_diff_eq_iff [of s "rb_initSeqNum rb" "pi_seqNum p"] unfolding d cons .
  have far: "Suc (unat (rb_consumed rb)) < unat (pi_seqNum i - rb_initSeqNum rb)"
    if "i \<in> ?S - {p}" for i
  proof -
    have "pi_seqNum i \<noteq> pi_seqNum p"
      using that same_item [OF inv _ mem, of i] equiv_seq [of i p] by auto
    then have "unat (pi_seqNum i - rb_initSeqNum rb) \<noteq> Suc (unat (rb_consumed rb))"
      unfolding dist .
    moreover have "unat (rb_consumed rb) < unat (pi_seqNum i - rb_initSeqNum rb)"
      using that wf by (simp add: rb_wf_def)
    ultimately show ?thesis by linarith
  qed
  show wf': "rb_wf B invar 0 rb'"
    unfolding rb_wf_def S' len using wf sum far invar_Delete [OF inv]
    by (auto simp: rb' cons rb_wf_def)
  show "unat (rb_consumed rb') = Suc (unat (rb_consumed rb))"
    by (simp add: rb' cons)
  show "rb_Available B rb' = rb_Available B rb"
    unfolding Available_eq [OF wf] Available_eq [OF wf'] S' len sum by (simp add: rb')
  show "card ?S = Suc (card (set (bt_Ascend B (rb_pending rb'))))"
    unfolding S' using card_Suc_Diff1 [OF _ mem] by simp
  have "{s. unat (s - rb_initSeqNum rb) \<le> Suc (unat (rb_consumed rb))}
      = insert (pi_seqNum p) {s. unat (s - rb_initSeqNum rb) \<le> unat (rb_consumed rb)}"
    unfolding le_Suc_eq dist by auto
  then show "rb_seen B rb' = rb_seen B rb"
    unfolding rb_seen_def S' using mem by (auto simp: rb' cons)
  show "rb_stream B chunk del rb'" if st: "rb_stream B chunk del rb"
  proof -
    have "take (nat (rb_offset rb')) (rb_buf rb')
        = take (nat (rb_offset rb)) (rb_buf rb) @ pi_data p"
      using off fit by (simp add: rb' nat_add_distrib)
    moreover have "pi_data p = chunk (rb_initSeqNum rb + 1 + of_nat (unat (rb_consumed rb)))"
      using st mem seq by (simp add: rb_stream_def)
    ultimately show ?thesis
      using st unfolding rb_stream_def S'
      by (simp add: rb' cons stream_prefix_Suc del: of_nat_unat)
  qed
qed

lemma drain_ok:
  assumes "rb_wf B invar 0 rb" and "card (set (bt_Ascend B (rb_pending rb))) < fuel"
    and "nxt = rb_initSeqNum rb + 1 + rb_consumed rb"
  shows "\<exists>rb'. rb_drain B fuel rb nxt = Some rb' \<and> rb_inv B invar rb'
      \<and> rb_initSeqNum rb' = rb_initSeqNum rb \<and> length (rb_buf rb') = length (rb_buf rb)
      \<and> unat (rb_consumed rb) \<le> unat (rb_consumed rb')
      \<and> rb_seen B rb' = rb_seen B rb \<and> rb_Available B rb' = rb_Available B rb
      \<and> (\<forall>chunk del. rb_stream B chunk del rb \<longrightarrow> rb_stream B chunk del rb')"
  using assms
proof (induction fuel arbitrary: rb nxt)
  case 0
  then show ?case by simp
next
  case (Suc fuel)
  have inv: "invar (rb_pending rb)" using Suc.prems(1) by (simp add: rb_wf_def)
  show ?case
  proof (cases "bt_Get B \<lparr>pi_seqNum = nxt, pi_data = []\<rparr> (rb_pending rb)")
    case None
    then have "\<forall>i \<in> set (bt_Ascend B (rb_pending rb)). pi_seqNum i \<noteq> nxt"
      using equiv_seq by (fastforce simp: Get_None [OF inv] pendingItem_Less_def)
    moreover have "nxt - rb_initSeqNum rb = rb_consumed rb + 1"
      using Suc.prems(3) by simp
    ultimately have "unat (pi_seqNum i - rb_initSeqNum rb) \<noteq> unat (rb_consumed rb + 1)"
      if "i \<in> set (bt_Ascend B (rb_pending rb))" for i
      using that u16_diff_eq_iff [of "pi_seqNum i" "rb_initSeqNum rb" nxt] by simp
    then have "unat (rb_consumed rb) + 1 < unat (pi_seqNum i - rb_initSeqNum rb)"
      if "i \<in> set (bt_Ascend B (rb_pending rb))" for i
      using that Suc.prems(1) unat_lt_65536 [of "pi_seqNum i - rb_initSeqNum rb"]
      by (fastforce simp: rb_wf_def unat_add_u16 split: if_splits)
    then have "rb_inv B invar rb"
      using Suc.prems(1) by (simp add: rb_wf_def)
    with None show ?thesis by simp
  next
    case (Some p)
    then have mem: "p \<in> set (bt_Ascend B (rb_pending rb))" and "pi_seqNum p = nxt"
      using equiv_seq by (auto simp: Get [OF inv] pendingItem_Less_def)
    then have seq: "pi_seqNum p = rb_initSeqNum rb + 1 + rb_consumed rb"
      using Suc.prems(3) by simp
    define rb1 where "rb1 = rb\<lparr>rb_buf := take (nat (rb_offset rb)) (rb_buf rb) @ pi_data p
                 @ drop (nat (rb_offset rb + int (length (pi_data p)))) (rb_buf rb),
               rb_offset := rb_offset rb + int (length (pi_data p)),
               rb_consumed := rb_consumed rb + 1,
               rb_pending := bt_Delete B p (rb_pending rb)\<rparr>"
    note step = drain_step [OF Suc.prems(1) mem seq rb1_def]
    have "\<exists>rb'. rb_drain B fuel rb1 (nxt + 1) = Some rb' \<and> rb_inv B invar rb'
      \<and> rb_initSeqNum rb' = rb_initSeqNum rb1 \<and> length (rb_buf rb') = length (rb_buf rb1)
      \<and> unat (rb_consumed rb1) \<le> unat (rb_consumed rb')
      \<and> rb_seen B rb' = rb_seen B rb1 \<and> rb_Available B rb' = rb_Available B rb1
      \<and> (\<forall>chunk del. rb_stream B chunk del rb1 \<longrightarrow> rb_stream B chunk del rb')"
      using step(8) Suc.prems(2,3) by (intro Suc.IH step(1)) (auto simp: rb1_def)
    moreover have "rb_drain B (Suc fuel) rb nxt = rb_drain B fuel rb1 (nxt + 1)"
      using Some step(2) Suc.prems(1)
      by (simp add: go_slice_def rb1_def rb_wf_def Let_def)
    moreover have "rb_initSeqNum rb1 = rb_initSeqNum rb" by (simp add: rb1_def)
    ultimately show ?thesis
      using step by fastforce
  qed
qed

lemma Write_ok:
  assumes inv: "rb_inv B invar rb"
  shows "\<exists>rb' e. rb_Write B rb data s = Some (rb', e) \<and> rb_inv B invar rb'
      \<and> rb_initSeqNum rb' = rb_initSeqNum rb \<and> length (rb_buf rb') = length (rb_buf rb)
      \<and> (if s \<in> rb_seen B rb then rb' = rb \<and> e = None
         else if int (length data) > rb_Available B rb
         then rb' = rb \<and> e = Some (Errorf ''insufficient space in buffer'')
         else e = None \<and> rb_seen B rb' = insert s (rb_seen B rb)
              \<and> rb_Available B rb' = rb_Available B rb - int (length data)
              \<and> unat (rb_consumed rb) \<le> unat (rb_consumed rb'))
      \<and> (\<forall>chunk del. rb_stream B chunk del rb \<and> data = chunk s \<longrightarrow> rb_stream B chunk del rb')"
proof (cases "s \<in> rb_seen B rb \<or> int (length data) > rb_Available B rb")
  case True
  then show ?thesis
    using inv WasWritten_iff [OF inv] by (auto simp: rb_Write_def)
next
  case False
  let ?i = "\<lparr>pi_seqNum = s, pi_data = data\<rparr>"
  let ?rb = "rb\<lparr>rb_pending := bt_ReplaceOrInsert B ?i (rb_pending rb)\<rparr>"
  have t: "invar (rb_pending rb)" using inv by (simp add: rb_wf_def)
  have fresh: "\<not> bt_Has B ?i (rb_pending rb)"
    using False by (auto simp: Has [OF t] equiv_seq rb_seen_def)
  note S = set_Insert_fresh [OF t fresh]
  have sum: "(\<Sum>j \<in> set (bt_Ascend B (rb_pending ?rb)). length (pi_data j))
      = length data + (\<Sum>j \<in> set (bt_Ascend B (rb_pending rb)). length (pi_data j))"
    using S by simp
  have seen: "rb_seen B ?rb = insert s (rb_seen B rb)"
    using S by (auto simp: rb_seen_def)
  have far: "unat (rb_consumed rb) < unat (s - rb_initSeqNum rb)"
    using False by (auto simp: rb_seen_def)
  have fit: "rb_offset rb + int (length data)
      + int (\<Sum>j \<in> set (bt_Ascend B (rb_pending rb)). length (pi_data j)) \<le> int (length (rb_buf rb))"
    using False Available_eq [OF inv] by linarith
  have wf: "rb_wf B invar 0 ?rb"
    unfolding rb_wf_def sum using inv far fit invar_Insert [OF t] S
    by (auto simp: rb_wf_def)
  have av: "rb_Available B ?rb = rb_Available B rb - int (length data)"
    unfolding Available_eq [OF wf] Available_eq [OF inv] sum by simp
  have st: "rb_stream B chunk del ?rb" if "rb_stream B chunk del rb \<and> data = chunk s" for chunk del
    using that S by (auto simp: rb_stream_def)
  have "card (set (bt_Ascend B (rb_pending ?rb))) < Suc (bt_Len B (rb_pending ?rb))"
    using Len_card invar_Insert [OF t] by simp
  from drain_ok [OF wf this refl] obtain rb' where
    "rb_drain B (Suc (bt_Len B (rb_pending ?rb))) ?rb
       (rb_initSeqNum ?rb + 1 + rb_consumed ?rb) = Some rb'"
    and "rb_inv B invar rb'" and "rb_initSeqNum rb' = rb_initSeqNum ?rb"
    and "length (rb_buf rb') = length (rb_buf ?rb)"
    and "unat (rb_consumed ?rb) \<le> unat (rb_consumed rb')"
    and "rb_seen B rb' = rb_seen B ?rb" and "rb_Available B rb' = rb_Available B ?rb"
    and "\<forall>chunk del. rb_stream B chunk del ?rb \<longrightarrow> rb_stream B chunk del rb'"
    by blast
  with False WasWritten_iff [OF inv] seen av st show ?thesis
    by (simp add: rb_Write_def Let_def)
qed

lemma Read_ok:
  assumes inv: "rb_inv B invar rb" and k: "0 \<le> k"
  shows "\<exists>rb'. rb_Read rb k = Some (rb', take (nat k) (take (nat (rb_offset rb)) (rb_buf rb)))
      \<and> rb_inv B invar rb' \<and> rb_initSeqNum rb' = rb_initSeqNum rb
      \<and> rb_consumed rb' = rb_consumed rb \<and> length (rb_buf rb') = length (rb_buf rb)
      \<and> rb_seen B rb' = rb_seen B rb
      \<and> (\<forall>chunk del. rb_stream B chunk del rb \<longrightarrow>
           rb_stream B chunk (del @ take (nat k) (take (nat (rb_offset rb)) (rb_buf rb))) rb')"
proof (cases "k = 0")
  case True
  then show ?thesis using inv by (simp add: rb_Read_def)
next
  case False
  let ?n = "min k (rb_offset rb)"
  let ?rest = "take (nat (rb_offset rb - ?n)) (drop (nat ?n) (rb_buf rb))"
  let ?rb = "rb\<lparr>rb_buf := ?rest @ drop (length ?rest) (rb_buf rb), rb_offset := rb_offset rb - ?n\<rparr>"
  have off: "0 \<le> rb_offset rb" and fit: "rb_offset rb \<le> int (length (rb_buf rb))"
    using wf_offset [OF inv] by auto
  have out: "take (nat ?n) (rb_buf rb) = take (nat k) (take (nat (rb_offset rb)) (rb_buf rb))"
    using k off by (simp add: min_def nat_le_iff)
  have len: "length (rb_buf ?rb) = length (rb_buf rb)"
    using off fit k by simp
  have r: "rb_Read rb k = Some (?rb, take (nat ?n) (rb_buf rb))"
    using False k off fit by (simp add: rb_Read_def go_slice_def Let_def)
  have inv': "rb_inv B invar ?rb"
    using inv k unfolding rb_wf_def len by auto
  have "rb_stream B chunk (del @ take (nat ?n) (rb_buf rb)) ?rb" if "rb_stream B chunk del rb"
    for chunk del
  proof -
    have "nat (rb_offset rb) = nat ?n + nat (rb_offset rb - ?n)"
      using k off by (simp add: nat_add_distrib [symmetric])
    then have "take (nat (rb_offset rb)) (rb_buf rb) = take (nat ?n) (rb_buf rb) @ ?rest"
      by (simp add: take_add)
    moreover have "length ?rest = nat (rb_offset rb - ?n)"
      using k off fit by (simp add: min_def) arith
    ultimately show ?thesis
      using that by (simp add: rb_stream_def)
  qed
  with r inv' len show ?thesis
    unfolding out by (simp add: rb_seen_def)
qed

lemma AckNum_maximal:
  assumes "rb_inv B invar rb" and "m \<le> 65535"
  shows "(\<forall>k < m. rb_WasWritten B rb (rb_initSeqNum rb + 1 + of_nat k))
           \<longleftrightarrow> m \<le> unat (rb_consumed rb)"
proof -
  have u: "unat (rb_initSeqNum rb + 1 + of_nat k - rb_initSeqNum rb) = Suc k" if "k < 65535" for k
  proof -
    have "rb_initSeqNum rb + 1 + of_nat k - rb_initSeqNum rb = (of_nat (Suc k) :: u16)" by simp
    with that show ?thesis by (simp del: of_nat_Suc)
  qed
  let ?c = "unat (rb_consumed rb)"
  let ?s = "rb_initSeqNum rb + 1 + of_nat ?c"
  have miss: "?s \<notin> rb_seen B rb" if "?c < 65535"
  proof
    assume "?s \<in> rb_seen B rb"
    then consider "unat (?s - rb_initSeqNum rb) \<le> ?c"
      | i where "i \<in> set (bt_Ascend B (rb_pending rb))" "?s = pi_seqNum i"
      unfolding rb_seen_def by blast
    then show False
    proof cases
      case 1
      then show ?thesis unfolding u [OF that] by simp
    next
      case (2 i)
      then have "?c + 1 < unat (?s - rb_initSeqNum rb)"
        using assms(1) unfolding rb_wf_def by metis
      then show ?thesis unfolding u [OF that] by simp
    qed
  qed
  have hit: "rb_initSeqNum rb + 1 + of_nat k \<in> rb_seen B rb" if "k < ?c" for k
    using that u [of k] unat_lt_65536 [of "rb_consumed rb"] by (simp add: rb_seen_def)
  show ?thesis
    unfolding WasWritten_iff [OF assms(1)]
  proof
    assume all: "\<forall>k < m. rb_initSeqNum rb + 1 + of_nat k \<in> rb_seen B rb"
    show "m \<le> ?c"
    proof (rule ccontr)
      assume "\<not> m \<le> ?c"
      then have "?c < m" and "?c < 65535" using assms(2) by auto
      with all miss show False by blast
    qed
  next
    assume "m \<le> ?c"
    then show "\<forall>k < m. rb_initSeqNum rb + 1 + of_nat k \<in> rb_seen B rb"
      using hit by auto
  qed
qed

lemma new_inv:
  "rb_inv B invar (newReceiveBuffer B sz init)"
  "rb_stream B chunk [] (newReceiveBuffer B sz init)"
  by (simp_all add: rb_wf_def rb_stream_def newReceiveBuffer_def New stream_prefix_def)

end

section \<open>The selective acknowledgement\<close>

lemma sack_loop_spec:
  assumes "n \<le> 65536"
  shows "\<exists>m \<le> n. sack_loop n ps lastAck ack
          = ack @ map (\<lambda>i. lastAck + of_nat i \<in> set ps) [0..<m]
      \<and> (m = n \<or> (\<forall>s \<in> set ps. unat (s - lastAck) < m))
      \<and> (ps \<noteq> [] \<and> 0 < n \<longrightarrow> 0 < m)"
  using assms
proof (induction n arbitrary: ps lastAck ack)
  case 0
  then show ?case by simp
next
  case (Suc n)
  show ?case
  proof (cases "ps = []")
    case True
    then show ?thesis by simp
  next
    case False
    let ?ps = "if lastAck \<in> set ps then removeAll lastAck ps else ps"
    let ?b = "lastAck \<in> set ps"
    obtain m where m: "m \<le> n"
      and eq: "sack_loop n ?ps (lastAck + 1) (ack @ [?b])
             = (ack @ [?b]) @ map (\<lambda>i. lastAck + 1 + of_nat i \<in> set ?ps) [0..<m]"
      and cov: "m = n \<or> (\<forall>s \<in> set ?ps. unat (s - (lastAck + 1)) < m)"
      using Suc.IH [of ?ps "lastAck + 1" "ack @ [?b]"] Suc.prems by auto
    have ps: "set ?ps = set ps - {lastAck}" by auto
    have mem: "lastAck + 1 + of_nat i \<in> set ?ps \<longleftrightarrow> lastAck + of_nat (Suc i) \<in> set ps" if "i < m" for i
    proof -
      have "(of_nat (Suc i) :: u16) \<noteq> 0"
        using that m Suc.prems of_nat_u16_inj [of "Suc i" 0] by simp
      then show ?thesis
        unfolding ps by (simp add: add.assoc)
    qed
    have "map (\<lambda>i. lastAck + of_nat i \<in> set ps) [0..<Suc m]
        = ?b # map (\<lambda>i. lastAck + of_nat (Suc i) \<in> set ps) [0..<m]"
      unfolding map_upt_Suc by simp
    also have "\<dots> = ?b # map (\<lambda>i. lastAck + 1 + of_nat i \<in> set ?ps) [0..<m]"
      using mem by simp
    finally have bits: "map (\<lambda>i. lastAck + of_nat i \<in> set ps) [0..<Suc m]
        = ?b # map (\<lambda>i. lastAck + 1 + of_nat i \<in> set ?ps) [0..<m]" .
    have "sack_loop (Suc n) ps lastAck ack = sack_loop n ?ps (lastAck + 1) (ack @ [?b])"
      using False by simp
    then have "sack_loop (Suc n) ps lastAck ack
        = ack @ map (\<lambda>i. lastAck + of_nat i \<in> set ps) [0..<Suc m]"
      unfolding eq bits by (simp only: append_assoc append.simps)
    moreover have "unat (s - lastAck) < Suc m" if "m \<noteq> n" and "s \<in> set ps" for s
    proof (cases "s = lastAck")
      case False
      then have "unat (s - lastAck) = Suc (unat (s - (lastAck + 1)))"
        using unatSuc [of "s - (lastAck + 1)"] by (simp add: algebra_simps)
      with False that cov ps show ?thesis by auto
    qed simp
    ultimately show ?thesis
      using m by (intro exI [of _ "Suc m"]) auto
  qed
qed

lemma concat_slices:
  "c * n \<le> length xs \<Longrightarrow> concat (map (\<lambda>i. take n (drop (i * n) xs)) [0..<c]) = take (c * n) xs"
proof (induction c)
  case (Suc c)
  have "Suc c * n = c * n + n" by simp
  then have "take (Suc c * n) xs = take (c * n) xs @ take n (drop (c * n) xs)"
    by (simp only: take_add)
  with Suc show ?case by simp
qed simp

lemma foldl_append_concat: "foldl (\<lambda>r x. r @ x) a xss = a @ concat xss"
  by (induction xss arbitrary: a) auto

lemma Acked_NewSelectiveAck:
  "Acked (NewSelectiveAck bs)
     = bs @ replicate (32 * length (acked (NewSelectiveAck bs)) - length bs) False"
proof -
  define q where "q = length bs div 32"
  have le: "q * 32 \<le> length bs" by (simp add: q_def)
  have full: "concat (map (\<lambda>i. copy32 (slice (i * 32) ((i + 1) * 32) bs)) [0..<q]) = take (q * 32) bs"
  proof -
    have "copy32 (slice (i * 32) ((i + 1) * 32) bs) = take 32 (drop (i * 32) bs)" if "i < q" for i
    proof -
      have "(i + 1) * 32 \<le> q * 32" using that by (intro mult_le_mono1) simp
      then have "(i + 1) * 32 \<le> length bs" using le by linarith
      then show ?thesis by (simp add: copy32_def slice_def packet_consts)
    qed
    then have "map (\<lambda>i. copy32 (slice (i * 32) ((i + 1) * 32) bs)) [0..<q]
        = map (\<lambda>i. take 32 (drop (i * 32) bs)) [0..<q]"
      by (intro map_cong) auto
    then show ?thesis using concat_slices [OF le] by (simp only:)
  qed
  have A: "Acked s = concat (acked s)" for s
    unfolding Acked_def by (simp add: foldl_append_concat)
  show ?thesis
  proof (cases "length bs mod 32 = 0")
    case True
    then have "q * 32 = length bs" unfolding q_def by presburger
    with True full show ?thesis
      unfolding A NewSelectiveAck_def packet_consts Let_def q_def [symmetric] by simp
  next
    case False
    have l: "length (drop (q * 32) bs) < 32" "0 < length (drop (q * 32) bs)"
      using False unfolding q_def by (simp_all add: minus_div_mult_eq_mod)
    then have "copy32 (drop (q * 32) bs) = drop (q * 32) bs @ replicate (32 + q * 32 - length bs) False"
      by (simp add: copy32_def packet_consts)
    with False full show ?thesis
      unfolding A NewSelectiveAck_def packet_consts Let_def q_def [symmetric]
      by (simp flip: append_assoc)
  qed
qed

context recv_tree
begin

lemma SelectiveAck_spec:
  assumes inv: "rb_inv B invar rb"
  shows "case rb_SelectiveAck B rb of
      None \<Rightarrow> bt_Ascend B (rb_pending rb) = []
    | Some s \<Rightarrow>
        (\<forall>i < length (Acked s). Acked s ! i
            \<longleftrightarrow> rb_AckNum rb + 2 + of_nat i \<in> pi_seqNum ` set (bt_Ascend B (rb_pending rb)))
      \<and> (\<forall>p \<in> set (bt_Ascend B (rb_pending rb)).
            unat (pi_seqNum p - (rb_AckNum rb + 2)) < MAX_SELECTIVE_ACK_COUNT
              \<longrightarrow> unat (pi_seqNum p - (rb_AckNum rb + 2)) < length (Acked s))
      \<and> sack_ok s \<and> length (acked s) \<le> 63"
proof -
  let ?ps = "map pi_seqNum (bt_Ascend B (rb_pending rb))"
  let ?l = "rb_AckNum rb + 2"
  let ?bs = "sack_loop 2016 ?ps ?l []"
  have len: "bt_Len B (rb_pending rb) = 0 \<longleftrightarrow> bt_Ascend B (rb_pending rb) = []"
    using inv by (intro Len_0) (simp add: rb_wf_def)
  obtain m where m: "m \<le> 2016" and bs: "?bs = map (\<lambda>i. ?l + of_nat i \<in> set ?ps) [0..<m]"
    and cov: "m = 2016 \<or> (\<forall>s \<in> set ?ps. unat (s - ?l) < m)"
    and pos: "?ps \<noteq> [] \<longrightarrow> 0 < m"
    using sack_loop_spec [of 2016 ?ps ?l "[]"] by auto
  show ?thesis
  proof (cases "bt_Ascend B (rb_pending rb) = []")
    case True
    with len show ?thesis by (simp add: rb_SelectiveAck_def)
  next
    case False
    let ?s = "NewSelectiveAck ?bs"
    have s: "rb_SelectiveAck B rb = Some ?s"
      using False len by (simp add: rb_SelectiveAck_def MAX_SELECTIVE_ACK_COUNT_def)
    have lb: "length ?bs = m" unfolding bs by simp
    have ok: "sack_ok ?s" "length (acked ?s) \<le> 63"
      using False pos m lb by (auto intro!: NewSelectiveAck_ok simp: length_NewSelectiveAck)
    have A: "Acked ?s = ?bs @ replicate (32 * length (acked ?s) - m) False"
      using Acked_NewSelectiveAck [of ?bs] unfolding lb .
    have lA: "m \<le> length (Acked ?s)" "length (Acked ?s) \<le> 2016"
      using ok(2) m unfolding A by (simp_all add: lb)
    have "Acked ?s ! i \<longleftrightarrow> ?l + of_nat i \<in> set ?ps" if "i < length (Acked ?s)" for i
    proof (cases "i < m")
      case True
      then show ?thesis unfolding A by (simp add: nth_append lb) (simp add: bs)
    next
      case False
      then have "\<not> Acked ?s ! i"
        using that unfolding A by (simp add: nth_append lb)
      moreover have "?l + of_nat i \<notin> set ?ps"
      proof
        assume mem: "?l + of_nat i \<in> set ?ps"
        have "m \<noteq> 2016" using False that lA(2) by linarith
        then have "unat (?l + of_nat i - ?l) < m" using cov mem by blast
        moreover have "unat (?l + of_nat i - ?l) = i" using that lA by simp
        ultimately show False using False by simp
      qed
      ultimately show ?thesis by simp
    qed
    moreover have "unat (pi_seqNum p - ?l) < length (Acked ?s)"
      if "p \<in> set (bt_Ascend B (rb_pending rb))" "unat (pi_seqNum p - ?l) < 2016" for p
      using that cov lA(1) by auto
    ultimately show ?thesis
      using ok by (simp add: s MAX_SELECTIVE_ACK_COUNT_def)
  qed
qed

end

section \<open>Runs of the buffer\<close>

text \<open>
  A run: packets arrive in any order and any number of times, each number \<open>s\<close> always carrying
  \<open>chunk s\<close>, mixed with reads. The run collects the bytes read.
\<close>

datatype rb_op = RWrite u16 | RRead nat

fun rb_run ::
  "('t, pendingItem) BTree \<Rightarrow> (u16 \<Rightarrow> bytes) \<Rightarrow> 't receiveBuffer \<Rightarrow> rb_op list
     \<Rightarrow> ('t receiveBuffer \<times> bytes) go" where
  "rb_run B chunk rb [] = Some (rb, [])"
| "rb_run B chunk rb (RWrite s # ops) =
     do { (rb', _) \<leftarrow> rb_Write B rb (chunk s) s; rb_run B chunk rb' ops }"
| "rb_run B chunk rb (RRead k # ops) =
     do { (rb', out) \<leftarrow> rb_Read rb (int k);
          (rb'', outs) \<leftarrow> rb_run B chunk rb' ops;
          Some (rb'', out @ outs) }"

lemma rb_run_stream:
  assumes "recv_tree B invar" and "rb_inv B invar rb" and "rb_stream B chunk del rb"
  shows "\<exists>rb' outs. rb_run B chunk rb ops = Some (rb', outs) \<and> rb_inv B invar rb'
      \<and> rb_initSeqNum rb' = rb_initSeqNum rb \<and> length (rb_buf rb') = length (rb_buf rb)
      \<and> rb_stream B chunk (del @ outs) rb'"
  using assms(2,3)
proof (induction ops arbitrary: rb del)
  case Nil
  then show ?case by simp
next
  case (Cons op ops)
  show ?case
  proof (cases op)
    case (RWrite s)
    obtain rb1 e where w: "rb_Write B rb (chunk s) s = Some (rb1, e)" "rb_inv B invar rb1"
      "rb_initSeqNum rb1 = rb_initSeqNum rb" "length (rb_buf rb1) = length (rb_buf rb)"
      "rb_stream B chunk del rb1"
      using recv_tree.Write_ok [OF assms(1) Cons.prems(1), of "chunk s" s] Cons.prems(2) by blast
    with Cons.IH [OF w(2,5)] RWrite show ?thesis by auto
  next
    case (RRead k)
    let ?out = "take (nat (int k)) (take (nat (rb_offset rb)) (rb_buf rb))"
    obtain rb1 where r: "rb_Read rb (int k) = Some (rb1, ?out)" "rb_inv B invar rb1"
      "rb_initSeqNum rb1 = rb_initSeqNum rb" "length (rb_buf rb1) = length (rb_buf rb)"
      "rb_stream B chunk (del @ ?out) rb1"
      using recv_tree.Read_ok [OF assms(1) Cons.prems(1) of_nat_0_le_iff, of k] Cons.prems(2) by blast
    with Cons.IH [OF r(2,5)] RRead show ?thesis by auto
  qed
qed

interpretation pending_order: key_order pendingItem_Less pi_seqNum
  by unfold_locales (simp add: pendingItem_Less_def)

interpretation pending_list: recv_tree "list_BTree pendingItem_Less" "sorted_wrt pendingItem_Less"
  by (intro recv_tree.intro pending_order.btree_axioms)

section \<open>Properties\<close>

text \<open>
  C4. In-order delivery. Whatever order packets arrive in, however often they are repeated, and
  however reads are mixed in, the receive buffer never panics, and the bytes read so far followed
  by the bytes ready to read are exactly the payloads of the first \<open>consumed\<close> packets of the
  stream, in sequence order: nothing is lost, repeated, reordered or invented. The tree of pending
  packets is any tree that keeps the contract of \<open>BTree_Spec\<close>.
\<close>

theorem recv_stream_in_order:
  assumes "recv_tree B invar"
  shows "\<exists>rb outs. rb_run B chunk (newReceiveBuffer B sz init) ops = Some (rb, outs)
      \<and> outs @ take (nat (rb_offset rb)) (rb_buf rb)
          = stream_prefix chunk init (unat (rb_consumed rb))
      \<and> length (rb_buf rb) = sz"
proof -
  obtain rb outs where "rb_run B chunk (newReceiveBuffer B sz init) ops = Some (rb, outs)"
    and "rb_initSeqNum rb = rb_initSeqNum (newReceiveBuffer B sz init)"
    and "length (rb_buf rb) = length (rb_buf (newReceiveBuffer B sz init))"
    and "rb_stream B chunk ([] @ outs) rb"
    using rb_run_stream [OF assms recv_tree.new_inv [OF assms]] by blast
  then show ?thesis
    by (auto simp: rb_stream_def newReceiveBuffer_def)
qed

theorem recv_stream_in_order_witness:
  "\<exists>rb outs. rb_run (list_BTree pendingItem_Less) (\<lambda>s. [ucast s])
       (newReceiveBuffer (list_BTree pendingItem_Less) 8 65533)
       [RWrite 65535, RRead 4, RWrite 65534, RWrite 65535, RWrite 0, RRead 2] = Some (rb, outs)
     \<and> outs = [254, 255] \<and> rb_consumed rb = 3"
  using recv_stream_in_order [OF pending_list.recv_tree_axioms, of "\<lambda>s. [ucast s]" 8 65533
      "[RWrite 65535, RRead 4, RWrite 65534, RWrite 65535, RWrite 0, RRead 2]"]
  by (simp add: rb_Write_def rb_WasWritten_def rb_Available_def rb_Read_def newReceiveBuffer_def
      list_BTree_def pendingItem_Less_def Contains_def go_slice_def Let_def)



text \<open>
  C25. Every outcome of \<open>Write\<close>. A well-formed buffer stays well formed and \<open>Write\<close> never panics; a
  packet seen before changes nothing, a packet that does not fit is refused with the buffer
  unchanged, and any other packet is recorded, takes exactly its length of the free space and
  never lowers the acknowledgement.
\<close>

theorem rb_Write_outcomes:
  assumes "recv_tree B invar" and "rb_inv B invar rb"
  shows "\<exists>rb' e. rb_Write B rb data s = Some (rb', e) \<and> rb_inv B invar rb'
      \<and> (if rb_WasWritten B rb s then rb' = rb \<and> e = None
         else if int (length data) > rb_Available B rb
         then rb' = rb \<and> e = Some (Errorf ''insufficient space in buffer'')
         else e = None \<and> (\<forall>x. rb_WasWritten B rb' x \<longleftrightarrow> x = s \<or> rb_WasWritten B rb x)
              \<and> rb_Available B rb' = rb_Available B rb - int (length data)
              \<and> unat (rb_consumed rb) \<le> unat (rb_consumed rb'))"
proof -
  note W = recv_tree.WasWritten_iff [OF assms(1)]
  obtain rb' e where w: "rb_Write B rb data s = Some (rb', e)" and inv: "rb_inv B invar rb'"
    and c: "if s \<in> rb_seen B rb then rb' = rb \<and> e = None
         else if int (length data) > rb_Available B rb
         then rb' = rb \<and> e = Some (Errorf ''insufficient space in buffer'')
         else e = None \<and> rb_seen B rb' = insert s (rb_seen B rb)
              \<and> rb_Available B rb' = rb_Available B rb - int (length data)
              \<and> unat (rb_consumed rb) \<le> unat (rb_consumed rb')"
    using recv_tree.Write_ok [OF assms, of data s] by blast
  with W [OF assms(2)] W [OF inv] show ?thesis
    by (auto split: if_splits)
qed

theorem rb_Write_outcomes_witness:
  "\<exists>rb'. rb_Write (list_BTree pendingItem_Less)
           (newReceiveBuffer (list_BTree pendingItem_Less) 1 9) [1, 2] 10
         = Some (rb', Some (Errorf ''insufficient space in buffer''))"
  using rb_Write_outcomes [OF pending_list.recv_tree_axioms pending_list.new_inv(1), of 1 9 "[1, 2]" 10]
  by (simp add: rb_WasWritten_def rb_Available_def newReceiveBuffer_def list_BTree_def
      Contains_def Let_def)

text \<open>
  C24. The selective acknowledgement tells the truth. It is absent exactly when no packet is
  pending; otherwise its flag \<open>i\<close> is set exactly when the packet \<open>AckNum + 2 + i\<close> is pending, every
  pending packet within 2016 numbers is covered, and the bit mask fits the one-byte length field
  of the wire format.
\<close>

theorem rb_SelectiveAck_exact:
  assumes "recv_tree B invar" and "rb_inv B invar rb"
  shows "case rb_SelectiveAck B rb of
      None \<Rightarrow> bt_Ascend B (rb_pending rb) = []
    | Some s \<Rightarrow>
        (\<forall>i < length (Acked s). Acked s ! i
            \<longleftrightarrow> rb_AckNum rb + 2 + of_nat i \<in> pi_seqNum ` set (bt_Ascend B (rb_pending rb)))
      \<and> (\<forall>p \<in> set (bt_Ascend B (rb_pending rb)).
            unat (pi_seqNum p - (rb_AckNum rb + 2)) < MAX_SELECTIVE_ACK_COUNT
              \<longrightarrow> unat (pi_seqNum p - (rb_AckNum rb + 2)) < length (Acked s))
      \<and> sack_ok s \<and> length (acked s) \<le> 63"
  by (rule recv_tree.SelectiveAck_spec [OF assms])

definition one_gap :: "pendingItem list receiveBuffer" where
  "one_gap = (newReceiveBuffer (list_BTree pendingItem_Less) 8 9)
     \<lparr>rb_pending := [\<lparr>pi_seqNum = 12, pi_data = [5]\<rparr>]\<rparr>"

theorem rb_SelectiveAck_exact_witness:
  "\<exists>s. rb_SelectiveAck (list_BTree pendingItem_Less) one_gap = Some s
     \<and> \<not> Acked s ! 0 \<and> Acked s ! 1"
proof -
  have inv: "rb_inv (list_BTree pendingItem_Less) (sorted_wrt pendingItem_Less) one_gap"
    by (simp add: one_gap_def rb_wf_def newReceiveBuffer_def list_BTree_def)
  show ?thesis
    using rb_SelectiveAck_exact [OF pending_list.recv_tree_axioms inv]
    by (cases "rb_SelectiveAck (list_BTree pendingItem_Less) one_gap")
      (auto simp: one_gap_def newReceiveBuffer_def list_BTree_def rb_AckNum_def
        MAX_SELECTIVE_ACK_COUNT_def dest: spec [of _ 0] spec [of _ 1])
qed

text \<open>
  C34. The receive buffer stalls after 65535 packets. Once \<open>consumed\<close> has reached 65535 the
  range of written numbers covers the whole circle, so every further packet, new or old, is taken
  for a repetition: \<open>Write\<close> reports success and drops it.
\<close>

theorem recv_buffer_stalls:
  assumes "rb_consumed rb = 65535"
  shows "rb_Write B rb data s = Some (rb, None)"
proof -
  have "Contains \<lparr>cr_start = rb_initSeqNum rb, cr_end = rb_initSeqNum rb + rb_consumed rb,
                   cr_exhausted = False\<rparr> s"
    using unat_lt_65536 [of "s - rb_initSeqNum rb"] by (simp add: Contains_circular assms)
  then show ?thesis
    by (simp add: rb_Write_def rb_WasWritten_def Let_def)
qed

theorem recv_buffer_stalls_witness:
  "rb_Write (list_BTree pendingItem_Less)
     ((newReceiveBuffer (list_BTree pendingItem_Less) 8 9)\<lparr>rb_consumed := 65535\<rparr>) [1] 9
   = Some ((newReceiveBuffer (list_BTree pendingItem_Less) 8 9)\<lparr>rb_consumed := 65535\<rparr>, None)"
  by (rule recv_buffer_stalls) simp

end
