(* ===== verification/Go_Float.thy ===== *)
theory Go_Float
  imports Utp_Prelude Complex_Main "HOL-Library.Log_Nat"
begin

text \<open>
  Go's \<open>float64\<close>, as far as the congestion controller uses it. A finite value is a rational; every
  operation computes the exact result and rounds it to 53 significant bits, to nearest, ties to
  even (\<open>rnd\<close>). The special values arise from divisions by zero. The exponent range is not bounded:
  the operands are 64-bit integers and quotients of them, so no result overflows or is subnormal.
  The sign of zero is not kept: no divisor in the sources can be a negative zero. A conversion to
  an integer of a value that does not fit is left to the implementation by the language; the
  definitions follow the amd64 instruction, which gives the smallest 64-bit integer.
\<close>

section \<open>Rounding\<close>

definition ilog2 :: "rat \<Rightarrow> int" where
  "ilog2 x = (case quotient_of x of (p, q) \<Rightarrow>
     let k = bitlen p - bitlen q in if 2 powi k \<le> x then k else k - 1)"

definition rne :: "rat \<Rightarrow> int" where
  "rne x = (let f = \<lfloor>x\<rfloor>; d = x - of_int f in
            if d < 1 / 2 then f else if d > 1 / 2 then f + 1
            else if even f then f else f + 1)"

definition rnd_pos :: "rat \<Rightarrow> rat" where
  "rnd_pos x = (let u = 2 powi (ilog2 x - 52) in of_int (rne (x / u)) * u)"

definition rnd :: "rat \<Rightarrow> rat" where
  "rnd x = (if x = 0 then 0 else sgn x * rnd_pos \<bar>x\<bar>)"

lemma bitlen_pos_bounds:
  assumes "0 < n"
  shows "2 powi (bitlen n - 1) \<le> (of_int n :: rat)" "(of_int n :: rat) < 2 powi bitlen n"
proof -
  have b: "0 < bitlen n" using assms by (simp add: bitlen_def floorlog_eq_zero_iff less_le)
  have "2 ^ nat (bitlen n - 1) \<le> n" "n < 2 ^ nat (bitlen n)" using bitlen_bounds [OF assms] by auto
  then have "of_int (2 ^ nat (bitlen n - 1)) \<le> (of_int n :: rat)"
    "(of_int n :: rat) < of_int (2 ^ nat (bitlen n))"
    by (simp_all only: of_int_le_iff of_int_less_iff)
  with b show "2 powi (bitlen n - 1) \<le> (of_int n :: rat)" "(of_int n :: rat) < 2 powi bitlen n"
    by (simp_all add: power_int_def)
qed

lemma ilog2_bounds:
  assumes "0 < x"
  shows "2 powi ilog2 x \<le> x" "x < 2 powi (ilog2 x + 1)"
proof -
  obtain p q where pq: "quotient_of x = (p, q)" by fastforce
  have q: "0 < q" using quotient_of_denom_pos [OF pq] .
  have x: "x = of_int p / of_int q" using quotient_of_div [OF pq] .
  then have p: "0 < p" using assms q by (simp add: zero_less_divide_iff)
  note bp = bitlen_pos_bounds [OF p] and bq = bitlen_pos_bounds [OF q]
  have pos: "(0 :: rat) < 2 powi k" for k by simp
  have "x < 2 powi bitlen p / 2 powi (bitlen q - 1)"
    unfolding x using bp bq p q by (intro frac_less) auto
  also have "\<dots> = 2 powi (bitlen p - bitlen q + 1)" by (simp add: power_int_diff power_int_add)
  finally have up: "x < 2 powi (bitlen p - bitlen q + 1)" .
  have "2 powi (bitlen p - bitlen q - 1) = 2 powi (bitlen p - 1) / (2 powi bitlen q :: rat)"
    by (simp add: power_int_diff)
  also have "\<dots> \<le> x" unfolding x using bp bq p q by (intro frac_le) auto
  finally have lo: "2 powi (bitlen p - bitlen q - 1) \<le> x" .
  show "2 powi ilog2 x \<le> x" "x < 2 powi (ilog2 x + 1)"
    using up lo by (auto simp: ilog2_def pq Let_def)
qed

lemma powi2_less_iff: "(2 :: rat) powi a < 2 powi b \<longleftrightarrow> a < b"
  using power_int_strict_increasing [of a b "2 :: rat"] power_int_increasing [of b a "2 :: rat"]
  by (cases "a < b") auto

lemma powi2_le_iff: "(2 :: rat) powi a \<le> 2 powi b \<longleftrightarrow> a \<le> b"
  by (simp add: not_less [symmetric] powi2_less_iff)

lemma ilog2_mono:
  assumes "0 < x" and "x \<le> y"
  shows "ilog2 x \<le> ilog2 y"
proof -
  have "2 powi ilog2 x \<le> x" "y < 2 powi (ilog2 y + 1)"
    using assms ilog2_bounds [of x] ilog2_bounds [of y] by auto
  then have "(2 :: rat) powi ilog2 x < 2 powi (ilog2 y + 1)" using assms(2) by linarith
  then show ?thesis by (simp only: powi2_less_iff)
qed

lemma rne_of_int [simp]: "rne (of_int i) = i"
  by (simp add: rne_def)

lemma rne_bounds: "\<lfloor>x\<rfloor> \<le> rne x" "rne x \<le> \<lfloor>x\<rfloor> + 1"
  by (auto simp: rne_def Let_def)

lemma rne_mono:
  assumes "x \<le> y"
  shows "rne x \<le> rne y"
proof (cases "\<lfloor>x\<rfloor> = \<lfloor>y\<rfloor>")
  case True
  with assms show ?thesis by (auto simp: rne_def Let_def)
next
  case False
  then have "\<lfloor>x\<rfloor> + 1 \<le> \<lfloor>y\<rfloor>" using floor_mono [OF assms] by linarith
  then show ?thesis using rne_bounds(2) [of x] rne_bounds(1) [of y] by linarith
qed

lemma rnd_pos_bounds:
  assumes "0 < x"
  shows "2 powi ilog2 x \<le> rnd_pos x" "rnd_pos x \<le> 2 powi (ilog2 x + 1)"
proof -
  let ?u = "2 powi (ilog2 x - 52) :: rat"
  have u: "0 < ?u" by simp
  have e: "2 powi ilog2 x = of_int (2 ^ 52) * ?u" "2 powi (ilog2 x + 1) = of_int (2 ^ 53) * ?u"
    by (simp_all add: power_int_diff power_int_add)
  have "of_int (2 ^ 52) \<le> x / ?u" "x / ?u \<le> of_int (2 ^ 53)"
    using ilog2_bounds [OF assms] u unfolding e by (simp_all add: field_simps)
  from this [THEN rne_mono] have "2 ^ 52 \<le> rne (x / ?u)" "rne (x / ?u) \<le> 2 ^ 53"
    by (simp_all only: rne_of_int)
  then have "of_int (2 ^ 52) \<le> (of_int (rne (x / ?u)) :: rat)"
    "of_int (rne (x / ?u)) \<le> (of_int (2 ^ 53) :: rat)"
    by (simp_all only: of_int_le_iff)
  then show "2 powi ilog2 x \<le> rnd_pos x" "rnd_pos x \<le> 2 powi (ilog2 x + 1)"
    unfolding e rnd_pos_def Let_def using u by (simp_all only: mult_right_mono less_imp_le)
qed

lemma rnd_pos_mono:
  assumes "0 < x" and "x \<le> y"
  shows "rnd_pos x \<le> rnd_pos y"
proof (cases "ilog2 x = ilog2 y")
  case True
  let ?u = "2 powi (ilog2 y - 52) :: rat"
  have "rne (x / ?u) \<le> rne (y / ?u)" using assms by (intro rne_mono divide_right_mono) auto
  then show ?thesis by (simp add: rnd_pos_def True Let_def)
next
  case False
  then have "ilog2 x + 1 \<le> ilog2 y" using ilog2_mono [OF assms] by linarith
  then have "(2 :: rat) powi (ilog2 x + 1) \<le> 2 powi ilog2 y" by (simp only: powi2_le_iff)
  then show ?thesis
    using rnd_pos_bounds(2) [of x] rnd_pos_bounds(1) [of y] assms by linarith
qed

lemma rnd_pos_pos: "0 < x \<Longrightarrow> 0 < rnd_pos x"
  using rnd_pos_bounds(1) [of x] by (meson less_le_trans zero_less_power_int zero_less_numeral)

lemma rnd_0 [simp]: "rnd 0 = 0"
  by (simp add: rnd_def)

lemma rnd_uminus [simp]: "rnd (- x) = - rnd x"
  by (simp add: rnd_def sgn_minus)

lemma rnd_pos_eq: "0 < x \<Longrightarrow> rnd x = rnd_pos x"
  by (simp add: rnd_def)

lemma rnd_nonneg: "0 \<le> x \<Longrightarrow> 0 \<le> rnd x"
  using rnd_pos_pos [of x] by (cases "x = 0") (auto simp: rnd_pos_eq)

lemma rnd_nonpos: "x \<le> 0 \<Longrightarrow> rnd x \<le> 0"
  using rnd_nonneg [of "- x"] by simp

lemma rnd_mono:
  assumes "x \<le> y"
  shows "rnd x \<le> rnd y"
proof -
  consider "x \<le> 0 \<and> 0 \<le> y" | "0 < x" | "y < 0" by linarith
  then show ?thesis
  proof cases
    case 1
    then show ?thesis using rnd_nonneg [of y] rnd_nonpos [of x] by linarith
  next
    case 2
    then show ?thesis using assms by (simp add: rnd_pos_eq rnd_pos_mono)
  next
    case 3
    have "rnd (- y) \<le> rnd (- x)" using 3 assms by (simp only: rnd_pos_eq rnd_pos_mono neg_0_less_iff_less neg_le_iff_le)
    then show ?thesis by simp
  qed
qed

text \<open>Integers of at most 53 bits are represented exactly.\<close>

lemma rnd_pos_int:
  assumes "0 < i" and "i \<le> 2 ^ 53"
  shows "rnd_pos (of_int i) = of_int i"
proof -
  let ?x = "of_int i :: rat"
  let ?k = "ilog2 ?x"
  have x: "0 < ?x" using assms by simp
  have "?x \<le> of_int (2 ^ 53)" using assms(2) by (simp only: of_int_le_iff)
  then have le: "?x \<le> 2 powi 53" by simp
  have "(2 :: rat) powi ?k \<le> 2 powi 53" using ilog2_bounds(1) [OF x] le by linarith
  then have k: "?k \<le> 53" by (simp only: powi2_le_iff)
  have "\<exists>m. ?x / 2 powi (?k - 52) = of_int m"
  proof (cases "?k \<le> 52")
    case True
    then have "?x / 2 powi (?k - 52) = of_int (i * 2 ^ nat (52 - ?k))"
      by (simp add: power_int_def field_simps)
    then show ?thesis by blast
  next
    case False
    then have "?k = 53" using k by simp
    then have "?x = 2 powi 53" using ilog2_bounds(1) [OF x] le by simp
    then have "?x / 2 powi (?k - 52) = of_int (2 ^ 52)" using \<open>?k = 53\<close> by simp
    then show ?thesis by blast
  qed
  then obtain m where m: "?x / 2 powi (?k - 52) = of_int m" by blast
  then have "rnd_pos ?x = of_int m * 2 powi (?k - 52)" by (simp add: rnd_pos_def Let_def)
  also have "\<dots> = ?x" unfolding m [symmetric] by simp
  finally show ?thesis .
qed

lemma rnd_of_int:
  assumes "\<bar>i\<bar> \<le> 2 ^ 53"
  shows "rnd (of_int i) = of_int i"
proof (cases i "0 :: int" rule: linorder_cases)
  case less
  then have "rnd_pos (of_int (- i)) = of_int (- i)" using assms by (intro rnd_pos_int) auto
  with less show ?thesis by (simp add: rnd_def)
qed (use assms in \<open>auto simp: rnd_def rnd_pos_int\<close>)

lemma rnd_le_int: "\<lbrakk> x \<le> of_int i; \<bar>i\<bar> \<le> 2 ^ 53 \<rbrakk> \<Longrightarrow> rnd x \<le> of_int i"
  using rnd_mono rnd_of_int by metis

lemma rnd_ge_int: "\<lbrakk> of_int i \<le> x; \<bar>i\<bar> \<le> 2 ^ 53 \<rbrakk> \<Longrightarrow> of_int i \<le> rnd x"
  using rnd_mono rnd_of_int by metis

section \<open>Values and operations\<close>

datatype f64 = Fin rat | PInf | NInf | NaN

definition float64 :: "int \<Rightarrow> f64" where
  "float64 i = Fin (rnd (of_int i))"

fun f64_add :: "f64 \<Rightarrow> f64 \<Rightarrow> f64" where
  "f64_add (Fin a) (Fin b) = Fin (rnd (a + b))"
| "f64_add (Fin a) y = y"
| "f64_add x (Fin b) = x"
| "f64_add PInf PInf = PInf"
| "f64_add NInf NInf = NInf"
| "f64_add _ _ = NaN"

fun f64_neg :: "f64 \<Rightarrow> f64" where
  "f64_neg (Fin a) = Fin (- a)"
| "f64_neg PInf = NInf"
| "f64_neg NInf = PInf"
| "f64_neg NaN = NaN"

definition f64_sub :: "f64 \<Rightarrow> f64 \<Rightarrow> f64" where
  "f64_sub x y = f64_add x (f64_neg y)"

definition f64_inf :: "rat \<Rightarrow> f64" where
  "f64_inf s = (if s > 0 then PInf else if s < 0 then NInf else NaN)"

fun f64_mul :: "f64 \<Rightarrow> f64 \<Rightarrow> f64" where
  "f64_mul (Fin a) (Fin b) = Fin (rnd (a * b))"
| "f64_mul (Fin a) PInf = f64_inf a"
| "f64_mul (Fin a) NInf = f64_inf (- a)"
| "f64_mul PInf (Fin b) = f64_inf b"
| "f64_mul NInf (Fin b) = f64_inf (- b)"
| "f64_mul PInf PInf = PInf"
| "f64_mul NInf NInf = PInf"
| "f64_mul PInf NInf = NInf"
| "f64_mul NInf PInf = NInf"
| "f64_mul _ _ = NaN"

fun f64_div :: "f64 \<Rightarrow> f64 \<Rightarrow> f64" where
  "f64_div (Fin a) (Fin b) = (if b = 0 then f64_inf a else Fin (rnd (a / b)))"
| "f64_div (Fin a) PInf = Fin 0"
| "f64_div (Fin a) NInf = Fin 0"
| "f64_div PInf (Fin b) = (if b < 0 then NInf else PInf)"
| "f64_div NInf (Fin b) = (if b < 0 then PInf else NInf)"
| "f64_div _ _ = NaN"

text \<open>\<open>math.Abs\<close>, \<open>math.Max\<close> and \<open>math.Min\<close>; an infinity of the right sign wins over \<open>NaN\<close>.\<close>

fun math_Abs :: "f64 \<Rightarrow> f64" where
  "math_Abs (Fin a) = Fin \<bar>a\<bar>"
| "math_Abs NaN = NaN"
| "math_Abs _ = PInf"

fun math_Max :: "f64 \<Rightarrow> f64 \<Rightarrow> f64" where
  "math_Max (Fin a) (Fin b) = Fin (max a b)"
| "math_Max PInf y = PInf"
| "math_Max x PInf = PInf"
| "math_Max NaN y = NaN"
| "math_Max x NaN = NaN"
| "math_Max NInf y = y"
| "math_Max x NInf = x"

definition math_Min :: "f64 \<Rightarrow> f64 \<Rightarrow> f64" where
  "math_Min x y = f64_neg (math_Max (f64_neg x) (f64_neg y))"

text \<open>Conversion to integers truncates towards zero.\<close>

definition trunc :: "rat \<Rightarrow> int" where
  "trunc x = (if 0 \<le> x then \<lfloor>x\<rfloor> else \<lceil>x\<rceil>)"

definition int64_of :: "f64 \<Rightarrow> int" where
  "int64_of x = (case x of
     Fin a \<Rightarrow> if - (2 ^ 63) \<le> trunc a \<and> trunc a < 2 ^ 63 then trunc a else - (2 ^ 63)
   | _ \<Rightarrow> - (2 ^ 63))"

definition uint32_of :: "f64 \<Rightarrow> u32" where
  "uint32_of x = word_of_int (int64_of x)"

lemma trunc_of_int [simp]: "trunc (of_int i) = i"
  by (simp add: trunc_def)

lemma trunc_mono: "x \<le> y \<Longrightarrow> trunc x \<le> trunc y"
  unfolding trunc_def by (auto intro: floor_mono ceiling_mono) (meson ceiling_le_zero floor_mono linear not_le order.trans zero_le_floor)+

lemma math_Min_Fin [simp]: "math_Min (Fin a) (Fin b) = Fin (min a b)"
  by (simp add: math_Min_def min_def max_def)

lemma float64_exact: "\<bar>i\<bar> \<le> 2 ^ 53 \<Longrightarrow> float64 i = Fin (of_int i)"
  by (simp add: float64_def rnd_of_int)

lemma int64_of_int: "\<bar>i\<bar> \<le> 2 ^ 53 \<Longrightarrow> int64_of (Fin (of_int i)) = i"
  by (auto simp: int64_of_def)

lemma int64_of_mono:
  assumes "of_int lo \<le> x" and "x \<le> of_int hi" and "\<bar>lo\<bar> \<le> 2 ^ 53" and "\<bar>hi\<bar> \<le> 2 ^ 53"
  shows "lo \<le> int64_of (Fin x)" "int64_of (Fin x) \<le> hi"
proof -
  have "lo \<le> trunc x" "trunc x \<le> hi"
    using trunc_mono [OF assms(1)] trunc_mono [OF assms(2)] by simp_all
  with assms(3,4) show "lo \<le> int64_of (Fin x)" "int64_of (Fin x) \<le> hi"
    by (auto simp: int64_of_def)
qed

lemma min_of_int: "min (of_int a) (of_int b) = (of_int (min a b) :: rat)"
  by (simp add: min_def)

lemma max_of_int: "max (of_int a) (of_int b) = (of_int (max a b) :: rat)"
  by (simp add: max_def)

lemma int64_Min_exact:
  "\<lbrakk> \<bar>a\<bar> \<le> 2 ^ 53; \<bar>b\<bar> \<le> 2 ^ 53 \<rbrakk> \<Longrightarrow> int64_of (math_Min (float64 a) (float64 b)) = min a b"
  by (simp add: float64_exact min_of_int int64_of_int min_def)

lemma int64_Max_exact:
  "\<lbrakk> \<bar>a\<bar> \<le> 2 ^ 53; \<bar>b\<bar> \<le> 2 ^ 53 \<rbrakk> \<Longrightarrow> int64_of (math_Max (float64 a) (float64 b)) = max a b"
  by (simp add: float64_exact max_of_int int64_of_int max_def)

end
