(* ===== verification/Delay_Heap.thy ===== *)
theory Delay_Heap
  imports Utp_Prelude "HOL-Library.Multiset"
begin

text \<open>
  The delay accumulator of \<^verbatim>\<open>congestion.go\<close>: a binary heap of recent one-way delays, ordered by the
  delay, each with a deadline. The standard library's \<open>container/heap\<close> is modelled on lists:
  \<open>heap_up\<close> and \<open>heap_down\<close> are its sift operations, \<open>heap_Push\<close> and \<open>heap_Pop\<close> its entry points.
  They are proved correct once, in the context of \<open>key_order\<close>, for every order by a key, and
  interpreted for \<open>delayHeap_Less\<close>.
\<close>

section \<open>container/heap\<close>

definition heap_swap :: "nat \<Rightarrow> nat \<Rightarrow> 'a list \<Rightarrow> 'a list" where
  "heap_swap i j h = h[i := h ! j, j := h ! i]"

function heap_up :: "('a \<Rightarrow> 'a \<Rightarrow> bool) \<Rightarrow> 'a list \<Rightarrow> nat \<Rightarrow> 'a list" where
  "heap_up lt h j =
     (let i = (j - 1) div 2 in
      if i = j \<or> \<not> lt (h ! j) (h ! i) then h else heap_up lt (heap_swap i j h) i)"
  by pat_completeness auto
termination
  by (relation "measure (\<lambda>(lt, h, j). j)") auto

function heap_down :: "('a \<Rightarrow> 'a \<Rightarrow> bool) \<Rightarrow> 'a list \<Rightarrow> nat \<Rightarrow> nat \<Rightarrow> 'a list" where
  "heap_down lt h i n =
     (let j1 = 2 * i + 1 in
      if j1 \<ge> n then h
      else
        let j2 = j1 + 1;
            j = (if j2 < n \<and> lt (h ! j2) (h ! j1) then j2 else j1)
        in if \<not> lt (h ! j) (h ! i) then h else heap_down lt (heap_swap i j h) j n)"
  by pat_completeness auto
termination
  by (relation "measure (\<lambda>(lt, h, i, n). n - i)") (auto simp: Let_def split: if_splits)

declare heap_up.simps [simp del] heap_down.simps [simp del]

definition heap_Push :: "('a \<Rightarrow> 'a \<Rightarrow> bool) \<Rightarrow> 'a \<Rightarrow> 'a list \<Rightarrow> 'a list" where
  "heap_Push lt x h = heap_up lt (h @ [x]) (length h)"

text \<open>\<open>heap.Pop\<close> moves the root to the end, sifts, and lets the heap drop its last element.\<close>

definition heap_Pop :: "('a \<Rightarrow> 'a \<Rightarrow> bool) \<Rightarrow> 'a list \<Rightarrow> 'a list" where
  "heap_Pop lt h =
     (let n = length h - 1 in take n (heap_down lt (heap_swap 0 n h) 0 n))"

lemma length_heap_swap [simp]: "length (heap_swap i j h) = length h"
  by (simp add: heap_swap_def)

lemma mset_heap_swap:
  "\<lbrakk> i < length h; j < length h \<rbrakk> \<Longrightarrow> mset (heap_swap i j h) = mset h"
  unfolding heap_swap_def by (rule mset_swap)

lemma heap_swap_nth:
  "\<lbrakk> i < length h; j < length h; k < length h \<rbrakk> \<Longrightarrow>
     heap_swap i j h ! k = (if k = j then h ! i else if k = i then h ! j else h ! k)"
  by (simp add: heap_swap_def nth_list_update)

lemma length_heap_up [simp]: "length (heap_up lt h j) = length h"
  by (induction lt h j rule: heap_up.induct)
    (subst heap_up.simps, simp add: Let_def)

lemma length_heap_down [simp]: "length (heap_down lt h i n) = length h"
  by (induction lt h i n rule: heap_down.induct)
    (subst heap_down.simps, simp add: Let_def)

lemma length_heap_Pop [simp]: "length (heap_Pop lt h) = length h - 1"
  by (simp add: heap_Pop_def Let_def)

lemma mset_heap_up: "j < length h \<Longrightarrow> mset (heap_up lt h j) = mset h"
proof (induction lt h j rule: heap_up.induct)
  case (1 lt h j)
  let ?i = "(j - 1) div 2"
  show ?case
  proof (cases "?i = j \<or> \<not> lt (h ! j) (h ! ?i)")
    case True
    then show ?thesis by (subst heap_up.simps) (simp add: Let_def)
  next
    case False
    have "?i < length h" using "1.prems" by linarith
    with False "1.IH" [OF refl False] "1.prems" show ?thesis
      by (subst heap_up.simps) (simp add: Let_def mset_heap_swap)
  qed
qed

text \<open>The child \<open>heap_down\<close> compares with, and the recursion equation in terms of it.\<close>

definition heap_child :: "('a \<Rightarrow> 'a \<Rightarrow> bool) \<Rightarrow> 'a list \<Rightarrow> nat \<Rightarrow> nat \<Rightarrow> nat" where
  "heap_child lt h i n =
     (if 2 * i + 2 < n \<and> lt (h ! (2 * i + 2)) (h ! (2 * i + 1)) then 2 * i + 2 else 2 * i + 1)"

lemma heap_down_rec:
  "heap_down lt h i n =
     (let c = heap_child lt h i n in
      if n \<le> 2 * i + 1 \<or> \<not> lt (h ! c) (h ! i) then h else heap_down lt (heap_swap i c h) c n)"
  by (subst heap_down.simps) (simp add: Let_def heap_child_def)

lemma heap_child_bounds:
  assumes "2 * i + 1 < n"
  shows "heap_child lt h i n < n" "i < heap_child lt h i n" "(heap_child lt h i n - 1) div 2 = i"
  using assms by (auto simp: heap_child_def)

lemma heap_down_induct [consumes 2, case_names step]:
  assumes "i < n" and "n \<le> length h"
    and step: "\<And>h i. \<lbrakk> i < n; n \<le> length h;
        \<lbrakk> 2 * i + 1 < n; lt (h ! heap_child lt h i n) (h ! i) \<rbrakk>
          \<Longrightarrow> P (heap_swap i (heap_child lt h i n) h) (heap_child lt h i n) \<rbrakk> \<Longrightarrow> P h i"
  shows "P h i"
  using assms(1,2)
proof (induction "n - i" arbitrary: h i rule: less_induct)
  case less
  show ?case
  proof (rule step)
    assume "2 * i + 1 < n"
    note c = heap_child_bounds [OF this, of lt h]
    show "P (heap_swap i (heap_child lt h i n) h) (heap_child lt h i n)"
      using c less.prems by (intro less.hyps) auto
  qed (use less.prems in auto)
qed

lemma heap_down_frame:
  assumes "i < n" and "n \<le> length h"
  shows "mset (heap_down lt h i n) = mset h \<and> (\<forall>k \<ge> n. k < length h \<longrightarrow> heap_down lt h i n ! k = h ! k)"
  using assms
proof (induction h i rule: heap_down_induct [where lt = lt])
  case (step h i)
  show ?case
  proof (cases "n \<le> 2 * i + 1 \<or> \<not> lt (h ! heap_child lt h i n) (h ! i)")
    case True
    then show ?thesis by (subst (1 2) heap_down_rec) (simp add: Let_def)
  next
    case False
    then have c: "heap_child lt h i n < n" by (simp add: heap_child_bounds)
    have "heap_down lt h i n = heap_down lt (heap_swap i (heap_child lt h i n) h) (heap_child lt h i n) n"
      using False by (subst heap_down_rec) (simp add: Let_def)
    with False c step show ?thesis by (auto simp: mset_heap_swap heap_swap_nth)
  qed
qed

section \<open>Heap order\<close>

text \<open>
  \<open>heap_ok\<close>: no element among the first \<open>n\<close> is below its parent. While an element moves up from
  \<open>j\<close> (or down from \<open>i\<close>) the order holds but for that element, and its neighbours are in order
  across it: \<open>up_ok\<close> and \<open>down_ok\<close>.
\<close>

definition heap_ok :: "('i \<Rightarrow> 'k :: linorder) \<Rightarrow> 'i list \<Rightarrow> nat \<Rightarrow> bool" where
  "heap_ok key h n \<longleftrightarrow> (\<forall>k. 0 < k \<and> k < n \<longrightarrow> key (h ! ((k - 1) div 2)) \<le> key (h ! k))"

definition up_ok :: "('i \<Rightarrow> 'k :: linorder) \<Rightarrow> 'i list \<Rightarrow> nat \<Rightarrow> bool" where
  "up_ok key h j \<longleftrightarrow>
     (\<forall>k. 0 < k \<and> k < length h \<and> k \<noteq> j \<longrightarrow> key (h ! ((k - 1) div 2)) \<le> key (h ! k))
     \<and> (\<forall>k. 0 < k \<and> k < length h \<and> (k - 1) div 2 = j \<and> 0 < j
            \<longrightarrow> key (h ! ((j - 1) div 2)) \<le> key (h ! k))"

definition down_ok :: "('i \<Rightarrow> 'k :: linorder) \<Rightarrow> 'i list \<Rightarrow> nat \<Rightarrow> nat \<Rightarrow> bool" where
  "down_ok key h i n \<longleftrightarrow>
     (\<forall>k. 0 < k \<and> k < n \<and> (k - 1) div 2 \<noteq> i \<longrightarrow> key (h ! ((k - 1) div 2)) \<le> key (h ! k))
     \<and> (\<forall>k. 0 < k \<and> k < n \<and> (k - 1) div 2 = i \<and> 0 < i
            \<longrightarrow> key (h ! ((i - 1) div 2)) \<le> key (h ! k))"

context key_order
begin

lemma heap_ok_root:
  assumes "heap_ok key h n" and "k < n"
  shows "key (h ! 0) \<le> key (h ! k)"
  using assms(2)
proof (induction k rule: less_induct)
  case (less k)
  show ?case
  proof (cases "k = 0")
    case False
    then have "key (h ! 0) \<le> key (h ! ((k - 1) div 2))" using less by (intro less.IH) auto
    also have "\<dots> \<le> key (h ! k)" using assms(1) False less.prems by (simp add: heap_ok_def)
    finally show ?thesis .
  qed simp
qed

lemma up_ok_step:
  assumes "up_ok key h j" and "j < length h" and "0 < j"
    and "key (h ! j) < key (h ! ((j - 1) div 2))"
  shows "up_ok key (heap_swap ((j - 1) div 2) j h) ((j - 1) div 2)"
proof -
  define i where "i = (j - 1) div 2"
  define p where "p k = (k - 1) div 2" for k :: nat
  have p: "p k < k" if "0 < k" for k using that by (auto simp: p_def)
  have i: "i < j" "i < length h" "p j = i" using assms(2,3) by (auto simp: i_def p_def)
  have par: "key (h ! p k) \<le> key (h ! k)" if "0 < k" "k < length h" "k \<noteq> j" for k
    using assms(1) that by (simp add: up_ok_def p_def)
  have across: "key (h ! i) \<le> key (h ! k)" if "0 < k" "k < length h" "p k = j" for k
    using assms(1,3) that by (simp add: up_ok_def p_def i_def)
  have nth: "heap_swap i j h ! k = (if k = j then h ! i else if k = i then h ! j else h ! k)"
    if "k < length h" for k
    using i assms(2) that by (simp add: heap_swap_nth)
  have lt: "key (h ! j) < key (h ! i)" using assms(4) by (simp add: i_def)
  have "key (heap_swap i j h ! p k) \<le> key (heap_swap i j h ! k)"
    if k: "0 < k" "k < length h" "k \<noteq> i" for k
    using par [OF k(1,2)] across [OF k(1,2)] lt p [OF k(1)] k i
    by (auto simp: nth)
  moreover have "key (heap_swap i j h ! p i) \<le> key (heap_swap i j h ! k)"
    if k: "0 < k" "k < length h" "p k = i" "0 < i" for k
  proof -
    have *: "key (h ! p i) \<le> key (h ! i)" using par [of i] k(4) i by simp
    moreover have "key (h ! i) \<le> key (h ! k)" if "k \<noteq> j" using par [OF k(1,2) that] k(3) by simp
    ultimately show ?thesis using i k p [OF k(1)] p [OF k(4)] by (auto simp: nth)
  qed
  ultimately show ?thesis unfolding up_ok_def p_def i_def by simp
qed

lemma heap_up_ok:
  "\<lbrakk> up_ok key h j; j < length h \<rbrakk> \<Longrightarrow> heap_ok key (heap_up lt h j) (length h)"
proof (induction j arbitrary: h rule: less_induct)
  case (less j)
  let ?i = "(j - 1) div 2"
  show ?case
  proof (cases "?i = j \<or> \<not> lt (h ! j) (h ! ?i)")
    case True
    then have "heap_up lt h j = h" by (subst heap_up.simps) (simp add: Let_def)
    moreover have "heap_ok key h (length h)"
      using less.prems True by (auto simp: up_ok_def heap_ok_def not_less_key)
    ultimately show ?thesis by simp
  next
    case False
    then have j: "0 < j" "?i < j" by auto
    have "heap_up lt h j = heap_up lt (heap_swap ?i j h) ?i"
      using False by (subst heap_up.simps) (simp add: Let_def)
    moreover have "up_ok key (heap_swap ?i j h) ?i"
      using less.prems False j by (intro up_ok_step) (auto simp: less_key)
    ultimately show ?thesis using less.IH [of ?i "heap_swap ?i j h"] j less.prems by simp
  qed
qed

lemma down_ok_step:
  assumes "down_ok key h i n" and "n \<le> length h" and "2 * i + 1 < n"
    and c: "c = heap_child lt h i n" and "lt (h ! c) (h ! i)"
  shows "down_ok key (heap_swap i c h) c n"
proof -
  define p where "p k = (k - 1) div 2" for k :: nat
  have p: "p k < k" if "0 < k" for k using that by (auto simp: p_def)
  have ci: "c < n" "i < c" "p c = i"
    using heap_child_bounds [OF assms(3), of lt h] by (simp_all add: c p_def)
  have par: "key (h ! p k) \<le> key (h ! k)" if "0 < k" "k < n" "p k \<noteq> i" for k
    using assms(1) that by (simp add: down_ok_def p_def)
  have across: "key (h ! p i) \<le> key (h ! k)" if "0 < k" "k < n" "p k = i" "0 < i" for k
    using assms(1) that by (simp add: down_ok_def p_def)
  have min: "key (h ! c) \<le> key (h ! k)" if "0 < k" "k < n" "p k = i" for k
  proof -
    have "k = 2 * i + 1 \<or> k = 2 * i + 2" using that by (auto simp: p_def)
    then show ?thesis using that(2) by (auto simp: c heap_child_def less_key)
  qed
  have nth: "heap_swap i c h ! k = (if k = c then h ! i else if k = i then h ! c else h ! k)"
    if "k < n" for k
    using ci assms(2) that by (simp add: heap_swap_nth)
  have lt: "key (h ! c) < key (h ! i)" using assms(5) by (simp add: less_key)
  have "key (heap_swap i c h ! p k) \<le> key (heap_swap i c h ! k)"
    if k: "0 < k" "k < n" "p k \<noteq> c" for k
    using par [OF k(1,2)] across [of c] min [OF k(1,2)] lt p [OF k(1)] k ci
    by (auto simp: nth)
  moreover have "key (heap_swap i c h ! p c) \<le> key (heap_swap i c h ! k)"
    if k: "0 < k" "k < n" "p k = c" for k
    using par [OF k(1,2)] p [OF k(1)] k ci by (auto simp: nth)
  ultimately show ?thesis unfolding down_ok_def p_def by blast
qed

lemma heap_down_ok:
  assumes "i < n" and "n \<le> length h"
  shows "down_ok key h i n \<Longrightarrow> heap_ok key (heap_down lt h i n) n"
  using assms
proof (induction h i rule: heap_down_induct [where lt = lt])
  case (step h i)
  let ?c = "heap_child lt h i n"
  show ?case
  proof (cases "n \<le> 2 * i + 1 \<or> \<not> lt (h ! ?c) (h ! i)")
    case True
    have "key (h ! i) \<le> key (h ! k)" if k: "0 < k" "k < n" "(k - 1) div 2 = i" for k
    proof -
      have "k = 2 * i + 1 \<or> k = 2 * i + 2" using k by auto
      then show ?thesis using k(2) True by (auto simp: heap_child_def less_key split: if_splits)
    qed
    moreover have "heap_down lt h i n = h" using True by (subst heap_down_rec) (simp add: Let_def)
    ultimately show ?thesis using step.prems by (auto simp: down_ok_def heap_ok_def)
  next
    case False
    then have "heap_down lt h i n = heap_down lt (heap_swap i ?c h) ?c n"
      by (subst heap_down_rec) (simp add: Let_def)
    then show ?thesis using False step.IH step.hyps step.prems down_ok_step [OF _ _ _ refl] by simp
  qed
qed

lemma heap_Push_ok:
  assumes "heap_ok key h (length h)"
  shows "heap_ok key (heap_Push lt x h) (length (heap_Push lt x h))"
    and "mset (heap_Push lt x h) = add_mset x (mset h)"
proof -
  have "(k - 1) div 2 < length h" if "0 < k" "k < Suc (length h)" for k using that by linarith
  then have "up_ok key (h @ [x]) (length h)"
    using assms by (force simp: up_ok_def heap_ok_def nth_append)
  from heap_up_ok [OF this] show "heap_ok key (heap_Push lt x h) (length (heap_Push lt x h))"
    by (simp add: heap_Push_def)
  show "mset (heap_Push lt x h) = add_mset x (mset h)"
    by (simp add: heap_Push_def mset_heap_up)
qed

lemma heap_Pop_ok:
  assumes "heap_ok key h (length h)" and "h \<noteq> []"
  shows "heap_ok key (heap_Pop lt h) (length (heap_Pop lt h))"
    and "mset h = add_mset (h ! 0) (mset (heap_Pop lt h))"
proof -
  define n where "n = length h - 1"
  have len: "length h = Suc n" using assms(2) by (simp add: n_def)
  define h' where "h' = heap_down lt (heap_swap 0 n h) 0 n"
  have pop: "heap_Pop lt h = take n h'" by (simp add: heap_Pop_def h'_def n_def Let_def)
  have len': "length h' = Suc n" by (simp add: h'_def len)
  have h': "mset h' = mset h \<and> h' ! n = h ! 0 \<and> heap_ok key h' n"
  proof (cases "n = 0")
    case True
    then show ?thesis
      by (simp add: h'_def heap_down_rec [of _ _ 0 0] heap_swap_def heap_ok_def Let_def)
  next
    case False
    have "down_ok key (heap_swap 0 n h) 0 n"
      using assms(1) len by (auto simp: down_ok_def heap_ok_def heap_swap_nth)
    then have "heap_ok key h' n" using False len by (simp add: h'_def heap_down_ok)
    moreover have "mset h' = mset h \<and> h' ! n = h ! 0"
      using heap_down_frame [of 0 n "heap_swap 0 n h" lt] False len
      by (simp add: h'_def mset_heap_swap heap_swap_nth)
    ultimately show ?thesis by simp
  qed
  show "heap_ok key (heap_Pop lt h) (length (heap_Pop lt h))"
    using h' len' by (auto simp: pop heap_ok_def)
  have "h' = take n h' @ [h' ! n]" using len' by (metis lessI take_Suc_conv_app_nth take_all_iff order_refl)
  then have "mset h' = add_mset (h' ! n) (mset (take n h'))"
    by (metis mset_append mset.simps add_mset_add_single)
  then show "mset h = add_mset (h ! 0) (mset (heap_Pop lt h))" using h' by (simp add: pop)
qed

end

section \<open>The delay accumulator\<close>

record delay =
  Value :: duration
  Deadline :: time

type_synonym delayHeap = "delay list"

definition delayHeap_Less :: "delay \<Rightarrow> delay \<Rightarrow> bool" where
  "delayHeap_Less x y \<longleftrightarrow> Value x < Value y"

record delayAccumulator =
  da_delays :: delayHeap
  da_window :: duration

definition newDelayAccumulator :: "duration \<Rightarrow> delayAccumulator" where
  "newDelayAccumulator window = \<lparr>da_delays = [], da_window = window\<rparr>"

definition da_Push :: "delayAccumulator \<Rightarrow> duration \<Rightarrow> time \<Rightarrow> delayAccumulator" where
  "da_Push da delayTime receivedAt =
     da\<lparr>da_delays := heap_Push delayHeap_Less
          \<lparr>Value = delayTime, Deadline = receivedAt + da_window da\<rparr> (da_delays da)\<rparr>"

text \<open>The loop of \<open>BaseDelay\<close>, with the one clock reading it makes as the argument \<open>now\<close>.\<close>

function base_delay_loop :: "time \<Rightarrow> delayHeap \<Rightarrow> delayHeap \<times> duration" where
  "base_delay_loop now h =
     (if length h > 0 then
        let mn = h ! 0 in
        if now > Deadline mn then base_delay_loop now (heap_Pop delayHeap_Less h)
        else (h, Value mn)
      else (h, 0))"
  by pat_completeness auto
termination
  by (relation "measure (\<lambda>(now, h). length h)") auto

declare base_delay_loop.simps [simp del]

definition BaseDelay :: "time \<Rightarrow> delayAccumulator \<Rightarrow> delayAccumulator \<times> duration" where
  "BaseDelay now da =
     (case base_delay_loop now (da_delays da) of (h, v) \<Rightarrow> (da\<lparr>da_delays := h\<rparr>, v))"

interpretation delay_order: key_order delayHeap_Less Value
  by unfold_locales (simp add: delayHeap_Less_def)

text \<open>The invariant of the accumulator, and its abstraction: the delays that are still valid.\<close>

definition da_inv :: "delayAccumulator \<Rightarrow> bool" where
  "da_inv da \<longleftrightarrow> heap_ok Value (da_delays da) (length (da_delays da))"

definition live_delays :: "time \<Rightarrow> delayAccumulator \<Rightarrow> delay multiset" where
  "live_delays now da = filter_mset (\<lambda>d. now \<le> Deadline d) (mset (da_delays da))"

lemma newDelayAccumulator_inv [inv_intros]: "da_inv (newDelayAccumulator w)"
  by (simp add: newDelayAccumulator_def da_inv_def heap_ok_def)

lemma da_Push_inv [inv_intros]: "da_inv da \<Longrightarrow> da_inv (da_Push da d t)"
  unfolding da_inv_def da_Push_def by (simp add: delay_order.heap_Push_ok del: One_nat_def)

lemma mset_da_Push:
  "da_inv da \<Longrightarrow> mset (da_delays (da_Push da d t))
     = add_mset \<lparr>Value = d, Deadline = t + da_window da\<rparr> (mset (da_delays da))"
  unfolding da_inv_def da_Push_def by (simp add: delay_order.heap_Push_ok)

lemma base_delay_loop_spec:
  assumes "heap_ok Value h (length h)" and "base_delay_loop now h = (h', v)"
  shows "heap_ok Value h' (length h')
    \<and> filter_mset (\<lambda>d. now \<le> Deadline d) (mset h') = filter_mset (\<lambda>d. now \<le> Deadline d) (mset h)
    \<and> set h' \<subseteq> set h
    \<and> (if \<exists>d \<in> set h. now \<le> Deadline d
       then v = Min (Value ` {d \<in> set h. now \<le> Deadline d}) else v = 0 \<and> h' = [])"
  using assms
proof (induction now h rule: base_delay_loop.induct)
  case (1 now h)
  consider (empty) "h = []" | (expired) "h \<noteq> []" "Deadline (h ! 0) < now"
    | (live) "h \<noteq> []" "now \<le> Deadline (h ! 0)" by fastforce
  then show ?case
  proof cases
    case empty
    with "1.prems" show ?thesis by (simp add: base_delay_loop.simps)
  next
    case expired
    let ?h = "heap_Pop delayHeap_Less h"
    note pop = delay_order.heap_Pop_ok [OF "1.prems"(1) expired(1)]
    have eq: "base_delay_loop now ?h = (h', v)"
      using expired "1.prems"(2) by (subst (asm) base_delay_loop.simps) (simp add: Let_def)
    have IH: "heap_ok Value h' (length h')
        \<and> filter_mset (\<lambda>d. now \<le> Deadline d) (mset h') = filter_mset (\<lambda>d. now \<le> Deadline d) (mset ?h)
        \<and> set h' \<subseteq> set ?h
        \<and> (if \<exists>d \<in> set ?h. now \<le> Deadline d
           then v = Min (Value ` {d \<in> set ?h. now \<le> Deadline d}) else v = 0 \<and> h' = [])"
      using expired eq pop(1) by (intro "1.IH") auto
    have s: "set h = insert (h ! 0) (set ?h)"
      using arg_cong [OF pop(2), of set_mset] by simp
    have f: "{d \<in> set h. now \<le> Deadline d} = {d \<in> set ?h. now \<le> Deadline d}"
      using s expired(2) by auto
    have "filter_mset (\<lambda>d. now \<le> Deadline d) (mset h)
        = filter_mset (\<lambda>d. now \<le> Deadline d) (mset ?h)"
      using expired(2) by (subst pop(2)) simp
    moreover have "(\<exists>d \<in> set h. now \<le> Deadline d) \<longleftrightarrow> (\<exists>d \<in> set ?h. now \<le> Deadline d)"
      using f by blast
    ultimately show ?thesis using IH f s by auto
  next
    case live
    then have "h' = h" "v = Value (h ! 0)"
      using "1.prems"(2) by (auto simp: base_delay_loop.simps [of now h] Let_def)
    moreover have "Min (Value ` {d \<in> set h. now \<le> Deadline d}) = Value (h ! 0)"
      using live delay_order.heap_ok_root [OF "1.prems"(1)]
      by (intro Min_eqI) (auto simp: in_set_conv_nth)
    moreover have "\<exists>d \<in> set h. now \<le> Deadline d" using live by (meson nth_mem length_greater_0_conv)
    ultimately show ?thesis using "1.prems"(1) by simp
  qed
qed

lemma BaseDelay_spec:
  assumes "da_inv da" and "BaseDelay now da = (da', v)"
  shows "da_inv da'" and "live_delays now da' = live_delays now da"
    and "da_window da' = da_window da" and "set (da_delays da') \<subseteq> set (da_delays da)"
    and "v = (if live_delays now da = {#} then 0
              else Min (Value ` set_mset (live_delays now da)))"
    and "v = 0 \<or> (\<exists>d \<in> set (da_delays da). now \<le> Deadline d \<and> v = Value d)"
proof -
  obtain h where h: "base_delay_loop now (da_delays da) = (h, v)" "da' = da\<lparr>da_delays := h\<rparr>"
    using assms(2) by (auto simp: BaseDelay_def split: prod.splits)
  note spec = base_delay_loop_spec [OF _ h(1)]
  have inv: "heap_ok Value (da_delays da) (length (da_delays da))" using assms(1) by (simp add: da_inv_def)
  note spec = spec [OF inv]
  show "da_inv da'" "live_delays now da' = live_delays now da"
    "da_window da' = da_window da" "set (da_delays da') \<subseteq> set (da_delays da)"
    using spec h(2) by (auto simp: da_inv_def live_delays_def)
  let ?S = "{d \<in> set (da_delays da). now \<le> Deadline d}"
  have S: "set_mset (live_delays now da) = ?S" by (auto simp: live_delays_def)
  have empty: "live_delays now da = {#} \<longleftrightarrow> \<not> (\<exists>d \<in> set (da_delays da). now \<le> Deadline d)"
    using S by (metis (no_types, lifting) empty_Collect_eq set_mset_eq_empty_iff)
  show v: "v = (if live_delays now da = {#} then 0 else Min (Value ` set_mset (live_delays now da)))"
    using spec unfolding empty S by (auto split: if_splits)
  show "v = 0 \<or> (\<exists>d \<in> set (da_delays da). now \<le> Deadline d \<and> v = Value d)"
  proof (cases "live_delays now da = {#}")
    case False
    then have "Min (Value ` ?S) \<in> Value ` ?S" using S by (intro Min_in) (auto simp flip: S)
    then show ?thesis using v False S by auto
  qed (use v in simp)
qed

datatype da_op = DPush duration time | DBase time

fun da_run :: "delayAccumulator \<Rightarrow> da_op list \<Rightarrow> delayAccumulator" where
  "da_run da [] = da"
| "da_run da (DPush d t # ops) = da_run (da_Push da d t) ops"
| "da_run da (DBase now # ops) = da_run (fst (BaseDelay now da)) ops"

definition live_pushes :: "duration \<Rightarrow> time \<Rightarrow> da_op list \<Rightarrow> duration set" where
  "live_pushes window now ops = {d. \<exists>t. DPush d t \<in> set ops \<and> now \<le> t + window}"

lemma da_run_live:
  assumes "da_inv da" and "\<forall>t. DBase t \<in> set ops \<longrightarrow> t \<le> now"
  shows "da_inv (da_run da ops) \<and>
         Value ` set_mset (live_delays now (da_run da ops))
           = Value ` set_mset (live_delays now da) \<union> live_pushes (da_window da) now ops"
  using assms
proof (induction da ops rule: da_run.induct)
  case (1 da)
  then show ?case by (simp add: live_pushes_def)
next
  case (2 da d t ops)
  have "da_window (da_Push da d t) = da_window da" by (simp add: da_Push_def)
  moreover have "live_pushes (da_window da) now (DPush d t # ops)
      = (if now \<le> t + da_window da then {d} else {}) \<union> live_pushes (da_window da) now ops"
    by (auto simp: live_pushes_def)
  ultimately show ?case using 2 by (auto simp: da_Push_inv mset_da_Push live_delays_def)
next
  case (3 da t ops)
  obtain da' v where b: "BaseDelay t da = (da', v)" by fastforce
  note spec = BaseDelay_spec [OF "3.prems"(1) b]
  have "live_delays now x = filter_mset (\<lambda>d. now \<le> Deadline d) (live_delays t x)" for x
    using "3.prems"(2) by (auto simp: live_delays_def filter_filter_mset intro!: filter_mset_cong)
  then have "live_delays now da' = live_delays now da" using spec(2) by metis
  moreover have "live_pushes w now (DBase t # ops) = live_pushes w now ops" for w
    by (simp add: live_pushes_def)
  ultimately show ?case using 3 b spec(1,3) by simp
qed

text \<open>
  C17. The accumulator's base delay is the smallest delay pushed that is still inside its window,
  or zero when none is: after any sequence of pushes, followed by any number of earlier base delay
  readings at times not after \<open>now\<close>.
\<close>

theorem base_delay_is_window_minimum:
  assumes "\<forall>t. DBase t \<in> set ops \<longrightarrow> t \<le> now"
  shows "snd (BaseDelay now (da_run (newDelayAccumulator window) ops))
           = (if live_pushes window now ops = {} then 0 else Min (live_pushes window now ops))"
proof -
  let ?da = "newDelayAccumulator window"
  have "live_delays now ?da = {#}" "da_window ?da = window"
    by (simp_all add: newDelayAccumulator_def live_delays_def)
  then have run: "da_inv (da_run ?da ops)"
    "Value ` set_mset (live_delays now (da_run ?da ops)) = live_pushes window now ops"
    using da_run_live [OF newDelayAccumulator_inv assms] by auto
  obtain da' v where b: "BaseDelay now (da_run ?da ops) = (da', v)" by fastforce
  show ?thesis using BaseDelay_spec(5) [OF run(1) b] run(2) b by (auto simp flip: run(2))
qed

theorem base_delay_is_window_minimum_witness:
  "snd (BaseDelay 15 (da_run (newDelayAccumulator 10) [DPush 3 1, DBase 5, DPush 7 8, DPush 9 9])) = 7"
proof -
  have "live_pushes 10 15 [DPush 3 1, DBase 5, DPush 7 8, DPush 9 9] = {7, 9}"
    by (auto simp: live_pushes_def)
  then show ?thesis
    using base_delay_is_window_minimum [of "[DPush 3 1, DBase 5, DPush 7 8, DPush 9 9]" 15 10] by simp
qed

end
