(* ===== verification/Congestion.thy ===== *)
theory Congestion
  imports Utp_Utils Go_Float Delay_Heap
begin

text \<open>
  The LEDBAT congestion controller of \<^verbatim>\<open>congestion.go\<close>. The interface \<open>Controller\<close> is a record of
  methods over a state type, with the contract its client relies on as the locale \<open>controller\<close>;
  \<open>default_Controller\<close> is the implementation. Floating point is that of \<^verbatim>\<open>Go_Float\<close>. \<open>OnAck\<close> reads
  the clock once, inside \<open>BaseDelay\<close>; the reading is its first argument.
\<close>

section \<open>Types\<close>

datatype Transmit = Initial | Retransmission

record packetRecord =
  SizeBytes :: u32
  NumTransmissions :: u32
  pr_Acked :: bool

record Ack =
  ack_Delay :: duration
  ack_RTT :: duration
  ack_ReceivedAt :: time

record ctrlConfig =
  TargetDelayMicros :: u32
  InitialTimeout :: duration
  MinTimeout :: duration
  MaxTimeout :: duration
  MaxPacketSizeBytes :: u32
  MaxWindowSizeIncBytes :: u32
  Gain :: rat
  DelayWindow :: duration
  WindowSize :: u32

text \<open>\<open>Duration.Microseconds\<close> and \<open>Duration.Milliseconds\<close> truncate towards zero.\<close>

definition Microseconds :: "duration \<Rightarrow> int" where
  "Microseconds d = go_quot d 1000"

definition Milliseconds :: "duration \<Rightarrow> int" where
  "Milliseconds d = go_quot d 1000000"

definition defaultCtrlConfig :: ctrlConfig where
  "defaultCtrlConfig =
     \<lparr>TargetDelayMicros = 100000, InitialTimeout = 4000000000, MinTimeout = 500000000,
      MaxTimeout = 60000000000, MaxPacketSizeBytes = 1024, MaxWindowSizeIncBytes = 1024,
      Gain = 1, DelayWindow = 120000000000, WindowSize = 0\<rparr>"

record 'c Controller =
  ct_OnTransmit :: "'c \<Rightarrow> u16 \<Rightarrow> Transmit \<Rightarrow> u32 \<Rightarrow> 'c \<times> goerr option"
  ct_OnAck :: "'c \<Rightarrow> u16 \<Rightarrow> Ack \<Rightarrow> 'c \<times> goerr option"
  ct_OnLostPacket :: "'c \<Rightarrow> u16 \<Rightarrow> bool \<Rightarrow> 'c \<times> goerr option"
  ct_OnTimeout :: "'c \<Rightarrow> 'c"
  ct_Timeout :: "'c \<Rightarrow> duration"
  ct_BytesAvailableInWindow :: "'c \<Rightarrow> u32"

record defaultController =
  targetDelayMicros :: u32
  dc_timeout :: duration
  minTimeout :: duration
  maxTimeout :: duration
  windowSizeBytes :: u32
  maxWindowSizeBytes :: u32
  minWindowSizeBytes :: u32
  maxWindowSizeIncBytes :: u32
  gain :: rat
  dc_rtt :: duration
  rttVarianceMicros :: int
  transmissions :: "u16 \<rightharpoonup> packetRecord"
  delayAcc :: delayAccumulator

section \<open>Operations\<close>

definition newDefaultController :: "ctrlConfig \<Rightarrow> defaultController" where
  "newDefaultController config =
     \<lparr>targetDelayMicros = TargetDelayMicros config, dc_timeout = InitialTimeout config,
      minTimeout = MinTimeout config, maxTimeout = MaxTimeout config, windowSizeBytes = 0,
      maxWindowSizeBytes = 2 * MaxPacketSizeBytes config,
      minWindowSizeBytes = 2 * MaxPacketSizeBytes config,
      maxWindowSizeIncBytes = MaxWindowSizeIncBytes config, gain = Gain config, dc_rtt = 0,
      rttVarianceMicros = 0, transmissions = Map.empty,
      delayAcc = newDelayAccumulator (DelayWindow config)\<rparr>"

definition Timeout :: "defaultController \<Rightarrow> duration" where
  "Timeout c = dc_timeout c"

definition BytesAvailableInWindow :: "defaultController \<Rightarrow> u32" where
  "BytesAvailableInWindow c =
     (if maxWindowSizeBytes c > windowSizeBytes c
      then maxWindowSizeBytes c - windowSizeBytes c else 0)"

text \<open>The tail of \<open>OnTransmit\<close>: a first transmission takes its size from the window.\<close>

definition charge_window ::
  "defaultController \<Rightarrow> packetRecord \<Rightarrow> defaultController \<times> goerr option" where
  "charge_window c packetInst =
     (if NumTransmissions packetInst = 1 then
        if windowSizeBytes c + SizeBytes packetInst > maxWindowSizeBytes c
        then (c, Some ErrInsufficientWindowSize)
        else (c\<lparr>windowSizeBytes := windowSizeBytes c + SizeBytes packetInst\<rparr>, None)
      else (c, None))"

definition OnTransmit ::
  "defaultController \<Rightarrow> u16 \<Rightarrow> Transmit \<Rightarrow> u32 \<Rightarrow> defaultController \<times> goerr option" where
  "OnTransmit c seqNum transmission dataLen =
     (case transmission of
        Initial \<Rightarrow>
          (case transmissions c seqNum of
             Some _ \<Rightarrow> (c, Some ErrDuplicateTransmission)
           | None \<Rightarrow>
             let packetInst = \<lparr>SizeBytes = dataLen, NumTransmissions = 1, pr_Acked = False\<rparr>
             in charge_window (c\<lparr>transmissions := (transmissions c)(seqNum \<mapsto> packetInst)\<rparr>) packetInst)
      | Retransmission \<Rightarrow>
          (case transmissions c seqNum of
             None \<Rightarrow> (c, Some ErrUnknownSeqNum)
           | Some p \<Rightarrow>
             let packetInst = p\<lparr>NumTransmissions := NumTransmissions p + 1\<rparr>
             in charge_window (c\<lparr>transmissions := (transmissions c)(seqNum \<mapsto> packetInst)\<rparr>) packetInst))"

definition computeMaxWindowSizeAdjustment ::
  "u32 \<Rightarrow> u32 \<Rightarrow> u32 \<Rightarrow> u32 \<Rightarrow> u32 \<Rightarrow> u32 \<Rightarrow> rat \<Rightarrow> int" where
  "computeMaxWindowSizeAdjustment target base packetDelay window packetSize maxInc g =
     (let delayMicros = uint packetDelay - uint base;
          offTargetMicros = uint target - delayMicros;
          delayFactor = f64_div (float64 offTargetMicros) (float64 (uint target));
          windowFactor = f64_div (float64 (uint packetSize)) (float64 (uint window));
          scaledGain = f64_mul (f64_mul (f64_mul (Fin g) (float64 (uint maxInc))) delayFactor)
                               windowFactor
      in int64_of scaledGain)"

definition computeRTTAdjustment :: "int \<Rightarrow> int \<Rightarrow> int" where
  "computeRTTAdjustment rttMicros packetRTTMicros =
     int64_of (f64_div (f64_sub (float64 packetRTTMicros) (float64 rttMicros)) (Fin 8))"

definition computeRTTVarianceAdjustment :: "int \<Rightarrow> int \<Rightarrow> int \<Rightarrow> int" where
  "computeRTTVarianceAdjustment rttMicros varianceMicros packetRTTMicros =
     (let absDeltaMicros = math_Abs (float64 (rttMicros - packetRTTMicros))
      in int64_of (f64_div (f64_sub absDeltaMicros (float64 varianceMicros)) (Fin 4)))"

text \<open>The sum of two \<open>int64\<close> wraps; it can here, when the adjustment is close to the largest one.\<close>

definition wrap64 :: "int \<Rightarrow> int" where
  "wrap64 x = (x + 2 ^ 63) mod 2 ^ 64 - 2 ^ 63"

definition applyMaxWindowSizeAdjustment :: "defaultController \<Rightarrow> int \<Rightarrow> defaultController" where
  "applyMaxWindowSizeAdjustment c adjustment =
     (let adj = wrap64 (uint (maxWindowSizeBytes c) + adjustment);
          adj = (if adj < uint (minWindowSizeBytes c) then uint (minWindowSizeBytes c) else adj)
      in c\<lparr>maxWindowSizeBytes :=
             uint32_of (math_Min (float64 adj)
               (f64_add (float64 (uint (maxWindowSizeBytes c)))
                        (float64 (uint (maxWindowSizeIncBytes c)))))\<rparr>)"

definition applyTimeoutAdjustment :: "defaultController \<Rightarrow> defaultController" where
  "applyTimeoutAdjustment c =
     (let t = int64_of (math_Max (float64 (dc_rtt c + rttVarianceMicros c * 4))
                                 (float64 (minTimeout c)));
          t = int64_of (math_Min (float64 t) (float64 (maxTimeout c)))
      in c\<lparr>dc_timeout := t\<rparr>)"

definition OnAck ::
  "time \<Rightarrow> defaultController \<Rightarrow> u16 \<Rightarrow> Ack \<Rightarrow> defaultController \<times> goerr option" where
  "OnAck now c seqNum ack =
     (case transmissions c seqNum of
        None \<Rightarrow> (c, Some ErrUnknownSeqNum)
      | Some packetInst \<Rightarrow>
        if pr_Acked packetInst then (c, None)
        else
          let c = c\<lparr>transmissions := (transmissions c)(seqNum \<mapsto> packetInst\<lparr>pr_Acked := True\<rparr>)\<rparr>;
              (da, baseDelay) = BaseDelay now (da_Push (delayAcc c) (ack_Delay ack) (ack_ReceivedAt ack));
              c = c\<lparr>delayAcc := da\<rparr>;
              adjustment = computeMaxWindowSizeAdjustment (targetDelayMicros c)
                (word_of_int (Microseconds baseDelay)) (word_of_int (Microseconds (ack_Delay ack)))
                (windowSizeBytes c) (SizeBytes packetInst) (maxWindowSizeIncBytes c) (gain c);
              c = applyMaxWindowSizeAdjustment c adjustment;
              c = c\<lparr>windowSizeBytes := windowSizeBytes c - SizeBytes packetInst\<rparr>
          in if NumTransmissions packetInst = 1 then
               let varAdj = computeRTTVarianceAdjustment (Microseconds (dc_rtt c))
                              (rttVarianceMicros c) (Microseconds (ack_RTT ack));
                   c = c\<lparr>rttVarianceMicros := maxInt64 0 (rttVarianceMicros c + varAdj)\<rparr>;
                   rttAdj = computeRTTAdjustment (Microseconds (dc_rtt c)) (Microseconds (ack_RTT ack));
                   c = c\<lparr>dc_rtt := maxInt64 (Milliseconds (dc_rtt c) + rttAdj) 0\<rparr>
               in (applyTimeoutAdjustment c, None)
             else (c, None))"

definition OnLostPacket ::
  "defaultController \<Rightarrow> u16 \<Rightarrow> bool \<Rightarrow> defaultController \<times> goerr option" where
  "OnLostPacket c seqNum retransmitting =
     (case transmissions c seqNum of
        None \<Rightarrow> (c, Some ErrUnknownSeqNum)
      | Some packetInst \<Rightarrow>
        let c = c\<lparr>maxWindowSizeBytes :=
                    uint32_of (math_Max (float64 (uint (maxWindowSizeBytes c div 2)))
                                        (float64 (uint (minWindowSizeBytes c))))\<rparr>
        in (if \<not> retransmitting
            then c\<lparr>windowSizeBytes := windowSizeBytes c - SizeBytes packetInst\<rparr> else c, None))"

definition OnTimeout :: "defaultController \<Rightarrow> defaultController" where
  "OnTimeout c =
     (let c = c\<lparr>maxWindowSizeBytes := minWindowSizeBytes c\<rparr>
      in c\<lparr>dc_timeout :=
             int64_of (math_Min (float64 (dc_timeout c * 2)) (float64 (maxTimeout c)))\<rparr>)"

text \<open>
  The implementation of the interface. \<open>clk\<close> gives the clock reading of each call of \<open>OnAck\<close>; a
  sequence number is acknowledged once, so every call that reads the clock has its own reading.
\<close>

definition default_Controller :: "(u16 \<Rightarrow> Ack \<Rightarrow> time) \<Rightarrow> defaultController Controller" where
  "default_Controller clk =
     \<lparr>ct_OnTransmit = OnTransmit, ct_OnAck = (\<lambda>c s a. OnAck (clk s a) c s a),
      ct_OnLostPacket = OnLostPacket, ct_OnTimeout = OnTimeout, ct_Timeout = Timeout,
      ct_BytesAvailableInWindow = BytesAvailableInWindow\<rparr>"

section \<open>Arithmetic of the adjustments\<close>

lemma wrap64_id: "\<lbrakk> - (2 ^ 63) \<le> x; x < 2 ^ 63 \<rbrakk> \<Longrightarrow> wrap64 x = x"
  by (simp add: wrap64_def)

lemma wrap64_le: "wrap64 x < 2 ^ 63"
  by (simp add: wrap64_def pos_mod_bound)

lemma uint_u32_bounds: "0 \<le> uint (x :: u32)" "uint (x :: u32) < 4294967296"
  using uint_lt2p [of x] by simp_all

lemma float64_u32 [simp]: "float64 (uint (x :: u32)) = Fin (of_int (uint x))"
  using uint_u32_bounds [of x] by (intro float64_exact) auto

lemma uint_uint32_of:
  assumes "of_int lo \<le> x" and "x \<le> of_int hi" and "0 \<le> lo" and "hi < 4294967296"
  shows "lo \<le> uint (uint32_of (Fin x))" "uint (uint32_of (Fin x)) \<le> hi"
proof -
  have "lo \<le> hi" using order.trans [OF assms(1,2)] by simp
  then have b: "lo \<le> int64_of (Fin x)" "int64_of (Fin x) \<le> hi"
    using int64_of_mono [OF assms(1,2)] assms(3,4) by auto
  then have "uint (uint32_of (Fin x)) = int64_of (Fin x)"
    using assms(3,4) by (simp add: uint32_of_def uint_word_of_int_eq take_bit_int_eq_self)
  with b show "lo \<le> uint (uint32_of (Fin x))" "uint (uint32_of (Fin x)) \<le> hi" by simp_all
qed

lemma uint_uint32_of_int:
  "\<lbrakk> 0 \<le> i; i < 4294967296 \<rbrakk> \<Longrightarrow> uint (uint32_of (Fin (of_int i))) = i"
  using uint_uint32_of [of i "of_int i" i] by force

text \<open>The new maximal window as a number, from the old one, its bounds and the adjustment.\<close>

definition new_max :: "int \<Rightarrow> int \<Rightarrow> int \<Rightarrow> int \<Rightarrow> u32" where
  "new_max M m i adj =
     uint32_of (math_Min (float64 (let x = wrap64 (M + adj) in if x < m then m else x))
                         (f64_add (float64 M) (float64 i)))"

lemma applyMax_new_max:
  "maxWindowSizeBytes (applyMaxWindowSizeAdjustment c adj)
     = new_max (uint (maxWindowSizeBytes c)) (uint (minWindowSizeBytes c))
               (uint (maxWindowSizeIncBytes c)) adj"
  by (simp add: applyMaxWindowSizeAdjustment_def new_max_def Let_def)

lemma new_max_eq:
  assumes "0 \<le> M" "0 \<le> i" "M + i < 4294967296"
  shows "new_max M m i adj
     = uint32_of (Fin (min (rnd (of_int (let x = wrap64 (M + adj) in if x < m then m else x)))
                           (of_int (M + i))))"
proof -
  have "f64_add (float64 M) (float64 i) = Fin (of_int (M + i))"
    using assms rnd_of_int [of "M + i"] by (simp add: float64_exact)
  then show ?thesis by (simp only: new_max_def float64_def math_Min_Fin)
qed

lemma new_max_bounds:
  assumes "0 \<le> m" "m \<le> M" "0 \<le> i" "M + i < 4294967296"
  shows "m \<le> uint (new_max M m i adj)" and "uint (new_max M m i adj) \<le> M + i"
proof -
  define a where "a = (let x = wrap64 (M + adj) in if x < m then m else x)"
  have "m \<le> a" by (auto simp: a_def Let_def)
  then have "of_int m \<le> rnd (of_int a)" using assms by (intro rnd_ge_int) auto
  then have "of_int m \<le> min (rnd (of_int a)) (of_int (M + i))" using assms by simp
  from uint_uint32_of [OF this, of "M + i"]
  show "m \<le> uint (new_max M m i adj)" "uint (new_max M m i adj) \<le> M + i"
    using assms by (simp_all add: new_max_eq flip: a_def)
qed

text \<open>Without overflow the new window is the adjusted one, cut off below and above.\<close>

lemma new_max_exact:
  assumes "0 \<le> m" "m \<le> M" "0 \<le> i" "M + i < 4294967296" "\<bar>adj\<bar> \<le> 4503599627370496"
  shows "uint (new_max M m i adj) = min (max m (M + adj)) (M + i)"
proof -
  have w: "wrap64 (M + adj) = M + adj" using assms by (intro wrap64_id) auto
  have f: "rnd (of_int (max m (M + adj))) = of_int (max m (M + adj))"
    using assms by (intro rnd_of_int) auto
  have m: "(let x = wrap64 (M + adj) in if x < m then m else x) = max m (M + adj)"
    by (auto simp: w Let_def)
  have "new_max M m i adj = uint32_of (Fin (of_int (min (max m (M + adj)) (M + i))))"
    using assms by (subst new_max_eq) (simp_all only: m f min_of_int)
  moreover have "0 \<le> min (max m (M + adj)) (M + i)" "min (max m (M + adj)) (M + i) < 4294967296"
    using assms by auto
  ultimately show ?thesis by (simp only: uint_uint32_of_int)
qed

lemma computeRTTVariance_bound:
  assumes "0 \<le> v" "v \<le> b" "\<bar>rtt - p\<bar> \<le> b" "b \<le> 2 ^ 52"
  shows "v + computeRTTVarianceAdjustment rtt v p \<le> b"
proof -
  let ?d = "\<bar>rtt - p\<bar>"
  have "math_Abs (float64 (rtt - p)) = Fin (of_int ?d)"
    using assms by (subst float64_exact) auto
  moreover have "float64 v = Fin (of_int v)" using assms by (intro float64_exact) auto
  moreover have "rnd (of_int ?d - of_int v) = of_int (?d - v)"
    using rnd_of_int [of "?d - v"] assms by simp
  ultimately have eq: "computeRTTVarianceAdjustment rtt v p = int64_of (Fin (rnd (of_int (?d - v) / 4)))"
    by (simp add: computeRTTVarianceAdjustment_def f64_sub_def)
  have "of_int (- (2 ^ 52)) \<le> (of_int (?d - v) / 4 :: rat)"
    "of_int (?d - v) / 4 \<le> (of_int (b - v) :: rat)"
  proof -
    have "- (4 * 2 ^ 52) \<le> ?d - v" "?d - v \<le> 4 * (b - v)" using assms by auto
    then have "of_int (- (4 * 2 ^ 52)) \<le> (of_int (?d - v) :: rat)"
      "(of_int (?d - v) :: rat) \<le> of_int (4 * (b - v))" by (simp_all only: of_int_le_iff)
    then show "of_int (- (2 ^ 52)) \<le> (of_int (?d - v) / 4 :: rat)"
      "of_int (?d - v) / 4 \<le> (of_int (b - v) :: rat)" by simp_all
  qed
  then have "of_int (- (2 ^ 52)) \<le> rnd (of_int (?d - v) / 4)"
    "rnd (of_int (?d - v) / 4) \<le> of_int (b - v)"
    using assms by (auto intro!: rnd_ge_int rnd_le_int simp del: of_int_diff of_int_minus)
  from int64_of_mono(2) [OF this] have "int64_of (Fin (rnd (of_int (?d - v) / 4))) \<le> b - v"
    using assms by auto
  then show ?thesis unfolding eq by simp
qed

lemma computeRTT_bound:
  assumes "0 \<le> rtt" "0 \<le> p" "p \<le> b" "rtt \<le> b" "b \<le> 2 ^ 52"
  shows "computeRTTAdjustment rtt p \<le> b"
proof -
  have "float64 p = Fin (of_int p)" "float64 rtt = Fin (of_int rtt)"
    using assms by (auto intro!: float64_exact)
  moreover have "rnd (of_int p - of_int rtt) = of_int (p - rtt)"
    using rnd_of_int [of "p - rtt"] assms by simp
  ultimately have eq: "computeRTTAdjustment rtt p = int64_of (Fin (rnd (of_int (p - rtt) / 8)))"
    by (simp add: computeRTTAdjustment_def f64_sub_def)
  have "of_int (- (8 * 2 ^ 52)) \<le> (of_int (p - rtt) :: rat)" "(of_int (p - rtt) :: rat) \<le> of_int (8 * b)"
    using assms by (simp_all only: of_int_le_iff)
  then have "of_int (- (2 ^ 52)) \<le> (of_int (p - rtt) / 8 :: rat)" "of_int (p - rtt) / 8 \<le> (of_int b :: rat)"
    by simp_all
  then have "of_int (- (2 ^ 52)) \<le> rnd (of_int (p - rtt) / 8)" "rnd (of_int (p - rtt) / 8) \<le> of_int b"
    using assms by (auto intro!: rnd_ge_int rnd_le_int simp del: of_int_diff of_int_minus)
  from int64_of_mono(2) [OF this] show ?thesis unfolding eq using assms by auto
qed

lemma applyTimeout_exact:
  assumes "\<bar>dc_rtt c + rttVarianceMicros c * 4\<bar> \<le> 2 ^ 53" "\<bar>minTimeout c\<bar> \<le> 2 ^ 53"
    "\<bar>maxTimeout c\<bar> \<le> 2 ^ 53"
  shows "dc_timeout (applyTimeoutAdjustment c)
           = min (max (dc_rtt c + rttVarianceMicros c * 4) (minTimeout c)) (maxTimeout c)"
proof -
  have "\<bar>max (dc_rtt c + rttVarianceMicros c * 4) (minTimeout c)\<bar> \<le> 2 ^ 53" using assms by (auto simp: max_def)
  then show ?thesis
    using assms by (simp add: applyTimeoutAdjustment_def int64_Max_exact int64_Min_exact)
qed

lemma Microseconds_bounds: "0 \<le> d \<Longrightarrow> 0 \<le> Microseconds d" "0 \<le> d \<Longrightarrow> Microseconds d = d div 1000"
  "0 \<le> d \<Longrightarrow> Milliseconds d = d div 1000000"
  by (auto simp: Microseconds_def Milliseconds_def go_quot_def sgn_if)

lemma new_max_shrinks:
  assumes "0 \<le> m" "m \<le> M" "0 \<le> i" "M + i < 4294967296" "adj \<le> 0" "- (2 ^ 63) \<le> adj"
  shows "uint (new_max M m i adj) \<le> M"
proof -
  have w: "wrap64 (M + adj) = M + adj" using assms by (intro wrap64_id) auto
  define a where "a = (let x = wrap64 (M + adj) in if x < m then m else x)"
  have a: "0 \<le> a" "a \<le> M" using assms by (auto simp: a_def w Let_def)
  then have "of_int 0 \<le> rnd (of_int a)" "rnd (of_int a) \<le> of_int M"
    using assms by (auto intro!: rnd_le_int simp: rnd_nonneg)
  then have "of_int 0 \<le> min (rnd (of_int a)) (of_int (M + i))"
    "min (rnd (of_int a)) (of_int (M + i)) \<le> of_int M" using assms by auto
  from uint_uint32_of(2) [OF this] show ?thesis using assms by (simp add: new_max_eq flip: a_def)
qed

text \<open>
  The LEDBAT gain: a packet that waited less than the target grows the window, by at most the
  configured increment, and a packet that waited longer shrinks it.
\<close>

definition off_target :: "u32 \<Rightarrow> u32 \<Rightarrow> u32 \<Rightarrow> int" where
  "off_target target base packetDelay = uint target - (uint packetDelay - uint base)"

lemma computeMax_factors:
  assumes "0 < uint target" and "0 < uint window"
  shows "computeMaxWindowSizeAdjustment target base delay window sz maxInc 1 =
    int64_of (Fin (rnd (rnd (of_int (uint maxInc) * rnd (of_int (off_target target base delay) / of_int (uint target)))
                        * rnd (of_int (uint sz) / of_int (uint window)))))"
proof -
  have o: "float64 (off_target target base delay) = Fin (of_int (off_target target base delay))"
  proof (rule float64_exact)
    have "\<bar>off_target target base delay\<bar> \<le> 9007199254740992"
      using uint_u32_bounds [of target] uint_u32_bounds [of base] uint_u32_bounds [of delay]
      unfolding off_target_def by linarith
    then show "\<bar>off_target target base delay\<bar> \<le> 2 ^ 53" by simp
  qed
  have i: "rnd (of_int (uint maxInc)) = of_int (uint maxInc)"
    using uint_u32_bounds [of maxInc] by (intro rnd_of_int) auto
  have nz: "(of_int (uint target) :: rat) \<noteq> 0" "(of_int (uint window) :: rat) \<noteq> 0"
    using assms unfolding of_int_eq_0_iff by linarith+
  show ?thesis
    unfolding computeMaxWindowSizeAdjustment_def Let_def off_target_def [symmetric] o float64_u32
      f64_mul.simps f64_div.simps mult_1 i
    using nz by (simp only: if_False f64_mul.simps)
qed

lemma computeMax_grow:
  assumes "0 < uint target" "0 < uint window" "uint sz \<le> uint window" "uint base \<le> uint delay"
    and "0 \<le> off_target target base delay"
  shows "0 \<le> computeMaxWindowSizeAdjustment target base delay window sz maxInc 1"
    and "computeMaxWindowSizeAdjustment target base delay window sz maxInc 1 \<le> uint maxInc"
proof -
  let ?i = "of_int (uint maxInc) :: rat"
  define d where "d = rnd (of_int (off_target target base delay) / of_int (uint target))"
  define w where "w = rnd (of_int (uint sz) / of_int (uint window))"
  have t: "(0 :: rat) < of_int (uint target)" "(0 :: rat) < of_int (uint window)"
    using assms(1,2) by (simp_all only: of_int_0_less_iff)
  have le: "(of_int (off_target target base delay) :: rat) \<le> of_int (uint target)"
    "(of_int (uint sz) :: rat) \<le> of_int (uint window)"
    "(0 :: rat) \<le> of_int (off_target target base delay)" "(0 :: rat) \<le> of_int (uint sz)"
    using assms(3-5) by (simp_all only: of_int_le_iff of_int_0_le_iff off_target_def uint_u32_bounds)
  have d: "0 \<le> d" "d \<le> 1"
    using t le by (auto simp: d_def intro!: rnd_nonneg rnd_le_int [where i = 1, simplified])
  have w: "0 \<le> w" "w \<le> 1"
    using t le by (auto simp: w_def intro!: rnd_nonneg rnd_le_int [where i = 1, simplified])
  have i: "\<bar>uint maxInc\<bar> \<le> 2 ^ 53" using uint_u32_bounds [of maxInc] by simp
  have i': "0 \<le> ?i" by (simp only: of_int_0_le_iff uint_u32_bounds)
  have "?i * d \<le> ?i" using d i' by (simp only: mult_left_le)
  then have p: "0 \<le> rnd (?i * d)" "rnd (?i * d) \<le> ?i"
    using d i i' by (auto intro!: rnd_nonneg rnd_le_int simp del: of_int_uint)
  have "rnd (?i * d) * w \<le> ?i" using p w mult_left_le [of w "rnd (?i * d)"] by linarith
  then have q: "0 \<le> rnd (rnd (?i * d) * w)" "rnd (rnd (?i * d) * w) \<le> ?i"
    using p w i by (auto intro!: rnd_nonneg rnd_le_int simp del: of_int_uint)
  show "0 \<le> computeMaxWindowSizeAdjustment target base delay window sz maxInc 1"
    and "computeMaxWindowSizeAdjustment target base delay window sz maxInc 1 \<le> uint maxInc"
    unfolding computeMax_factors [OF assms(1,2)] d_def [symmetric] w_def [symmetric]
    using int64_of_mono [OF _ q(2), of 0] q(1) i by auto
qed

lemma int64_of_nonpos: "x \<le> 0 \<Longrightarrow> int64_of (Fin x) \<le> 0" "- (2 ^ 63) \<le> int64_of (Fin x)"
  using trunc_mono [of x 0] trunc_of_int [of 0] by (auto simp: int64_of_def)

lemma computeMax_shrink:
  assumes "0 < uint target" "0 < uint window" and "off_target target base delay \<le> 0"
  shows "computeMaxWindowSizeAdjustment target base delay window sz maxInc 1 \<le> 0"
    and "- (2 ^ 63) \<le> computeMaxWindowSizeAdjustment target base delay window sz maxInc 1"
proof -
  let ?i = "of_int (uint maxInc) :: rat"
  define d where "d = rnd (of_int (off_target target base delay) / of_int (uint target))"
  define w where "w = rnd (of_int (uint sz) / of_int (uint window))"
  have t: "(0 :: rat) < of_int (uint target)" "(0 :: rat) < of_int (uint window)"
    using assms(1,2) by (simp_all only: of_int_0_less_iff)
  have le: "(of_int (off_target target base delay) :: rat) \<le> 0" "(0 :: rat) \<le> of_int (uint sz)"
    "0 \<le> ?i"
    using assms(3) by (simp_all only: of_int_le_0_iff of_int_0_le_iff uint_u32_bounds)
  have d: "d \<le> 0" using t le by (auto simp: d_def divide_nonpos_pos intro!: rnd_nonpos)
  have w: "0 \<le> w" using t le by (auto simp: w_def intro!: rnd_nonneg)
  have "rnd (?i * d) \<le> 0" using d le by (intro rnd_nonpos) (simp add: mult_nonneg_nonpos)
  then have "rnd (rnd (?i * d) * w) \<le> 0" using w by (intro rnd_nonpos) (simp add: mult_nonpos_nonneg)
  then show "computeMaxWindowSizeAdjustment target base delay window sz maxInc 1 \<le> 0"
    "- (2 ^ 63) \<le> computeMaxWindowSizeAdjustment target base delay window sz maxInc 1"
    unfolding computeMax_factors [OF assms(1,2)] d_def [symmetric] w_def [symmetric]
    by (simp_all only: int64_of_nonpos)
qed

end
