(* ===== verification/Congestion_Inv.thy ===== *)
theory Congestion_Inv
  imports Congestion
begin

text \<open>
  The invariant of the congestion controller over every history of calls, the contract of the
  \<open>Controller\<close> interface as the locale \<open>controller\<close>, and the properties of the controller.
\<close>

section \<open>Bytes in flight\<close>

definition unacked_size :: "packetRecord option \<Rightarrow> int" where
  "unacked_size r = (case r of None \<Rightarrow> 0 | Some p \<Rightarrow> if pr_Acked p then 0 else uint (SizeBytes p))"

definition inflight :: "(u16 \<rightharpoonup> packetRecord) \<Rightarrow> int" where
  "inflight tr = (\<Sum>s\<in>UNIV. unacked_size (tr s))"

lemma unacked_size_simps [simp]:
  "unacked_size None = 0"
  "unacked_size (Some p) = (if pr_Acked p then 0 else uint (SizeBytes p))"
  by (simp_all add: unacked_size_def)

lemma unacked_size_nonneg: "0 \<le> unacked_size r"
  by (cases r) auto

lemma inflight_upd: "inflight (tr(s \<mapsto> p)) = inflight tr - unacked_size (tr s) + unacked_size (Some p)"
proof -
  have "inflight tr = unacked_size (tr s) + (\<Sum>x \<in> UNIV - {s}. unacked_size (tr x))"
    unfolding inflight_def by (rule sum.remove) auto
  moreover have "inflight (tr(s \<mapsto> p))
      = unacked_size (Some p) + (\<Sum>x \<in> UNIV - {s}. unacked_size ((tr(s \<mapsto> p)) x))"
    unfolding inflight_def by (subst sum.remove [of UNIV s]) auto
  moreover have "(\<Sum>x \<in> UNIV - {s}. unacked_size ((tr(s \<mapsto> p)) x))
      = (\<Sum>x \<in> UNIV - {s}. unacked_size (tr x))"
    by (rule sum.cong) auto
  ultimately show ?thesis by linarith
qed

lemma inflight_ge: "unacked_size (tr s) \<le> inflight tr"
  unfolding inflight_def by (rule member_le_sum) (auto simp: unacked_size_nonneg)

section \<open>One call at a time\<close>

lemma OnAck_first:
  assumes "transmissions c s = Some p" and "\<not> pr_Acked p"
    and "BaseDelay now (da_Push (delayAcc c) (ack_Delay a) (ack_ReceivedAt a)) = (da, b)"
  shows "OnAck now c s a =
    (let c1 = c\<lparr>transmissions := (transmissions c)(s \<mapsto> p\<lparr>pr_Acked := True\<rparr>), delayAcc := da,
                maxWindowSizeBytes := new_max (uint (maxWindowSizeBytes c)) (uint (minWindowSizeBytes c))
                  (uint (maxWindowSizeIncBytes c))
                  (computeMaxWindowSizeAdjustment (targetDelayMicros c) (word_of_int (Microseconds b))
                     (word_of_int (Microseconds (ack_Delay a))) (windowSizeBytes c) (SizeBytes p)
                     (maxWindowSizeIncBytes c) (gain c)),
                windowSizeBytes := windowSizeBytes c - SizeBytes p\<rparr>
     in (if NumTransmissions p = 1
         then applyTimeoutAdjustment
                (c1\<lparr>rttVarianceMicros := max 0 (rttVarianceMicros c
                       + computeRTTVarianceAdjustment (Microseconds (dc_rtt c)) (rttVarianceMicros c)
                           (Microseconds (ack_RTT a))),
                    dc_rtt := max (Milliseconds (dc_rtt c)
                       + computeRTTAdjustment (Microseconds (dc_rtt c)) (Microseconds (ack_RTT a))) 0\<rparr>)
         else c1, None))"
  using assms
  by (simp add: OnAck_def Let_def applyMaxWindowSizeAdjustment_def new_max_def)

lemma applyTimeout_fields [simp]:
  "transmissions (applyTimeoutAdjustment c) = transmissions c"
  "windowSizeBytes (applyTimeoutAdjustment c) = windowSizeBytes c"
  "maxWindowSizeBytes (applyTimeoutAdjustment c) = maxWindowSizeBytes c"
  "minWindowSizeBytes (applyTimeoutAdjustment c) = minWindowSizeBytes c"
  "maxWindowSizeIncBytes (applyTimeoutAdjustment c) = maxWindowSizeIncBytes c"
  "targetDelayMicros (applyTimeoutAdjustment c) = targetDelayMicros c"
  "gain (applyTimeoutAdjustment c) = gain c"
  "delayAcc (applyTimeoutAdjustment c) = delayAcc c"
  "minTimeout (applyTimeoutAdjustment c) = minTimeout c"
  "maxTimeout (applyTimeoutAdjustment c) = maxTimeout c"
  "dc_rtt (applyTimeoutAdjustment c) = dc_rtt c"
  "rttVarianceMicros (applyTimeoutAdjustment c) = rttVarianceMicros c"
  by (simp_all add: applyTimeoutAdjustment_def Let_def)

lemma OnAck_first_fields:
  assumes "transmissions c s = Some p" and "\<not> pr_Acked p"
    and "BaseDelay now (da_Push (delayAcc c) (ack_Delay a) (ack_ReceivedAt a)) = (da, b)"
  shows "transmissions (fst (OnAck now c s a)) = (transmissions c)(s \<mapsto> p\<lparr>pr_Acked := True\<rparr>)"
    and "windowSizeBytes (fst (OnAck now c s a)) = windowSizeBytes c - SizeBytes p"
    and "delayAcc (fst (OnAck now c s a)) = da"
    and "maxWindowSizeBytes (fst (OnAck now c s a)) =
           new_max (uint (maxWindowSizeBytes c)) (uint (minWindowSizeBytes c))
             (uint (maxWindowSizeIncBytes c))
             (computeMaxWindowSizeAdjustment (targetDelayMicros c) (word_of_int (Microseconds b))
                (word_of_int (Microseconds (ack_Delay a))) (windowSizeBytes c) (SizeBytes p)
                (maxWindowSizeIncBytes c) (gain c))"
    and "minWindowSizeBytes (fst (OnAck now c s a)) = minWindowSizeBytes c"
    and "maxWindowSizeIncBytes (fst (OnAck now c s a)) = maxWindowSizeIncBytes c"
    and "targetDelayMicros (fst (OnAck now c s a)) = targetDelayMicros c"
    and "gain (fst (OnAck now c s a)) = gain c"
  unfolding OnAck_first [OF assms] Let_def fst_conv by simp_all

lemma OnAck_again: "\<lbrakk> transmissions c s = Some p; pr_Acked p \<rbrakk> \<Longrightarrow> OnAck now c s a = (c, None)"
  by (simp add: OnAck_def)

lemma OnAck_unknown: "transmissions c s = None \<Longrightarrow> OnAck now c s a = (c, Some ErrUnknownSeqNum)"
  by (simp add: OnAck_def)

lemma OnLostPacket_known:
  "transmissions c s = Some p \<Longrightarrow>
   OnLostPacket c s True =
     (c\<lparr>maxWindowSizeBytes := max (maxWindowSizeBytes c div 2) (minWindowSizeBytes c)\<rparr>, None)"
proof -
  have "uint32_of (math_Max (float64 (uint a)) (float64 (uint b))) = max a b" for a b :: u32
  proof -
    have "uint (uint32_of (Fin (of_int (max (uint a) (uint b))))) = max (uint a) (uint b)"
      using uint_u32_bounds [of a] uint_u32_bounds [of b] by (intro uint_uint32_of_int) (auto simp: le_max_iff_disj)
    moreover have "max (uint a) (uint b) = uint (max a b)" by (simp add: max_def word_le_def)
    ultimately show ?thesis unfolding float64_u32 math_Max.simps max_of_int by (simp only: word_uint_eq_iff)
  qed
  then show "transmissions c s = Some p \<Longrightarrow> ?thesis" by (simp add: OnLostPacket_def)
qed

lemma OnTransmit_Initial:
  assumes "transmissions c s = None" and "n \<le> BytesAvailableInWindow c"
    and "0 < n \<or> windowSizeBytes c \<le> maxWindowSizeBytes c"
  shows "OnTransmit c s Initial n =
     (c\<lparr>transmissions := (transmissions c)(s \<mapsto> \<lparr>SizeBytes = n, NumTransmissions = 1, pr_Acked = False\<rparr>),
        windowSizeBytes := windowSizeBytes c + n\<rparr>, None)"
    and "uint (windowSizeBytes c + n) = uint (windowSizeBytes c) + uint n"
    and "windowSizeBytes c + n \<le> maxWindowSizeBytes c"
proof -
  let ?w = "windowSizeBytes c" and ?M = "maxWindowSizeBytes c"
  have "uint ?w + uint n \<le> uint ?M"
  proof (cases "?w < ?M")
    case True
    then have "uint n \<le> uint (?M - ?w)" using assms(2) by (simp add: BytesAvailableInWindow_def word_le_def)
    moreover have "uint (?M - ?w) = uint ?M - uint ?w"
      using True uint_sub_lem [of ?w ?M] by (simp add: word_less_def)
    ultimately show ?thesis by linarith
  next
    case False
    then have "n = 0" using assms(2) by (simp add: BytesAvailableInWindow_def word_le_def uint_0_iff)
    with False assms(3) show ?thesis by (simp add: word_le_def)
  qed
  moreover from this show u: "uint (?w + n) = uint ?w + uint n"
    using uint_u32_bounds [of ?M] uint_add_lem [of ?w n] by simp
  ultimately show le: "?w + n \<le> ?M" by (simp add: word_le_def)
  show "OnTransmit c s Initial n =
     (c\<lparr>transmissions := (transmissions c)(s \<mapsto> \<lparr>SizeBytes = n, NumTransmissions = 1, pr_Acked = False\<rparr>),
        windowSizeBytes := windowSizeBytes c + n\<rparr>, None)"
    using assms(1) leD [OF le] by (simp add: OnTransmit_def charge_window_def Let_def)
qed

lemma OnTransmit_Retransmission:
  assumes "transmissions c s = Some p" and "NumTransmissions p \<noteq> 0"
  shows "OnTransmit c s Retransmission n =
     (c\<lparr>transmissions := (transmissions c)(s \<mapsto> p\<lparr>NumTransmissions := NumTransmissions p + 1\<rparr>)\<rparr>, None)"
  using assms by (simp add: OnTransmit_def charge_window_def)

section \<open>Histories of calls\<close>

text \<open>
  The calls a connection makes: a new packet is transmitted only within the available window; a
  retransmission happens fewer than \<open>2^32 - 1\<close> times per packet; a round trip takes at most \<open>R\<close>
  nanoseconds, and a delay is a 32-bit number of microseconds. \<open>ack\<close> also asks that the
  window stays representable: the maximal window plus one increment is below \<open>2^32\<close>.
\<close>

definition ack_in :: "duration \<Rightarrow> Ack \<Rightarrow> bool" where
  "ack_in R a \<longleftrightarrow> 0 \<le> ack_RTT a \<and> ack_RTT a \<le> R \<and> 0 \<le> ack_Delay a \<and> ack_Delay a < 4294967296000"

inductive dc_reach :: "ctrlConfig \<Rightarrow> duration \<Rightarrow> defaultController \<Rightarrow> bool"
  for config :: ctrlConfig and R :: duration where
  init: "dc_reach config R (newDefaultController config)"
| transmit: "\<lbrakk> dc_reach config R c; n \<le> BytesAvailableInWindow c;
      OnTransmit c s Initial n = (c', None) \<rbrakk> \<Longrightarrow> dc_reach config R c'"
| retransmit: "\<lbrakk> dc_reach config R c; transmissions c s = Some p; NumTransmissions p \<noteq> - 1;
      OnTransmit c s Retransmission n = (c', e) \<rbrakk> \<Longrightarrow> dc_reach config R c'"
| ack: "\<lbrakk> dc_reach config R c; ack_in R a;
      uint (maxWindowSizeBytes c) + uint (maxWindowSizeIncBytes c) < 4294967296;
      OnAck now c s a = (c', e) \<rbrakk> \<Longrightarrow> dc_reach config R c'"
| lost: "\<lbrakk> dc_reach config R c; OnLostPacket c s True = (c', e) \<rbrakk> \<Longrightarrow> dc_reach config R c'"
| timeout: "dc_reach config R c \<Longrightarrow> dc_reach config R (OnTimeout c)"

definition config_ok :: "ctrlConfig \<Rightarrow> bool" where
  "config_ok config \<longleftrightarrow> 0 < MinTimeout config \<and> MinTimeout config \<le> InitialTimeout config
     \<and> InitialTimeout config \<le> MaxTimeout config \<and> MaxTimeout config \<le> 4503599627370496"

text \<open>
  The invariant: the window counts the bytes in flight; the maximal window is at least the minimal
  one; the timeout stays between its bounds; round-trip estimates stay below those of the samples.
\<close>

definition counts_ok :: "(u16 \<rightharpoonup> packetRecord) \<Rightarrow> bool" where
  "counts_ok tr \<longleftrightarrow> (\<forall>s p. tr s = Some p \<longrightarrow> NumTransmissions p \<noteq> 0)"

definition window_inv :: "ctrlConfig \<Rightarrow> defaultController \<Rightarrow> bool" where
  "window_inv config c \<longleftrightarrow>
     uint (windowSizeBytes c) = inflight (transmissions c)
     \<and> counts_ok (transmissions c)
     \<and> minWindowSizeBytes c = 2 * MaxPacketSizeBytes config
     \<and> maxWindowSizeIncBytes c = MaxWindowSizeIncBytes config
     \<and> targetDelayMicros c = TargetDelayMicros config \<and> gain c = Gain config
     \<and> minWindowSizeBytes c \<le> maxWindowSizeBytes c
     \<and> da_inv (delayAcc c)
     \<and> (\<forall>d \<in> set (da_delays (delayAcc c)). 0 \<le> Value d \<and> Value d < 4294967296000)"

definition timer_inv :: "ctrlConfig \<Rightarrow> duration \<Rightarrow> defaultController \<Rightarrow> bool" where
  "timer_inv config R c \<longleftrightarrow>
     minTimeout c = MinTimeout config \<and> maxTimeout c = MaxTimeout config
     \<and> MinTimeout config \<le> dc_timeout c \<and> dc_timeout c \<le> MaxTimeout config
     \<and> 0 \<le> dc_rtt c \<and> dc_rtt c \<le> 2 * (R div 1000)
     \<and> 0 \<le> rttVarianceMicros c \<and> rttVarianceMicros c \<le> R div 1000"

lemma counts_ok_simps [simp]:
  "counts_ok Map.empty"
  "\<lbrakk> counts_ok tr; NumTransmissions p \<noteq> 0 \<rbrakk> \<Longrightarrow> counts_ok (tr(s \<mapsto> p))"
  by (auto simp: counts_ok_def)

lemma counts_okD: "\<lbrakk> counts_ok tr; tr s = Some p \<rbrakk> \<Longrightarrow> NumTransmissions p \<noteq> 0"
  by (auto simp: counts_ok_def)

lemma NumTransmissions_step: "(n :: u32) \<noteq> - 1 \<Longrightarrow> n + 1 \<noteq> 0"
  by (simp add: add_eq_0_iff2)

lemma da_OnAck:
  assumes "da_inv da" and "\<forall>d \<in> set (da_delays da). 0 \<le> Value d \<and> Value d < L"
    and "0 \<le> v" "v < L" and "BaseDelay now (da_Push da v t) = (da', b)"
  shows "da_inv da'" and "\<forall>d \<in> set (da_delays da'). 0 \<le> Value d \<and> Value d < L" and "0 \<le> b" "b < L"
proof -
  note spec = BaseDelay_spec [OF da_Push_inv [OF assms(1)] assms(5)]
  have "set (da_delays (da_Push da v t)) = insert \<lparr>Value = v, Deadline = t + da_window da\<rparr> (set (da_delays da))"
    using arg_cong [OF mset_da_Push [OF assms(1), of v t], of set_mset] by simp
  then have all: "\<forall>d \<in> set (da_delays (da_Push da v t)). 0 \<le> Value d \<and> Value d < L"
    using assms(2-4) by auto
  show "da_inv da'" by (rule spec)
  show "\<forall>d \<in> set (da_delays da'). 0 \<le> Value d \<and> Value d < L" using spec(4) all by blast
  show "0 \<le> b" "b < L" using spec(6) all assms(3,4) by auto
qed

lemma window_inv_OnAck:
  assumes inv: "window_inv config c" and a: "ack_in R a"
    and lim: "uint (maxWindowSizeBytes c) + uint (maxWindowSizeIncBytes c) < 4294967296"
    and ack: "OnAck now c s a = (c', e)"
  shows "window_inv config c'"
proof (cases "transmissions c s")
  case None
  with ack inv show ?thesis by (simp add: OnAck_unknown)
next
  case (Some p)
  show ?thesis
  proof (cases "pr_Acked p")
    case True
    with ack inv Some show ?thesis by (simp add: OnAck_again)
  next
    case False
    obtain da b where b: "BaseDelay now (da_Push (delayAcc c) (ack_Delay a) (ack_ReceivedAt a)) = (da, b)"
      by fastforce
    have pre: "da_inv (delayAcc c)"
      "\<forall>d \<in> set (da_delays (delayAcc c)). 0 \<le> Value d \<and> Value d < 4294967296000"
      "0 \<le> ack_Delay a" "ack_Delay a < 4294967296000"
      using inv a by (simp_all add: window_inv_def ack_in_def)
    note da = da_OnAck(1,2) [OF pre b]
    have "uint (SizeBytes p) \<le> uint (windowSizeBytes c)"
      using inflight_ge [of "transmissions c" s] inv Some False by (simp add: window_inv_def)
    then have w: "uint (windowSizeBytes c - SizeBytes p) = uint (windowSizeBytes c) - uint (SizeBytes p)"
      using uint_sub_lem [of "SizeBytes p" "windowSizeBytes c"] by simp
    let ?adj = "computeMaxWindowSizeAdjustment (targetDelayMicros c) (word_of_int (Microseconds b))
      (word_of_int (Microseconds (ack_Delay a))) (windowSizeBytes c) (SizeBytes p)
      (maxWindowSizeIncBytes c) (gain c)"
    have "minWindowSizeBytes c \<le> new_max (uint (maxWindowSizeBytes c)) (uint (minWindowSizeBytes c))
        (uint (maxWindowSizeIncBytes c)) ?adj"
      unfolding word_le_def
    proof (rule new_max_bounds(1))
      show "uint (minWindowSizeBytes c) \<le> uint (maxWindowSizeBytes c)"
        using inv unfolding window_inv_def word_le_def by blast
    qed (use lim in simp_all)
    moreover have c': "transmissions c' = (transmissions c)(s \<mapsto> p\<lparr>pr_Acked := True\<rparr>)"
      "windowSizeBytes c' = windowSizeBytes c - SizeBytes p" "delayAcc c' = da"
      "maxWindowSizeBytes c' = new_max (uint (maxWindowSizeBytes c)) (uint (minWindowSizeBytes c))
        (uint (maxWindowSizeIncBytes c)) ?adj"
      "minWindowSizeBytes c' = minWindowSizeBytes c" "maxWindowSizeIncBytes c' = maxWindowSizeIncBytes c"
      "targetDelayMicros c' = targetDelayMicros c" "gain c' = gain c"
      using OnAck_first_fields [OF Some False b] ack by simp_all
    moreover have "inflight (transmissions c') = inflight (transmissions c) - uint (SizeBytes p)"
      using Some False unfolding c' inflight_upd by simp
    ultimately show ?thesis
      using inv counts_okD [of "transmissions c", OF _ Some] da w unfolding window_inv_def c' by simp
  qed
qed

lemma window_inv_reach:
  assumes "dc_reach config R c"
  shows "window_inv config c"
  using assms
proof induction
  case init
  show ?case
    by (simp add: window_inv_def newDefaultController_def inflight_def newDelayAccumulator_inv,
        simp add: newDelayAccumulator_def)
next
  case (transmit c n s c')
  then have "transmissions c s = None" "n \<noteq> 0 \<or> windowSizeBytes c \<le> maxWindowSizeBytes c"
    by (auto simp: OnTransmit_def charge_window_def Let_def not_less split: option.splits if_splits)
  then have "transmissions c s = None" "0 < n \<or> windowSizeBytes c \<le> maxWindowSizeBytes c"
    by (simp_all add: word_gt_0)
  note t = OnTransmit_Initial [OF this(1) transmit.hyps(2) this(2)]
  with transmit \<open>transmissions c s = None\<close> show ?case
    by (auto simp: window_inv_def inflight_upd)
next
  case (retransmit c s p n c' e)
  then have n: "NumTransmissions p \<noteq> 0" by (auto simp: window_inv_def counts_okD)
  from retransmit.hyps(4) have "c' = c\<lparr>transmissions := (transmissions c)
      (s \<mapsto> p\<lparr>NumTransmissions := NumTransmissions p + 1\<rparr>)\<rparr>"
    unfolding OnTransmit_Retransmission [OF retransmit.hyps(2) n] by simp
  with retransmit.IH retransmit.hyps(2) NumTransmissions_step [OF retransmit.hyps(3)] show ?case
    by (auto simp: window_inv_def inflight_upd)
next
  case (ack c a now s c' e)
  show ?case by (rule window_inv_OnAck [OF ack.IH ack.hyps(2-4)])
next
  case (lost c s c' e)
  show ?case
  proof (cases "transmissions c s")
    case None
    with lost show ?thesis by (simp add: OnLostPacket_def)
  next
    case (Some p)
    from lost.hyps(2) have "c' = c\<lparr>maxWindowSizeBytes :=
        max (maxWindowSizeBytes c div 2) (minWindowSizeBytes c)\<rparr>"
      unfolding OnLostPacket_known [OF Some] by simp
    with lost.IH show ?thesis unfolding window_inv_def by (simp add: le_max_iff_disj)
  qed
next
  case (timeout c)
  then show ?case unfolding OnTimeout_def window_inv_def Let_def by simp
qed

lemma OnTimeout_timeout:
  assumes "\<bar>dc_timeout c * 2\<bar> \<le> 2 ^ 53" and "\<bar>maxTimeout c\<bar> \<le> 2 ^ 53"
  shows "dc_timeout (OnTimeout c) = min (dc_timeout c * 2) (maxTimeout c)"
  using assms by (simp add: OnTimeout_def Let_def int64_Min_exact)

lemma rtt_sample:
  assumes "timer_inv config R c" and "ack_in R a" and "R \<le> 2 ^ 58"
  defines "v \<equiv> max 0 (rttVarianceMicros c + computeRTTVarianceAdjustment (Microseconds (dc_rtt c))
                 (rttVarianceMicros c) (Microseconds (ack_RTT a)))"
    and "r \<equiv> max (Milliseconds (dc_rtt c) + computeRTTAdjustment (Microseconds (dc_rtt c))
                 (Microseconds (ack_RTT a))) 0"
  shows "0 \<le> v" "v \<le> R div 1000" "0 \<le> r" "r \<le> 2 * (R div 1000)"
proof -
  define b where "b = R div 1000"
  have R: "0 \<le> R" "b \<le> 2 ^ 52" "0 \<le> b" using assms(2,3) by (auto simp: ack_in_def b_def)
  have rtt: "0 \<le> dc_rtt c" "dc_rtt c \<le> 2 * b" using assms(1) by (auto simp: timer_inv_def b_def)
  have us: "0 \<le> Microseconds (dc_rtt c)" "Microseconds (dc_rtt c) \<le> b"
    using rtt by (auto simp: Microseconds_bounds)
  have p: "0 \<le> Microseconds (ack_RTT a)" "Microseconds (ack_RTT a) \<le> b"
    using assms(2) by (auto simp: ack_in_def Microseconds_bounds b_def zdiv_mono1)
  have v: "0 \<le> rttVarianceMicros c" "rttVarianceMicros c \<le> b"
    using assms(1) by (auto simp: timer_inv_def b_def)
  have "rttVarianceMicros c + computeRTTVarianceAdjustment (Microseconds (dc_rtt c))
      (rttVarianceMicros c) (Microseconds (ack_RTT a)) \<le> b"
    using computeRTTVariance_bound [OF v _ R(2)] us p by auto
  then show "v \<le> R div 1000" using R by (simp add: v_def flip: b_def)
  have "computeRTTAdjustment (Microseconds (dc_rtt c)) (Microseconds (ack_RTT a)) \<le> b"
    using computeRTT_bound [OF us(1) p us(2) R(2)] .
  moreover have "Milliseconds (dc_rtt c) \<le> b" using rtt by (auto simp: Microseconds_bounds)
  ultimately show "r \<le> 2 * (R div 1000)" using R by (simp add: r_def flip: b_def)
  show "0 \<le> v" "0 \<le> r" by (simp_all add: v_def r_def)
qed

lemma OnAck_timers:
  assumes "transmissions c s = Some p" and "\<not> pr_Acked p"
  shows "minTimeout (fst (OnAck now c s a)) = minTimeout c"
    and "maxTimeout (fst (OnAck now c s a)) = maxTimeout c"
    and "NumTransmissions p \<noteq> 1 \<Longrightarrow> dc_timeout (fst (OnAck now c s a)) = dc_timeout c
           \<and> dc_rtt (fst (OnAck now c s a)) = dc_rtt c
           \<and> rttVarianceMicros (fst (OnAck now c s a)) = rttVarianceMicros c"
    and "NumTransmissions p = 1 \<Longrightarrow>
           dc_rtt (fst (OnAck now c s a)) = max (Milliseconds (dc_rtt c)
             + computeRTTAdjustment (Microseconds (dc_rtt c)) (Microseconds (ack_RTT a))) 0
           \<and> rttVarianceMicros (fst (OnAck now c s a)) = max 0 (rttVarianceMicros c
             + computeRTTVarianceAdjustment (Microseconds (dc_rtt c)) (rttVarianceMicros c)
                 (Microseconds (ack_RTT a)))"
proof -
  obtain da b where b: "BaseDelay now (da_Push (delayAcc c) (ack_Delay a) (ack_ReceivedAt a)) = (da, b)"
    by fastforce
  note eq = OnAck_first [OF assms b]
  show "minTimeout (fst (OnAck now c s a)) = minTimeout c"
    "maxTimeout (fst (OnAck now c s a)) = maxTimeout c"
    unfolding eq Let_def fst_conv by simp_all
  show "NumTransmissions p \<noteq> 1 \<Longrightarrow> dc_timeout (fst (OnAck now c s a)) = dc_timeout c
      \<and> dc_rtt (fst (OnAck now c s a)) = dc_rtt c
      \<and> rttVarianceMicros (fst (OnAck now c s a)) = rttVarianceMicros c"
    unfolding eq Let_def fst_conv by simp
  show "NumTransmissions p = 1 \<Longrightarrow>
      dc_rtt (fst (OnAck now c s a)) = max (Milliseconds (dc_rtt c)
        + computeRTTAdjustment (Microseconds (dc_rtt c)) (Microseconds (ack_RTT a))) 0
      \<and> rttVarianceMicros (fst (OnAck now c s a)) = max 0 (rttVarianceMicros c
        + computeRTTVarianceAdjustment (Microseconds (dc_rtt c)) (rttVarianceMicros c)
            (Microseconds (ack_RTT a)))"
    unfolding eq Let_def fst_conv by simp
qed

text \<open>After a round-trip sample the timeout is the estimate, cut off at its bounds.\<close>

lemma OnAck_timeout:
  assumes inv: "timer_inv config R c" "config_ok config" "ack_in R a" "R \<le> 2 ^ 58"
    and p: "transmissions c s = Some p" "\<not> pr_Acked p" "NumTransmissions p = 1"
    and c': "c' = fst (OnAck now c s a)"
  shows "dc_timeout c' = min (max (dc_rtt c' + rttVarianceMicros c' * 4) (MinTimeout config))
                             (MaxTimeout config)"
proof -
  note s = rtt_sample [OF inv(1,3,4)]
  note t = OnAck_timers(4) [OF p(1,2,3), of now a]
  have "R div 1000 \<le> 2 ^ 58 div 1000" by (rule zdiv_mono1) (use inv in auto)
  then have R: "R div 1000 \<le> 288230376151711" by simp
  have "0 \<le> rttVarianceMicros c'" "rttVarianceMicros c' \<le> R div 1000"
    "0 \<le> dc_rtt c'" "dc_rtt c' \<le> 2 * (R div 1000)"
    unfolding c' conjunct1 [OF t] conjunct2 [OF t] by (rule s)+
  then have b: "\<bar>dc_rtt c' + rttVarianceMicros c' * 4\<bar> \<le> 2 ^ 53" using R by simp
  obtain da b where b': "BaseDelay now (da_Push (delayAcc c) (ack_Delay a) (ack_ReceivedAt a)) = (da, b)"
    by fastforce
  obtain d where d: "c' = applyTimeoutAdjustment d"
    unfolding c' OnAck_first [OF p(1,2) b'] Let_def fst_conv using p(3) by auto
  have m: "minTimeout d = MinTimeout config" "maxTimeout d = MaxTimeout config"
    "\<bar>MinTimeout config\<bar> \<le> 2 ^ 53" "\<bar>MaxTimeout config\<bar> \<le> 2 ^ 53"
    using OnAck_timers(1,2) [OF p(1,2), of now a] inv(1,2) unfolding c' [symmetric] d
    by (auto simp: timer_inv_def config_ok_def)
  have "\<bar>dc_rtt d + rttVarianceMicros d * 4\<bar> \<le> 2 ^ 53" using b unfolding d by simp
  from applyTimeout_exact [OF this] m show ?thesis unfolding d by simp
qed

lemma timer_inv_OnTransmit:
  "\<lbrakk> timer_inv config R c; OnTransmit c s tr n = (c', e) \<rbrakk> \<Longrightarrow> timer_inv config R c'"
  by (auto simp: OnTransmit_def charge_window_def Let_def timer_inv_def
      split: option.splits if_splits Transmit.splits)

lemma timer_inv_OnLost:
  "\<lbrakk> timer_inv config R c; OnLostPacket c s r = (c', e) \<rbrakk> \<Longrightarrow> timer_inv config R c'"
  by (auto simp: OnLostPacket_def timer_inv_def Let_def split: option.splits)

lemma timer_inv_OnTimeout:
  assumes "timer_inv config R c" and "config_ok config"
  shows "timer_inv config R (OnTimeout c)"
proof -
  have "dc_timeout (OnTimeout c) = min (dc_timeout c * 2) (maxTimeout c)"
    using assms by (intro OnTimeout_timeout) (auto simp: timer_inv_def config_ok_def)
  then show ?thesis
    using assms by (auto simp: timer_inv_def config_ok_def OnTimeout_def Let_def)
qed

lemma timer_inv_OnAck:
  assumes inv: "timer_inv config R c" "config_ok config" "ack_in R a" "R \<le> 2 ^ 58"
    and run: "OnAck now c s a = (c', e)"
  shows "timer_inv config R c'"
proof (cases "transmissions c s = None \<or> pr_Acked (the (transmissions c s))")
  case True
  then show ?thesis using inv run by (auto simp: OnAck_def split: option.splits)
next
  case False
  then obtain p where p: "transmissions c s = Some p" "\<not> pr_Acked p" by auto
  have c': "c' = fst (OnAck now c s a)" using run by simp
  note t = OnAck_timers [OF p, of now a]
  show ?thesis
  proof (cases "NumTransmissions p = 1")
    case True
    show ?thesis
      using OnAck_timeout [OF inv p True c'] inv(1,2) rtt_sample [OF inv(1,3,4)] t(1,2) t(4) [OF True]
      unfolding c' timer_inv_def config_ok_def by auto
  next
    case False
    then show ?thesis using t(1,2) t(3) [OF False] inv(1) unfolding c' timer_inv_def by auto
  qed
qed

lemma timer_inv_new:
  "\<lbrakk> config_ok config; 0 \<le> R \<rbrakk> \<Longrightarrow> timer_inv config R (newDefaultController config)"
  by (auto simp: timer_inv_def newDefaultController_def config_ok_def)

lemma timer_inv_reach:
  assumes "dc_reach config R c" and "config_ok config" and "0 \<le> R" "R \<le> 2 ^ 58"
  shows "timer_inv config R c"
  using assms(1)
proof induction
  case init
  show ?case using assms(2,3) by (rule timer_inv_new)
next
  case (transmit c n s c')
  then show ?case using timer_inv_OnTransmit by blast
next
  case (retransmit c s p n c' e)
  then show ?case using timer_inv_OnTransmit by blast
next
  case (ack c a now s c' e)
  then show ?case using timer_inv_OnAck assms(2,4) by blast
next
  case (lost c s c' e)
  then show ?case using timer_inv_OnLost by blast
next
  case (timeout c)
  then show ?case using timer_inv_OnTimeout assms(2) by blast
qed

section \<open>The contract of the interface\<close>

text \<open>
  What the send side relies on: \<open>sends c s\<close> is how often packet \<open>s\<close> was transmitted. While the window
  is open, a new packet that fits is accepted and takes its size from the window; the calls about a
  packet that was transmitted succeed. \<open>2^32 - 1\<close> transmissions exhaust the counter of a packet.
\<close>

locale controller =
  fixes C :: "'c Controller" and cinv :: "'c \<Rightarrow> bool" and sends :: "'c \<Rightarrow> u16 \<Rightarrow> nat"
  assumes transmit_new: "\<lbrakk> cinv c; sends c s = 0; 0 < ct_BytesAvailableInWindow C c; n \<le> ct_BytesAvailableInWindow C c;
      ct_OnTransmit C c s Initial n = (c', e) \<rbrakk> \<Longrightarrow> e = None \<and> cinv c' \<and> sends c' = (sends c)(s := 1)
        \<and> ct_BytesAvailableInWindow C c' = ct_BytesAvailableInWindow C c - n"
    and transmit_again: "\<lbrakk> cinv c; 0 < sends c s; sends c s < 4294967295;
      ct_OnTransmit C c s Retransmission n = (c', e) \<rbrakk>
        \<Longrightarrow> e = None \<and> cinv c' \<and> sends c' = (sends c)(s := Suc (sends c s))"
    and ack_sent: "\<lbrakk> cinv c; 0 < sends c s; ct_OnAck C c s a = (c', e) \<rbrakk>
        \<Longrightarrow> e = None \<and> cinv c' \<and> sends c' = sends c"
    and lost_sent: "\<lbrakk> cinv c; 0 < sends c s; ct_OnLostPacket C c s r = (c', e) \<rbrakk>
        \<Longrightarrow> e = None \<and> cinv c' \<and> sends c' = sends c"
    and timeout_sent: "cinv c \<Longrightarrow> cinv (ct_OnTimeout C c) \<and> sends (ct_OnTimeout C c) = sends c"

definition dc_sends :: "defaultController \<Rightarrow> u16 \<Rightarrow> nat" where
  "dc_sends c s = (case transmissions c s of None \<Rightarrow> 0 | Some p \<Rightarrow> unat (NumTransmissions p))"

definition dc_counts :: "defaultController \<Rightarrow> bool" where
  "dc_counts c \<longleftrightarrow> counts_ok (transmissions c)"

lemma dc_sends_0: "dc_counts c \<Longrightarrow> dc_sends c s = 0 \<longleftrightarrow> transmissions c s = None"
  by (auto simp: dc_sends_def dc_counts_def unat_eq_zero dest: counts_okD split: option.splits)

lemma dc_sends_pos: "0 < dc_sends c s \<Longrightarrow> \<exists>p. transmissions c s = Some p \<and> NumTransmissions p \<noteq> 0"
  by (auto simp: dc_sends_def unat_gt_0 split: option.splits)

lemma dc_sends_upd:
  "transmissions c' = (transmissions c)(s \<mapsto> p) \<Longrightarrow> dc_sends c' = (dc_sends c)(s := unat (NumTransmissions p))"
  by (auto simp: dc_sends_def)

lemma dc_OnAck_sends:
  assumes "dc_counts c" and "0 < dc_sends c s" and "OnAck now c s a = (c', e)"
  shows "e = None \<and> dc_counts c' \<and> dc_sends c' = dc_sends c"
proof -
  obtain p where p: "transmissions c s = Some p" "NumTransmissions p \<noteq> 0"
    using dc_sends_pos [OF assms(2)] by blast
  show ?thesis
  proof (cases "pr_Acked p")
    case True
    with assms p show ?thesis by (simp add: OnAck_again)
  next
    case False
    obtain da b where b: "BaseDelay now (da_Push (delayAcc c) (ack_Delay a) (ack_ReceivedAt a)) = (da, b)"
      by fastforce
    have e: "e = None" using assms(3) unfolding OnAck_first [OF p(1) False b] Let_def by simp
    have t: "transmissions c' = (transmissions c)(s \<mapsto> p\<lparr>pr_Acked := True\<rparr>)"
      using OnAck_first_fields(1) [OF p(1) False b] assms(3) by simp
    show ?thesis
      using e dc_sends_upd [OF t] assms(1) p by (auto simp: dc_counts_def t dc_sends_def)
  qed
qed

interpretation ledbat: controller "default_Controller clk" dc_counts dc_sends
proof (unfold_locales, goal_cases)
  case (1 c s n c' e)
  have t: "transmissions c s = None" using 1 by (simp add: dc_sends_0)
  have "OnTransmit c s Initial n = (c', e)" "n \<le> BytesAvailableInWindow c"
    "windowSizeBytes c \<le> maxWindowSizeBytes c"
    using 1 by (auto simp: default_Controller_def BytesAvailableInWindow_def split: if_splits)
  with OnTransmit_Initial(1,3) [OF t, of n] 1 show ?case
    by (auto simp: dc_counts_def dc_sends_def default_Controller_def BytesAvailableInWindow_def)
      (metis add_diff_cancel_left')
next
  case (2 c s n c' e)
  obtain p where p: "transmissions c s = Some p" "NumTransmissions p \<noteq> 0"
    using dc_sends_pos [OF 2(2)] by blast
  have "OnTransmit c s Retransmission n = (c', e)" using 2 by (simp add: default_Controller_def)
  then have c': "c' = c\<lparr>transmissions := (transmissions c)
      (s \<mapsto> p\<lparr>NumTransmissions := NumTransmissions p + 1\<rparr>)\<rparr>" "e = None"
    unfolding OnTransmit_Retransmission [OF p] by simp_all
  have n: "unat (NumTransmissions p) < 4294967295" using 2(3) p by (simp add: dc_sends_def)
  then have "unat (NumTransmissions p + 1) = Suc (unat (NumTransmissions p))"
    by (simp add: unat_plus_if')
  moreover from this have "NumTransmissions p + 1 \<noteq> 0" by (metis unat_0 nat.distinct(1))
  ultimately show ?case
    using 2(1) p dc_sends_upd [of c' c s "p\<lparr>NumTransmissions := NumTransmissions p + 1\<rparr>"]
    by (simp add: c' dc_counts_def dc_sends_def)
next
  case (3 c s a c' e)
  then have "OnAck (clk s a) c s a = (c', e)" by (simp add: default_Controller_def)
  with 3 show ?case by (intro dc_OnAck_sends)
next
  case (4 c s r c' e)
  then obtain p where "transmissions c s = Some p" using dc_sends_pos by blast
  with 4 show ?case
    by (auto simp: default_Controller_def OnLostPacket_def Let_def dc_counts_def dc_sends_def)
next
  case (5 c)
  then show ?case
    by (auto simp: default_Controller_def OnTimeout_def Let_def dc_counts_def dc_sends_def)
qed

text \<open>
  \<open>ack_keeps\<close>: a property of the controller's state that its calls for acknowledgements and losses
  keep, when the acknowledgements are \<open>fair\<close>.

  A connection puts its packets on a timer wheel, which cannot take a negative delay, so it also
  relies on the timeout never being negative. \<open>timed\<close> holds of a controller whose timers are in range;
  a \<open>fair\<close> acknowledgement is one whose round trip took at most \<open>2^58\<close> nanoseconds, nine years.
\<close>

locale ack_keeps =
  fixes C :: "'c Controller" and kept :: "'c \<Rightarrow> bool" and fair :: "Ack \<Rightarrow> bool"
  assumes kept_ack: "\<lbrakk> kept c; fair a; ct_OnAck C c s a = (c', e) \<rbrakk> \<Longrightarrow> kept c'"
    and kept_lost: "\<lbrakk> kept c; ct_OnLostPacket C c s r = (c', e) \<rbrakk> \<Longrightarrow> kept c'"

locale timed_controller = ack_keeps C timed fair
  for C :: "'c Controller" and timed :: "'c \<Rightarrow> bool" and fair :: "Ack \<Rightarrow> bool" +
  assumes timed_transmit: "\<lbrakk> timed c; ct_OnTransmit C c s t n = (c', e) \<rbrakk> \<Longrightarrow> timed c'"
    and timed_timeout: "timed c \<Longrightarrow> timed (ct_OnTimeout C c)"
    and timeout_nonneg: "timed c \<Longrightarrow> 0 \<le> ct_Timeout C c"

lemma dc_sends_OnAck: "OnAck now c s a = (c', e) \<Longrightarrow> dc_sends c' = dc_sends c"
proof (cases "transmissions c s = None \<or> pr_Acked (the (transmissions c s))")
  case True
  then show "OnAck now c s a = (c', e) \<Longrightarrow> ?thesis" by (auto simp: OnAck_def split: option.splits)
next
  case False
  then obtain p where p: "transmissions c s = Some p" "\<not> pr_Acked p" by auto
  obtain da b where b: "BaseDelay now (da_Push (delayAcc c) (ack_Delay a) (ack_ReceivedAt a)) = (da, b)"
    by fastforce
  show "OnAck now c s a = (c', e) \<Longrightarrow> ?thesis"
    using OnAck_first_fields(1) [OF p b] p dc_sends_upd [of c' c s "p\<lparr>pr_Acked := True\<rparr>"]
    by (auto simp: dc_sends_def)
qed

interpretation ledbat_sends: ack_keeps "default_Controller clk" "\<lambda>c. dc_sends c = f" "\<lambda>_. True"
proof (unfold_locales, goal_cases)
  case (1 c a s c' e)
  then show ?case using dc_sends_OnAck by (simp add: default_Controller_def)
next
  case (2 c s r c' e)
  then have "transmissions c' = transmissions c"
    by (auto simp: default_Controller_def OnLostPacket_def Let_def split: option.splits)
  with 2 show ?case by (simp add: dc_sends_def fun_eq_iff)
qed

definition dc_timed :: "defaultController \<Rightarrow> bool" where
  "dc_timed c \<longleftrightarrow> (\<exists>config. config_ok config \<and> timer_inv config (2 ^ 58) c)"

interpretation ledbat_timers: timed_controller "default_Controller clk" dc_timed "ack_in (2 ^ 58)"
proof (unfold_locales, goal_cases)
  case (1 c a s c' e)
  then show ?case using timer_inv_OnAck unfolding dc_timed_def default_Controller_def by fastforce
next
  case (2 c s r c' e)
  then show ?case using timer_inv_OnLost unfolding dc_timed_def default_Controller_def by fastforce
next
  case (3 c s t n c' e)
  then show ?case using timer_inv_OnTransmit unfolding dc_timed_def default_Controller_def by fastforce
next
  case (4 c)
  then show ?case using timer_inv_OnTimeout unfolding dc_timed_def default_Controller_def by fastforce
next
  case (5 c)
  then show ?case
    by (auto simp: dc_timed_def default_Controller_def Timeout_def timer_inv_def config_ok_def)
qed

end
