(* ===== verification/Sent_Packets.thy ===== *)
theory Sent_Packets
  imports Circular_Range Packet BTree_Spec Congestion_Inv
begin

text \<open>
  The record of sent packets of \<^verbatim>\<open>sent_packet.go\<close>: sequence numbers, acknowledgements, loss
  detection. The controller behind the interface \<open>Controller\<close> and the tree of lost sequence numbers
  are parameters: \<open>C\<close> and \<open>B\<close>. The pointers in \<open>packets\<close> are not shared, so the slice is a list of
  records. An index out of range, an out-of-order transmission and an error of the controller on
  a transmission panic: \<^const>\<open>None\<close>.
\<close>

definition LossThreshold :: nat where "LossThreshold = 3"

record LostPacket =
  lp_SeqNum :: u16
  lp_PacketType :: PacketType
  lp_Data :: bytes

record sentPacket =
  sent_seqNum :: u16
  sent_packetType :: PacketType
  sent_data :: bytes
  transmission :: time
  retransmission :: time
  acks :: "time list"

definition sent_rtt :: "sentPacket \<Rightarrow> time \<Rightarrow> duration" where
  "sent_rtt s now =
     (let lastTransmission = (if retransmission s = transmission s then transmission s
                              else retransmission s)
      in now - lastTransmission)"

text \<open>The method \<open>Remove\<close> of a list of sequence numbers; \<open>pre\<close> is \<open>l[:i]\<close>.\<close>

fun remove_loop :: "u16 \<Rightarrow> u16 list \<Rightarrow> u16 list \<Rightarrow> u16 list" where
  "remove_loop seq pre [] = []"
| "remove_loop seq pre (seqNum # rest) =
     (if seqNum = seq then pre @ rest else remove_loop seq (pre @ [seqNum]) rest)"

definition LostPacketSeqNums_Remove :: "u16 list \<Rightarrow> u16 \<Rightarrow> u16 list" where
  "LostPacketSeqNums_Remove l seq = remove_loop seq [] l"

record ('t, 'c) sentPackets =
  sp_packets :: "sentPacket list"
  sp_initSeqNum :: u16
  sp_lostPackets :: 't
  sp_congestionCtrl :: 'c

definition newSentPackets :: "('t, u16) BTree \<Rightarrow> u16 \<Rightarrow> 'c \<Rightarrow> ('t, 'c) sentPackets" where
  "newSentPackets B initSeqNum congestionCtrl =
     \<lparr>sp_packets = [], sp_initSeqNum = initSeqNum, sp_lostPackets = bt_New B,
      sp_congestionCtrl = congestionCtrl\<rparr>"

definition sp_OnTimeout :: "'c Controller \<Rightarrow> ('t, 'c) sentPackets \<Rightarrow> ('t, 'c) sentPackets" where
  "sp_OnTimeout C s = s\<lparr>sp_congestionCtrl := ct_OnTimeout C (sp_congestionCtrl s)\<rparr>"

definition NextSeqNum :: "('t, 'c) sentPackets \<Rightarrow> u16" where
  "NextSeqNum s = sp_initSeqNum s + of_nat (length (sp_packets s)) + 1"

definition SeqNumRange :: "('t, 'c) sentPackets \<Rightarrow> circularRangeInclusive" where
  "SeqNumRange s =
     (let en = NextSeqNum s - 1 in newCircularRangeInclusive (sp_initSeqNum s) en)"

definition sp_Timeout :: "'c Controller \<Rightarrow> ('t, 'c) sentPackets \<Rightarrow> duration" where
  "sp_Timeout C s = ct_Timeout C (sp_congestionCtrl s)"

definition Window :: "'c Controller \<Rightarrow> ('t, 'c) sentPackets \<Rightarrow> u32" where
  "Window C s = ct_BytesAvailableInWindow C (sp_congestionCtrl s)"

definition SeqNumIndex :: "('t, 'c) sentPackets \<Rightarrow> u16 \<Rightarrow> nat" where
  "SeqNumIndex s seqNum =
     (if seqNum > sp_initSeqNum s then unat (seqNum - sp_initSeqNum s - 1)
      else unat (65535 - sp_initSeqNum s + seqNum))"

fun last_ack_loop :: "sentPacket list \<Rightarrow> u16 \<Rightarrow> bool \<Rightarrow> u16 \<times> bool" where
  "last_ack_loop [] num none = (num, none)"
| "last_ack_loop (packetInst # rest) num none =
     (if acks packetInst \<noteq> [] then last_ack_loop rest (sent_seqNum packetInst) False
      else (num, none))"

definition LastAckNum :: "('t, 'c) sentPackets \<Rightarrow> u16 \<times> bool" where
  "LastAckNum s =
     (if sp_packets s = [] then (0, True) else last_ack_loop (sp_packets s) 0 True)"

definition sp_AckNum :: "('t, 'c) sentPackets \<Rightarrow> u16" where
  "sp_AckNum s = (let (num, isNone) = LastAckNum s in if isNone then 0 else num)"

definition FirstUnackedSeqNum :: "('t, 'c) sentPackets \<Rightarrow> goerr + u16" where
  "FirstUnackedSeqNum s =
     (if sp_packets s = [] then Inl ErrNoneAckNum
      else
        let (lastAckNum, isNone) = LastAckNum s in
        if isNone then Inr (sp_initSeqNum s + 1)
        else if sent_seqNum (sp_packets s ! (length (sp_packets s) - 1)) = lastAckNum
        then Inl ErrNoneAckNum
        else Inr (lastAckNum + 1))"

definition HasUnackedPackets :: "('t, 'c) sentPackets \<Rightarrow> bool" where
  "HasUnackedPackets s = (case FirstUnackedSeqNum s of Inl _ \<Rightarrow> False | Inr _ \<Rightarrow> True)"

definition HasLostPackets :: "('t, u16) BTree \<Rightarrow> ('t, 'c) sentPackets \<Rightarrow> bool" where
  "HasLostPackets B s \<longleftrightarrow> bt_Len B (sp_lostPackets s) \<noteq> 0"

definition LostPackets :: "('t, u16) BTree \<Rightarrow> ('t, 'c) sentPackets \<Rightarrow> LostPacket list go" where
  "LostPackets B s =
     those (map (\<lambda>seqNum.
       let index = SeqNumIndex s seqNum in
       if index < length (sp_packets s) then
         let packetInst = sp_packets s ! index
         in Some \<lparr>lp_SeqNum = sent_seqNum packetInst, lp_PacketType = sent_packetType packetInst,
                  lp_Data = sent_data packetInst\<rparr>
       else None) (bt_Ascend B (sp_lostPackets s)))"

definition sp_OnTransmit ::
  "'c Controller \<Rightarrow> ('t, 'c) sentPackets \<Rightarrow> u16 \<Rightarrow> PacketType \<Rightarrow> bytes \<Rightarrow> u32 \<Rightarrow> time
     \<Rightarrow> ('t, 'c) sentPackets go" where
  "sp_OnTransmit C s seqNum packetType data dataLen now =
     (let index = SeqNumIndex s seqNum;
          isRetransmission = index < length (sp_packets s)
      in if index > length (sp_packets s) then None
      else if \<not> isRetransmission \<and> dataLen > Window C s then None
      else
        let s' = (if index < length (sp_packets s)
                  then s\<lparr>sp_packets := (sp_packets s)
                           [index := (sp_packets s ! index)\<lparr>retransmission := now\<rparr>]\<rparr>
                  else s\<lparr>sp_packets := sp_packets s @
                           [\<lparr>sent_seqNum = seqNum, sent_packetType = packetType, sent_data = data,
                             transmission = now, retransmission = now, acks = []\<rparr>]\<rparr>);
            transmit = (if isRetransmission then Retransmission else Initial);
            (ctrl, err) = ct_OnTransmit C (sp_congestionCtrl s') seqNum transmit dataLen
        in case err of
             Some _ \<Rightarrow> None
           | None \<Rightarrow> Some (s'\<lparr>sp_congestionCtrl := ctrl\<rparr>))"

definition sp_Ack ::
  "('t, u16) BTree \<Rightarrow> 'c Controller \<Rightarrow> duration \<Rightarrow> time \<Rightarrow> ('t, 'c) sentPackets \<Rightarrow> u16
     \<Rightarrow> (('t, 'c) sentPackets \<times> goerr option) go" where
  "sp_Ack B C delay now s seqNum =
     (let index = SeqNumIndex s seqNum in
      if index \<ge> length (sp_packets s) then None
      else
        let packetInst = sp_packets s ! index;
            ack = \<lparr>ack_Delay = delay, ack_RTT = sent_rtt packetInst now, ack_ReceivedAt = now\<rparr>;
            (ctrl, err) = ct_OnAck C (sp_congestionCtrl s) (sent_seqNum packetInst) ack;
            s' = s\<lparr>sp_congestionCtrl := ctrl\<rparr>
        in case err of
             Some _ \<Rightarrow> Some (s', err)
           | None \<Rightarrow>
             if length (acks packetInst) = 0
             then Some (s'\<lparr>sp_packets := (sp_packets s')[index := packetInst\<lparr>acks := acks packetInst @ [now]\<rparr>],
                           sp_lostPackets := bt_Delete B (sent_seqNum packetInst) (sp_lostPackets s')\<rparr>, None)
             else Some (s', None))"

text \<open>The loop over the flags of a selective acknowledgement.\<close>

fun sp_sack_loop ::
  "('t, u16) BTree \<Rightarrow> 'c Controller \<Rightarrow> duration \<Rightarrow> time \<Rightarrow> circularRangeInclusive
     \<Rightarrow> ('t, 'c) sentPackets \<Rightarrow> u16 \<Rightarrow> bool list \<Rightarrow> (('t, 'c) sentPackets \<times> goerr option) go" where
  "sp_sack_loop B C delay now seqRange s sackNum [] = Some (s, None)"
| "sp_sack_loop B C delay now seqRange s sackNum (ack # rest) =
     (if \<not> Contains seqRange sackNum then Some (s, None)
      else if ack then do {
        (s', err) \<leftarrow> sp_Ack B C delay now s sackNum;
        (case err of Some _ \<Rightarrow> Some (s', err)
         | None \<Rightarrow> sp_sack_loop B C delay now seqRange s' (sackNum + 1) rest)
      }
      else sp_sack_loop B C delay now seqRange s (sackNum + 1) rest)"

definition OnSelectiveAck ::
  "('t, u16) BTree \<Rightarrow> 'c Controller \<Rightarrow> duration \<Rightarrow> time \<Rightarrow> ('t, 'c) sentPackets \<Rightarrow> u16 \<Rightarrow> SelectiveAck
     \<Rightarrow> (('t, 'c) sentPackets \<times> goerr option) go" where
  "OnSelectiveAck B C delay now s ackNum selectiveAck = do {
     (s', err) \<leftarrow> sp_Ack B C delay now s ackNum;
     (case err of Some _ \<Rightarrow> Some (s', err)
      | None \<Rightarrow> sp_sack_loop B C delay now (SeqNumRange s') s' (ackNum + 2) (Acked selectiveAck))
   }"

text \<open>The loop of \<open>DetectLostPackets\<close>, over the packets in reverse order.\<close>

fun detect_loop :: "sentPacket list \<Rightarrow> nat \<Rightarrow> u16 list \<Rightarrow> u16 list" where
  "detect_loop [] ackd lost = lost"
| "detect_loop (packetInst # rest) ackd lost =
     (let lost' = (if length (acks packetInst) = 0 \<and> ackd \<ge> LossThreshold
                   then lost @ [sent_seqNum packetInst] else lost);
          ackd' = (if length (acks packetInst) > 0 then ackd + 1 else ackd)
      in detect_loop rest ackd' lost')"

definition DetectLostPackets :: "('t, 'c) sentPackets \<Rightarrow> u16 \<Rightarrow> u16 list go" where
  "DetectLostPackets s firstUnacked =
     (let startIndex = SeqNumIndex s firstUnacked in
      if startIndex > length (sp_packets s) then None
      else Some (detect_loop (rev (drop startIndex (sp_packets s))) 0 []))"

fun sp_ack_each ::
  "('t, u16) BTree \<Rightarrow> 'c Controller \<Rightarrow> duration \<Rightarrow> time \<Rightarrow> ('t, 'c) sentPackets \<Rightarrow> u16 list
     \<Rightarrow> (('t, 'c) sentPackets \<times> goerr option) go" where
  "sp_ack_each B C delay now s [] = Some (s, None)"
| "sp_ack_each B C delay now s (seqNum # rest) = do {
     (s', err) \<leftarrow> sp_Ack B C delay now s seqNum;
     (case err of Some _ \<Rightarrow> Some (s', err) | None \<Rightarrow> sp_ack_each B C delay now s' rest)
   }"

text \<open>The loop ranges over a slice taken before it; \<open>Ack\<close> never changes a \<open>seqNum\<close>.\<close>

definition AckPriorUnacked ::
  "('t, u16) BTree \<Rightarrow> 'c Controller \<Rightarrow> duration \<Rightarrow> time \<Rightarrow> ('t, 'c) sentPackets \<Rightarrow> u16 \<Rightarrow> u16
     \<Rightarrow> (('t, 'c) sentPackets \<times> goerr option) go" where
  "AckPriorUnacked B C delay now s seqNum firstUnacked =
     (let start = SeqNumIndex s firstUnacked; en = SeqNumIndex s seqNum in
      if start \<ge> en then Some (s, None)
      else do {
        prior \<leftarrow> go_slice (int start) (int en) (sp_packets s);
        sp_ack_each B C delay now s (map sent_seqNum prior)
      })"

definition OnLost ::
  "'c Controller \<Rightarrow> ('t, 'c) sentPackets \<Rightarrow> u16 \<Rightarrow> bool \<Rightarrow> ('t, 'c) sentPackets \<times> goerr option" where
  "OnLost C s seqNum retransmitting =
     (if \<not> Contains (SeqNumRange s) seqNum then (s, Some ErrCannotFindLostPacket)
      else
        let (ctrl, err) = ct_OnLostPacket C (sp_congestionCtrl s) seqNum retransmitting
        in (s\<lparr>sp_congestionCtrl := ctrl\<rparr>,
            if err \<noteq> None then Some ErrSentPacketMarkLost else None))"

definition mark_lost ::
  "('t, u16) BTree \<Rightarrow> 'c Controller \<Rightarrow> u16 \<Rightarrow> ('t, 'c) sentPackets \<Rightarrow> ('t, 'c) sentPackets" where
  "mark_lost B C seqNum s =
     fst (OnLost C (s\<lparr>sp_lostPackets := bt_ReplaceOrInsert B seqNum (sp_lostPackets s)\<rparr>) seqNum True)"

definition OnAckNum ::
  "('t, u16) BTree \<Rightarrow> 'c Controller \<Rightarrow> duration \<Rightarrow> time \<Rightarrow> ('t, 'c) sentPackets \<Rightarrow> u16
     \<Rightarrow> SelectiveAck option \<Rightarrow> (('t, 'c) sentPackets \<times> goerr option) go" where
  "OnAckNum B C delay now s ackNum selectiveAck = do {
     (s, err) \<leftarrow> (case selectiveAck of
                     Some sack \<Rightarrow> OnSelectiveAck B C delay now s ackNum sack
                   | None \<Rightarrow> sp_Ack B C delay now s ackNum);
     (case err of Some _ \<Rightarrow> Some (s, err)
      | None \<Rightarrow>
        (case FirstUnackedSeqNum s of
           Inl e \<Rightarrow> Some (s, Some e)
         | Inr firstUnacked \<Rightarrow> do {
             (s, err) \<leftarrow> AckPriorUnacked B C delay now s ackNum firstUnacked;
             (case err of Some _ \<Rightarrow> Some (s, err)
              | None \<Rightarrow> do {
                  losts \<leftarrow> DetectLostPackets s firstUnacked;
                  Some (fold (mark_lost B C) losts s, None)
                })
           }))
   }"

text \<open>The sequence numbers a selective acknowledgement names.\<close>

definition selected_acks :: "u16 \<Rightarrow> SelectiveAck \<Rightarrow> u16 list" where
  "selected_acks ackNum sack =
     map (\<lambda>(i, _). ackNum + 2 + of_nat i) (filter snd (enumerate 0 (Acked sack)))"

text \<open>\<open>onAck\<close>, from its range check on; the ranges are those of the first and the second check.\<close>

definition onAck ::
  "('t, u16) BTree \<Rightarrow> 'c Controller \<Rightarrow> ('t, 'c) sentPackets \<Rightarrow> u16 \<Rightarrow> SelectiveAck option \<Rightarrow> duration \<Rightarrow> time
     \<Rightarrow> (('t, 'c) sentPackets \<times> (goerr + (circularRangeInclusive \<times> u16 list))) go" where
  "onAck B C s ackNum selectiveAck delay now =
     (let seqRange = SeqNumRange s;
          seqRange' = (if Contains seqRange ackNum then Some seqRange
                       else if length (sp_packets s) \<noteq> 0 \<and> cr_end seqRange = cr_start seqRange
                       then let r = newCircularRangeInclusive (cr_start seqRange) (cr_end seqRange - 1)
                            in if Contains r ackNum then Some r else None
                       else None)
      in case seqRange' of
           None \<Rightarrow> Some (s, Inl ErrInvalidAckNum)
         | Some seqRange \<Rightarrow> do {
             (s, err) \<leftarrow> (if ackNum \<noteq> Start seqRange
                             then OnAckNum B C delay now s ackNum selectiveAck else Some (s, None));
             (case err of
                Some e \<Rightarrow> Some (s, Inl e)
              | None \<Rightarrow>
                let fullAcked = newCircularRangeInclusive (Start seqRange) ackNum
                in Some (s, Inr (fullAcked,
                     case selectiveAck of None \<Rightarrow> [] | Some sack \<Rightarrow> selected_acks ackNum sack)))
           })"

end
