(* ===== verification/Sent_Packets_Inv.thy ===== *)
theory Sent_Packets_Inv
  imports Sent_Packets
begin

text \<open>
  The invariant of the sent packets and what each operation does in terms of indices: which
  packets are acknowledged, and which sequence numbers are in the tree of lost packets. The
  lemmas rest on the contracts of the tree and of the controller, joined in the locale \<open>send_side\<close>.
\<close>

section \<open>Sequence numbers and indices\<close>

definition seq_no :: "u16 \<Rightarrow> nat \<Rightarrow> u16" where
  "seq_no init i = init + 1 + of_nat i"

abbreviation seq_at :: "('t, 'c) sentPackets \<Rightarrow> nat \<Rightarrow> u16" where
  "seq_at s \<equiv> seq_no (sp_initSeqNum s)"

lemma SeqNumIndex_eq: "SeqNumIndex s x = unat (x - sp_initSeqNum s - 1)"
proof (cases "x > sp_initSeqNum s")
  case False
  have "(65535 :: u16) = - 1" by simp
  then have "65535 - sp_initSeqNum s + x = x - sp_initSeqNum s - 1"
    by (simp only:) (simp add: algebra_simps)
  with False show ?thesis by (simp only: SeqNumIndex_def if_False)
qed (simp add: SeqNumIndex_def)

lemma SeqNumIndex_seq_at: "i < 65536 \<Longrightarrow> SeqNumIndex s (seq_at s i) = i"
  by (simp add: SeqNumIndex_eq seq_no_def)

lemma seq_at_inj: "\<lbrakk> seq_at s i = seq_at s j; i < 65536; j < 65536 \<rbrakk> \<Longrightarrow> i = j"
  using SeqNumIndex_seq_at by metis

lemma NextSeqNum_eq: "NextSeqNum s = seq_at s (length (sp_packets s))"
  by (simp add: NextSeqNum_def seq_no_def)

lemma Contains_SeqNumRange:
  assumes "length (sp_packets s) < 65536"
  shows "Contains (SeqNumRange s) x \<longleftrightarrow> unat (x - sp_initSeqNum s) \<le> length (sp_packets s)"
proof -
  have "NextSeqNum s - 1 - sp_initSeqNum s = of_nat (length (sp_packets s))"
    by (simp add: NextSeqNum_def)
  with assms show ?thesis
    by (simp add: SeqNumRange_def newCircularRangeInclusive_def Contains_circular)
qed

lemma unat_seq_at: "k < 65535 \<Longrightarrow> unat (seq_at s k - sp_initSeqNum s) = Suc k"
  using unat_of_nat_u16_small [of "Suc k"] by (simp add: seq_no_def)

section \<open>Acknowledging a set of packets\<close>

definition acked_ix :: "('t, 'c) sentPackets \<Rightarrow> nat set" where
  "acked_ix s = {i. i < length (sp_packets s) \<and> acks (sp_packets s ! i) \<noteq> []}"

definition ack_at :: "time \<Rightarrow> nat set \<Rightarrow> sentPacket list \<Rightarrow> sentPacket list" where
  "ack_at now I ps =
     map (\<lambda>i. if i \<in> I \<and> acks (ps ! i) = [] then (ps ! i)\<lparr>acks := [now]\<rparr> else ps ! i) [0..<length ps]"

lemma length_ack_at [simp]: "length (ack_at now I ps) = length ps"
  by (simp add: ack_at_def)

lemma ack_at_nth:
  "i < length ps \<Longrightarrow> ack_at now I ps ! i
     = (if i \<in> I \<and> acks (ps ! i) = [] then (ps ! i)\<lparr>acks := [now]\<rparr> else ps ! i)"
  by (simp add: ack_at_def)

lemma ack_at_empty [simp]: "ack_at now {} ps = ps"
  by (rule nth_equalityI) (simp_all add: ack_at_nth)

lemma ack_at_Un: "ack_at now J (ack_at now I ps) = ack_at now (I \<union> J) ps"
  by (rule nth_equalityI) (auto simp: ack_at_nth)

lemma ack_at_insert:
  "i < length ps \<Longrightarrow> ack_at now {i} ps =
     (if acks (ps ! i) = [] then ps[i := (ps ! i)\<lparr>acks := [now]\<rparr>] else ps)"
  by (rule nth_equalityI) (auto simp: ack_at_nth nth_list_update)

lemma ack_at_fields:
  "i < length ps \<Longrightarrow> sent_seqNum (ack_at now I ps ! i) = sent_seqNum (ps ! i)"
  "i < length ps \<Longrightarrow> acks (ack_at now I ps ! i) = [] \<longleftrightarrow> i \<notin> I \<and> acks (ps ! i) = []"
  by (auto simp: ack_at_nth)

section \<open>The invariant\<close>

locale send_side = btree B "(<)" invar + controller C cinv sends
  for B :: "('t, u16) BTree" and invar :: "'t \<Rightarrow> bool"
    and C :: "'c Controller" and cinv :: "'c \<Rightarrow> bool" and sends :: "'c \<Rightarrow> u16 \<Rightarrow> nat"

definition lost_set :: "('t, u16) BTree \<Rightarrow> ('t, 'c) sentPackets \<Rightarrow> u16 set" where
  "lost_set B s = set (bt_Ascend B (sp_lostPackets s))"

text \<open>
  Packet \<open>i\<close> has the number \<open>initSeqNum + 1 + i\<close>; the lost packets are sent and not acknowledged; the
  controller knows exactly the packets sent. At most 65533 packets: beyond, numbers repeat.
\<close>

definition sp_inv ::
  "('t, u16) BTree \<Rightarrow> ('t \<Rightarrow> bool) \<Rightarrow> ('c \<Rightarrow> bool) \<Rightarrow> ('c \<Rightarrow> u16 \<Rightarrow> nat) \<Rightarrow> ('t, 'c) sentPackets \<Rightarrow> bool"
where
  "sp_inv B invar cinv sends s \<longleftrightarrow>
     length (sp_packets s) \<le> 65533
     \<and> (\<forall>i < length (sp_packets s). sent_seqNum (sp_packets s ! i) = seq_at s i)
     \<and> invar (sp_lostPackets s)
     \<and> lost_set B s \<subseteq> seq_at s ` ({..<length (sp_packets s)} - acked_ix s)
     \<and> cinv (sp_congestionCtrl s)
     \<and> (\<forall>x. 0 < sends (sp_congestionCtrl s) x \<longleftrightarrow> x \<in> seq_at s ` {..<length (sp_packets s)})"

text \<open>\<open>acked_by now I s s'\<close>: the step from \<open>s\<close> to \<open>s'\<close> acknowledged exactly the packets \<open>I\<close>.\<close>

definition acked_by ::
  "('t, u16) BTree \<Rightarrow> time \<Rightarrow> nat set \<Rightarrow> ('t, 'c) sentPackets \<Rightarrow> ('t, 'c) sentPackets \<Rightarrow> bool" where
  "acked_by B now I s s' \<longleftrightarrow>
     I \<subseteq> {..<length (sp_packets s)} \<and> sp_initSeqNum s' = sp_initSeqNum s
     \<and> sp_packets s' = ack_at now I (sp_packets s)
     \<and> lost_set B s' = lost_set B s - seq_at s ` I"

lemma acked_by_refl: "acked_by B now {} s s"
  by (simp add: acked_by_def)

lemma acked_by_trans:
  "\<lbrakk> acked_by B now I s s'; acked_by B now J s' s'' \<rbrakk> \<Longrightarrow> acked_by B now (I \<union> J) s s''"
  by (auto simp: acked_by_def ack_at_Un)

lemma acked_by_ix: "acked_by B now I s s' \<Longrightarrow> acked_ix s' = acked_ix s \<union> I"
  by (auto simp: acked_by_def acked_ix_def ack_at_fields subset_iff)

lemma acked_by_frame:
  assumes "acked_by B now I s s'"
  shows "length (sp_packets s') = length (sp_packets s)" "seq_at s' = seq_at s"
  using assms by (auto simp: acked_by_def)

lemma acked_by_data:
  "acked_by B now I s s' \<Longrightarrow> map sent_data (sp_packets s') = map sent_data (sp_packets s)"
  unfolding acked_by_def by (intro nth_equalityI) (auto simp: ack_at_nth)

context send_side
begin

abbreviation sinv :: "('t, 'c) sentPackets \<Rightarrow> bool" where
  "sinv \<equiv> sp_inv B invar cinv sends"

lemma Ack_ok:
  assumes "sinv s" and "i < length (sp_packets s)"
  shows "\<exists>s'. sp_Ack B C delay now s (seq_at s i) = Some (s', None) \<and> sinv s' \<and> acked_by B now {i} s s'"
proof -
  let ?p = "sp_packets s ! i"
  have ix: "SeqNumIndex s (seq_at s i) = i" using assms by (intro SeqNumIndex_seq_at) (auto simp: sp_inv_def)
  have seq: "sent_seqNum ?p = seq_at s i" using assms by (simp add: sp_inv_def)
  obtain c' e where c: "ct_OnAck C (sp_congestionCtrl s) (seq_at s i)
      \<lparr>ack_Delay = delay, ack_RTT = sent_rtt ?p now, ack_ReceivedAt = now\<rparr> = (c', e)" by fastforce
  have sent: "cinv (sp_congestionCtrl s)" "0 < sends (sp_congestionCtrl s) (seq_at s i)"
    using assms by (auto simp: sp_inv_def)
  note a = ack_sent [OF sent c]
  define s' where "s' = (let s' = s\<lparr>sp_congestionCtrl := c'\<rparr> in
    if acks ?p = [] then s'\<lparr>sp_packets := (sp_packets s)[i := ?p\<lparr>acks := [now]\<rparr>],
      sp_lostPackets := bt_Delete B (seq_at s i) (sp_lostPackets s)\<rparr> else s')"
  have run: "sp_Ack B C delay now s (seq_at s i) = Some (s', None)"
    using assms(2) a c by (simp add: sp_Ack_def ix seq s'_def Let_def)
  have pk: "sp_packets s' = ack_at now {i} (sp_packets s)" "sp_initSeqNum s' = sp_initSeqNum s"
    "sp_congestionCtrl s' = c'"
    using assms(2) by (auto simp: s'_def Let_def ack_at_insert)
  have inv: "invar (sp_lostPackets s)" using assms(1) by (simp add: sp_inv_def)
  have lost: "lost_set B s' = lost_set B s - {seq_at s i}" "invar (sp_lostPackets s')"
  proof -
    have "seq_at s i \<notin> lost_set B s" if "acks ?p \<noteq> []"
    proof
      assume "seq_at s i \<in> lost_set B s"
      then obtain j where j: "seq_at s i = seq_at s j" "j < length (sp_packets s)" "j \<notin> acked_ix s"
        using assms(1) by (auto simp: sp_inv_def)
      then have "i = j" using assms by (intro seq_at_inj) (auto simp: sp_inv_def)
      with j that show False by (simp add: acked_ix_def)
    qed
    then show "lost_set B s' = lost_set B s - {seq_at s i}" "invar (sp_lostPackets s')"
      using inv by (auto simp: s'_def Let_def lost_set_def Delete invar_Delete)
  qed
  have ab: "acked_by B now {i} s s'" using assms(2) pk lost(1) by (simp add: acked_by_def)
  have "lost_set B s' \<subseteq> seq_at s ` ({..<length (sp_packets s)} - acked_ix s')"
    using assms(1) unfolding sp_inv_def lost(1) acked_by_ix [OF ab] by fast
  then have "sinv s'"
    using assms(1) a lost(2) unfolding sp_inv_def pk by (simp add: ack_at_fields)
  with run ab show ?thesis by blast
qed

lemma ack_each_ok:
  "\<lbrakk> sinv s; set is \<subseteq> {..<length (sp_packets s)} \<rbrakk> \<Longrightarrow>
     \<exists>s'. sp_ack_each B C delay now s (map (seq_at s) is) = Some (s', None)
          \<and> sinv s' \<and> acked_by B now (set is) s s'"
proof (induction "is" arbitrary: s)
  case Nil
  then show ?case by (simp add: acked_by_refl)
next
  case (Cons i "is")
  obtain s1 where s1: "sp_Ack B C delay now s (seq_at s i) = Some (s1, None)" "sinv s1"
    "acked_by B now {i} s s1" using Ack_ok [of s i delay now] Cons.prems by auto
  note fr = acked_by_frame [OF s1(3)]
  obtain s2 where "sp_ack_each B C delay now s1 (map (seq_at s1) is) = Some (s2, None)"
    "sinv s2" "acked_by B now (set is) s1 s2" using Cons.IH [OF s1(2)] Cons.prems fr by auto
  with s1 acked_by_trans [OF s1(3)] show ?case by (auto simp: fr)
qed

end

text \<open>The packets a selective acknowledgement names, as indices from \<open>k\<close> on.\<close>

definition sack_ix :: "nat \<Rightarrow> nat \<Rightarrow> bool list \<Rightarrow> nat set" where
  "sack_ix n k flags = {i. k \<le> i \<and> i < n \<and> i - k < length flags \<and> flags ! (i - k)}"

lemma sack_ix_Nil [simp]: "sack_ix n k [] = {}"
  by (simp add: sack_ix_def)

lemma sack_ix_beyond: "n \<le> k \<Longrightarrow> sack_ix n k flags = {}"
  by (auto simp: sack_ix_def)

lemma sack_ix_Cons:
  "k < n \<Longrightarrow> sack_ix n k (b # flags) = (if b then {k} else {}) \<union> sack_ix n (Suc k) flags"
proof (rule set_eqI)
  fix i assume "k < n"
  consider "i < k" | "i = k" | "k < i" by linarith
  then show "i \<in> sack_ix n k (b # flags)
      \<longleftrightarrow> i \<in> (if b then {k} else {}) \<union> sack_ix n (Suc k) flags"
  proof cases
    case 3
    then have "i - k = Suc (i - Suc k)" by simp
    with 3 show ?thesis by (simp add: sack_ix_def)
  qed (use \<open>k < n\<close> in \<open>auto simp: sack_ix_def\<close>)
qed

lemma seq_no_Suc: "seq_no init k + 1 = seq_no init (Suc k)"
  by (simp add: seq_no_def)

lemma SeqNumRange_cong:
  "\<lbrakk> sp_initSeqNum s' = sp_initSeqNum s; length (sp_packets s') = length (sp_packets s) \<rbrakk>
     \<Longrightarrow> SeqNumRange s' = SeqNumRange s"
  by (simp add: SeqNumRange_def NextSeqNum_def)

lemma Contains_seq_at:
  assumes "length (sp_packets s) \<le> 65533" and "k \<le> Suc (length (sp_packets s))"
  shows "Contains (SeqNumRange s) (seq_at s k) \<longleftrightarrow> k < length (sp_packets s)"
  using assms by (subst Contains_SeqNumRange) (auto simp: unat_seq_at)

context send_side
begin

lemma sack_loop_ok:
  "\<lbrakk> sinv s; k \<le> Suc (length (sp_packets s)) \<rbrakk> \<Longrightarrow>
     \<exists>s'. sp_sack_loop B C delay now (SeqNumRange s) s (seq_at s k) flags = Some (s', None)
          \<and> sinv s' \<and> acked_by B now (sack_ix (length (sp_packets s)) k flags) s s'"
proof (induction flags arbitrary: s k)
  case Nil
  then show ?case by (simp add: acked_by_refl)
next
  case (Cons b flags)
  have in_range: "Contains (SeqNumRange s) (seq_at s k) \<longleftrightarrow> k < length (sp_packets s)"
    using Cons.prems by (intro Contains_seq_at) (auto simp: sp_inv_def)
  show ?case
  proof (cases "k < length (sp_packets s)")
    case False
    then show ?thesis using Cons.prems in_range by (simp add: sack_ix_beyond acked_by_refl)
  next
    case True
    obtain s1 where s1: "if b then sp_Ack B C delay now s (seq_at s k) = Some (s1, None) else s1 = s"
      "sinv s1" "acked_by B now (if b then {k} else {}) s s1"
      using Ack_ok [OF Cons.prems(1) True, of delay now] Cons.prems(1) acked_by_refl [of B now s]
      by (cases b) auto
    note fr = acked_by_frame [OF s1(3)]
    have r: "SeqNumRange s1 = SeqNumRange s" using s1(3) fr by (intro SeqNumRange_cong) (auto simp: acked_by_def)
    obtain s2 where s2: "sp_sack_loop B C delay now (SeqNumRange s1) s1 (seq_at s1 (Suc k)) flags = Some (s2, None)"
      "sinv s2" "acked_by B now (sack_ix (length (sp_packets s1)) (Suc k) flags) s1 s2"
      using Cons.IH [OF s1(2), of "Suc k"] True fr by auto
    have "sp_sack_loop B C delay now (SeqNumRange s) s (seq_at s k) (b # flags) = Some (s2, None)"
      using True in_range s1(1) s2(1) by (cases b) (simp_all add: r fr seq_no_Suc)
    with s2(2) acked_by_trans [OF s1(3) s2(3)] True fr show ?thesis by (auto simp: sack_ix_Cons)
  qed
qed

end

section \<open>The first packet not acknowledged\<close>

definition acked_prefix :: "('t, 'c) sentPackets \<Rightarrow> nat" where
  "acked_prefix s = length (takeWhile (\<lambda>p. acks p \<noteq> []) (sp_packets s))"

lemma last_ack_loop_eq:
  "last_ack_loop ps num none =
     (let k = length (takeWhile (\<lambda>p. acks p \<noteq> []) ps)
      in if k = 0 then (num, none) else (sent_seqNum (ps ! (k - 1)), False))"
  by (induction ps num none rule: last_ack_loop.induct) (auto simp: Let_def nth_Cons')

lemma acked_prefix_le: "acked_prefix s \<le> length (sp_packets s)"
  by (simp add: acked_prefix_def length_takeWhile_le)

lemma acked_prefix_acked: "{..<acked_prefix s} \<subseteq> acked_ix s"
proof
  fix i assume "i \<in> {..<acked_prefix s}"
  then have i: "i < length (takeWhile (\<lambda>p. acks p \<noteq> []) (sp_packets s))" by (simp add: acked_prefix_def)
  from nth_mem [OF this] have "acks (sp_packets s ! i) \<noteq> []"
    unfolding takeWhile_nth [OF i] by (auto dest: set_takeWhileD)
  with i show "i \<in> acked_ix s" using acked_prefix_le [of s] by (simp add: acked_ix_def acked_prefix_def)
qed

lemma acked_prefix_open: "acked_prefix s < length (sp_packets s) \<Longrightarrow> acked_prefix s \<notin> acked_ix s"
  using nth_length_takeWhile [of "\<lambda>p. acks p \<noteq> []" "sp_packets s"]
  by (simp add: acked_prefix_def acked_ix_def)

lemma acked_prefix_all: "acked_prefix s = length (sp_packets s) \<longleftrightarrow> acked_ix s = {..<length (sp_packets s)}"
proof -
  have "acked_ix s \<subseteq> {..<length (sp_packets s)}" by (auto simp: acked_ix_def)
  with acked_prefix_acked [of s] acked_prefix_open [of s] acked_prefix_le [of s] show ?thesis
    by (metis antisym le_neq_implies_less lessThan_iff)
qed

lemma FirstUnackedSeqNum_eq:
  assumes "length (sp_packets s) \<le> 65533"
    and "\<forall>i < length (sp_packets s). sent_seqNum (sp_packets s ! i) = seq_at s i"
  shows "FirstUnackedSeqNum s =
    (if acked_ix s = {..<length (sp_packets s)} then Inl ErrNoneAckNum else Inr (seq_at s (acked_prefix s)))"
proof (cases "sp_packets s = []")
  case True
  then show ?thesis by (simp add: FirstUnackedSeqNum_def acked_ix_def)
next
  case False
  let ?k = "acked_prefix s" and ?n = "length (sp_packets s)"
  have last: "LastAckNum s = (if ?k = 0 then (0, True) else (sent_seqNum (sp_packets s ! (?k - 1)), False))"
    using False by (simp add: LastAckNum_def last_ack_loop_eq acked_prefix_def Let_def)
  show ?thesis
  proof (cases "?k = 0")
    case True
    then show ?thesis
      using last False acked_prefix_all [of s] by (auto simp: FirstUnackedSeqNum_def seq_no_def)
  next
    case k: False
    have seqs: "sent_seqNum (sp_packets s ! (?k - 1)) = seq_at s (?k - 1)"
      "sent_seqNum (sp_packets s ! (?n - 1)) = seq_at s (?n - 1)"
      using assms(2) k False acked_prefix_le [of s] by (auto simp: Suc_le_eq)
    have "seq_at s (?n - 1) = seq_at s (?k - 1) \<longleftrightarrow> ?k = ?n"
    proof
      assume "seq_at s (?n - 1) = seq_at s (?k - 1)"
      then have "?n - 1 = ?k - 1" by (rule seq_at_inj) (use assms(1) acked_prefix_le [of s] in auto)
      then show "?k = ?n" using k False by (metis One_nat_def Suc_pred length_greater_0_conv not_gr_zero)
    qed simp
    moreover have "seq_at s (?k - 1) + 1 = seq_at s ?k" using k by (simp add: seq_no_Suc)
    ultimately show ?thesis
      using last k False seqs by (simp add: FirstUnackedSeqNum_def acked_prefix_all)
  qed
qed

section \<open>Loss detection\<close>

definition later_acks :: "sentPacket list \<Rightarrow> nat \<Rightarrow> nat" where
  "later_acks ps i = length (filter (\<lambda>p. acks p \<noteq> []) (drop (Suc i) ps))"

definition lost_ix :: "sentPacket list \<Rightarrow> nat \<Rightarrow> nat set" where
  "lost_ix ps a = {i. i < length ps \<and> acks (ps ! i) = [] \<and> LossThreshold \<le> a + later_acks ps i}"

lemma lost_ix_snoc:
  "lost_ix (ps @ [p]) a = lost_ix ps (if acks p = [] then a else a + 1)
     \<union> (if acks p = [] \<and> LossThreshold \<le> a then {length ps} else {})"
proof (rule set_eqI)
  fix i
  have later: "later_acks (ps @ [p]) i
      = (if i < length ps then later_acks ps i + (if acks p = [] then 0 else 1) else 0)"
    by (simp add: later_acks_def)
  have here: "later_acks (ps @ [p]) (length ps) = 0" by (simp add: later_acks_def)
  consider "i < length ps" | "i = length ps" | "length ps < i" by linarith
  then show "i \<in> lost_ix (ps @ [p]) a \<longleftrightarrow> i \<in> lost_ix ps (if acks p = [] then a else a + 1)
     \<union> (if acks p = [] \<and> LossThreshold \<le> a then {length ps} else {})"
    by cases (simp_all add: lost_ix_def later here nth_append)
qed

lemma set_detect_loop:
  "set (detect_loop (rev ps) a lost) = set lost \<union> (\<lambda>i. sent_seqNum (ps ! i)) ` lost_ix ps a"
proof (induction ps arbitrary: a lost rule: rev_induct)
  case Nil
  then show ?case by (simp add: lost_ix_def)
next
  case (snoc p ps)
  have "(\<lambda>i. sent_seqNum ((ps @ [p]) ! i)) ` lost_ix ps b = (\<lambda>i. sent_seqNum (ps ! i)) ` lost_ix ps b" for b
    by (rule image_cong) (auto simp: lost_ix_def nth_append)
  then show ?case by (simp add: lost_ix_snoc image_Un snoc.IH Let_def)
qed

lemma DetectLostPackets_eq:
  assumes "k \<le> length (sp_packets s)" and "length (sp_packets s) \<le> 65533"
    and "{..<k} \<subseteq> acked_ix s"
    and "\<forall>i < length (sp_packets s). sent_seqNum (sp_packets s ! i) = seq_at s i"
  shows "\<exists>losts. DetectLostPackets s (seq_at s k) = Some losts
            \<and> set losts = seq_at s ` lost_ix (sp_packets s) 0"
proof -
  let ?ps = "drop k (sp_packets s)"
  have run: "DetectLostPackets s (seq_at s k) = Some (detect_loop (rev ?ps) 0 [])"
    using assms(1,2) by (simp add: DetectLostPackets_def SeqNumIndex_seq_at)
  have shift: "lost_ix (sp_packets s) 0 = (\<lambda>i. k + i) ` lost_ix ?ps 0"
  proof (rule set_eqI)
    fix i
    show "i \<in> lost_ix (sp_packets s) 0 \<longleftrightarrow> i \<in> (\<lambda>i. k + i) ` lost_ix ?ps 0"
    proof (cases "i < k")
      case True
      then have "acks (sp_packets s ! i) \<noteq> []" using assms(3) by (auto simp: acked_ix_def)
      with True show ?thesis by (auto simp: lost_ix_def)
    next
      case False
      then obtain j where "i = k + j" by (metis le_add_diff_inverse not_less)
      then show ?thesis by (auto simp: lost_ix_def later_acks_def add.commute)
    qed
  qed
  have "(\<lambda>i. sent_seqNum (?ps ! i)) ` lost_ix ?ps 0 = seq_at s ` lost_ix (sp_packets s) 0"
    unfolding shift image_image by (rule image_cong) (use assms(4) in \<open>auto simp: lost_ix_def\<close>)
  with run show ?thesis by (simp add: set_detect_loop)
qed

context send_side
begin

lemma mark_lost_ok:
  assumes "sinv s" and "i < length (sp_packets s)" and "i \<notin> acked_ix s"
  shows "sinv (mark_lost B C (seq_at s i) s)"
    and "sp_packets (mark_lost B C (seq_at s i) s) = sp_packets s"
    and "sp_initSeqNum (mark_lost B C (seq_at s i) s) = sp_initSeqNum s"
    and "lost_set B (mark_lost B C (seq_at s i) s) = insert (seq_at s i) (lost_set B s)"
proof -
  let ?s = "s\<lparr>sp_lostPackets := bt_ReplaceOrInsert B (seq_at s i) (sp_lostPackets s)\<rparr>"
  have inv: "invar (sp_lostPackets s)" "cinv (sp_congestionCtrl s)"
    "0 < sends (sp_congestionCtrl s) (seq_at s i)"
    using assms(1,2) by (auto simp: sp_inv_def)
  obtain c' e where c: "ct_OnLostPacket C (sp_congestionCtrl s) (seq_at s i) True = (c', e)" by fastforce
  note l = lost_sent [OF inv(2,3) c]
  have "Contains (SeqNumRange ?s) (seq_at s i)"
    using Contains_seq_at [of s i] assms SeqNumRange_cong [of ?s s] by (simp add: sp_inv_def)
  then have m: "mark_lost B C (seq_at s i) s = ?s\<lparr>sp_congestionCtrl := c'\<rparr>"
    by (simp add: mark_lost_def OnLost_def c)
  show pk: "sp_packets (mark_lost B C (seq_at s i) s) = sp_packets s"
    "sp_initSeqNum (mark_lost B C (seq_at s i) s) = sp_initSeqNum s"
    by (simp_all add: m)
  show ls: "lost_set B (mark_lost B C (seq_at s i) s) = insert (seq_at s i) (lost_set B s)"
    using inv(1) by (auto simp: m lost_set_def Insert)
  have "acked_ix (mark_lost B C (seq_at s i) s) = acked_ix s" by (simp add: acked_ix_def pk)
  then have "lost_set B (mark_lost B C (seq_at s i) s)
      \<subseteq> seq_at s ` ({..<length (sp_packets s)} - acked_ix (mark_lost B C (seq_at s i) s))"
    using assms unfolding ls sp_inv_def by auto
  then show "sinv (mark_lost B C (seq_at s i) s)"
    using assms(1) l inv(1) unfolding sp_inv_def pk by (simp add: m invar_Insert)
qed

lemma mark_lost_all:
  "\<lbrakk> sinv s; set losts \<subseteq> seq_at s ` ({..<length (sp_packets s)} - acked_ix s) \<rbrakk> \<Longrightarrow>
     sinv (fold (mark_lost B C) losts s)
     \<and> sp_packets (fold (mark_lost B C) losts s) = sp_packets s
     \<and> sp_initSeqNum (fold (mark_lost B C) losts s) = sp_initSeqNum s
     \<and> lost_set B (fold (mark_lost B C) losts s) = set losts \<union> lost_set B s"
proof (induction losts arbitrary: s)
  case Nil
  then show ?case by simp
next
  case (Cons x losts)
  then obtain i where i: "x = seq_at s i" "i < length (sp_packets s)" "i \<notin> acked_ix s" by auto
  note m = mark_lost_ok [OF Cons.prems(1) i(2,3)]
  have "acked_ix (mark_lost B C x s) = acked_ix s" by (simp add: acked_ix_def m(2) i(1))
  then show ?case
    using Cons.IH [of "mark_lost B C x s"] Cons.prems m by (simp add: i(1))
qed

end

text \<open>
  \<open>ack_names s a sack\<close>: the packets acknowledged before, and those that an acknowledgement of packet
  \<open>a\<close> names itself, the flags of its selective acknowledgement starting at packet \<open>a + 2\<close>.
\<close>

definition sack_flags :: "SelectiveAck option \<Rightarrow> bool list" where
  "sack_flags sack = (case sack of None \<Rightarrow> [] | Some x \<Rightarrow> Acked x)"

definition ack_names :: "('t, 'c) sentPackets \<Rightarrow> nat \<Rightarrow> SelectiveAck option \<Rightarrow> nat set" where
  "ack_names s a sack =
     insert a (sack_ix (length (sp_packets s)) (a + 2) (sack_flags sack)) \<union> acked_ix s"

context send_side
begin

lemma first_acks_ok:
  assumes "sinv s" and "a < length (sp_packets s)"
  shows "\<exists>s'. (case sack of Some x \<Rightarrow> OnSelectiveAck B C delay now s (seq_at s a) x
                | None \<Rightarrow> sp_Ack B C delay now s (seq_at s a)) = Some (s', None)
     \<and> sinv s' \<and> acked_by B now (insert a (sack_ix (length (sp_packets s)) (a + 2) (sack_flags sack))) s s'"
proof -
  obtain s1 where s1: "sp_Ack B C delay now s (seq_at s a) = Some (s1, None)" "sinv s1"
    "acked_by B now {a} s s1" using Ack_ok [OF assms, of delay now] by blast
  note fr = acked_by_frame [OF s1(3)]
  show ?thesis
  proof (cases sack)
    case None
    with s1 show ?thesis by (simp add: sack_flags_def)
  next
    case (Some x)
    have "seq_at s a + 2 = seq_at s1 (a + 2)" by (simp add: fr seq_no_def)
    moreover obtain s2 where "sp_sack_loop B C delay now (SeqNumRange s1) s1 (seq_at s1 (a + 2)) (Acked x)
        = Some (s2, None)" "sinv s2"
      "acked_by B now (sack_ix (length (sp_packets s1)) (a + 2) (Acked x)) s1 s2"
      using sack_loop_ok [OF s1(2), of "a + 2" delay now "Acked x"] assms(2) fr by auto
    ultimately show ?thesis
      using s1 Some acked_by_trans [OF s1(3)] fr by (auto simp: OnSelectiveAck_def sack_flags_def)
  qed
qed

lemma AckPriorUnacked_ok:
  assumes "sinv s" and "a < length (sp_packets s)" and "k < length (sp_packets s)"
  shows "\<exists>s'. AckPriorUnacked B C delay now s (seq_at s a) (seq_at s k) = Some (s', None)
     \<and> sinv s' \<and> acked_by B now {k..<a} s s'"
proof (cases "a \<le> k")
  case True
  then show ?thesis
    using assms acked_by_refl [of B now s]
    by (simp add: AckPriorUnacked_def SeqNumIndex_seq_at sp_inv_def)
next
  case False
  let ?prior = "take (a - k) (drop k (sp_packets s))"
  have seqs: "map sent_seqNum ?prior = map (seq_at s) [k..<a]"
    using assms by (intro nth_equalityI) (auto simp: sp_inv_def)
  have "go_slice (int k) (int a) (sp_packets s) = Some ?prior"
    using False assms(2) by (simp add: go_slice_def nat_diff_distrib')
  then have "AckPriorUnacked B C delay now s (seq_at s a) (seq_at s k)
      = sp_ack_each B C delay now s (map (seq_at s) [k..<a])"
    using False assms seqs by (simp add: AckPriorUnacked_def SeqNumIndex_seq_at sp_inv_def)
  moreover have "set [k..<a] \<subseteq> {..<length (sp_packets s)}" using assms(2) by auto
  ultimately show ?thesis using ack_each_ok [OF assms(1), of "[k..<a]" delay now] by simp
qed

lemma acked_by_lost:
  assumes "sinv s" and "acked_by B now I s s'"
  shows "lost_set B s' = lost_set B s - seq_at s ` acked_ix s'"
proof -
  have "x \<notin> seq_at s ` acked_ix s" if lost: "x \<in> lost_set B s" for x
  proof
    assume "x \<in> seq_at s ` acked_ix s"
    then obtain i where i: "x = seq_at s i" "i \<in> acked_ix s" by blast
    have "x \<in> seq_at s ` ({..<length (sp_packets s)} - acked_ix s)"
      using lost assms(1) unfolding sp_inv_def by blast
    then obtain j where "x = seq_at s j" "j < length (sp_packets s)" "j \<notin> acked_ix s" by blast
    moreover from this i have "i = j"
      using assms(1) by (intro seq_at_inj [of s]) (auto simp: sp_inv_def acked_ix_def)
    ultimately show False using i by simp
  qed
  then show ?thesis using assms(2) acked_by_ix [OF assms(2)] by (auto simp: acked_by_def)
qed

lemma DetectLost_mark:
  assumes "sinv s" and "k < length (sp_packets s)" and "{..<k} \<subseteq> acked_ix s"
  shows "\<exists>s'. do { losts \<leftarrow> DetectLostPackets s (seq_at s k);
                   Some (fold (mark_lost B C) losts s, None) } = Some (s', None :: goerr option)
     \<and> sinv s' \<and> sp_packets s' = sp_packets s \<and> sp_initSeqNum s' = sp_initSeqNum s
     \<and> lost_set B s' = lost_set B s \<union> seq_at s ` lost_ix (sp_packets s) 0"
proof -
  obtain losts where l: "DetectLostPackets s (seq_at s k) = Some losts"
    "set losts = seq_at s ` lost_ix (sp_packets s) 0"
    using DetectLostPackets_eq [of k s] assms by (auto simp: sp_inv_def)
  have "lost_ix (sp_packets s) 0 \<subseteq> {..<length (sp_packets s)} - acked_ix s"
    by (auto simp: lost_ix_def acked_ix_def)
  then have "set losts \<subseteq> seq_at s ` ({..<length (sp_packets s)} - acked_ix s)"
    unfolding l(2) by (rule image_mono)
  from mark_lost_all [OF assms(1) this] l show ?thesis by auto
qed

lemma OnAckNum_ok:
  assumes "sinv s" and "a < length (sp_packets s)"
  shows "\<exists>s' e. OnAckNum B C delay now s (seq_at s a) sack = Some (s', e) \<and> sinv s'
     \<and> sp_initSeqNum s' = sp_initSeqNum s
     \<and> length (sp_packets s') = length (sp_packets s)
     \<and> acked_ix s' = ack_names s a sack \<union> {..a}
     \<and> lost_set B s' = lost_set B s - seq_at s ` acked_ix s' \<union> seq_at s ` lost_ix (sp_packets s') 0
     \<and> e = (if ack_names s a sack = {..<length (sp_packets s)} then Some ErrNoneAckNum else None)
     \<and> map sent_data (sp_packets s') = map sent_data (sp_packets s)"
proof -
  let ?n = "length (sp_packets s)"
  obtain s1 where s1: "(case sack of Some x \<Rightarrow> OnSelectiveAck B C delay now s (seq_at s a) x
        | None \<Rightarrow> sp_Ack B C delay now s (seq_at s a)) = Some (s1, None)" "sinv s1"
      "acked_by B now (insert a (sack_ix ?n (a + 2) (sack_flags sack))) s s1"
    using first_acks_ok [OF assms(1,2)] by blast
  note f1 = acked_by_frame [OF s1(3)] and l1 = acked_by_lost [OF assms(1) s1(3)]
  have ix1: "acked_ix s1 = ack_names s a sack" using acked_by_ix [OF s1(3)] by (auto simp: ack_names_def)
  have first: "FirstUnackedSeqNum s1 = (if ack_names s a sack = {..<?n} then Inl ErrNoneAckNum
      else Inr (seq_at s1 (acked_prefix s1)))"
    using FirstUnackedSeqNum_eq [of s1] s1(2) ix1 f1 by (simp add: sp_inv_def)
  show ?thesis
  proof (cases "ack_names s a sack = {..<?n}")
    case True
    have "OnAckNum B C delay now s (seq_at s a) sack = Some (s1, Some ErrNoneAckNum)"
      using s1(1) first True by (simp add: OnAckNum_def)
    moreover have "lost_ix (sp_packets s1) 0 = {}"
      using True ix1 f1 by (auto simp: lost_ix_def acked_ix_def)
    moreover have "acked_ix s1 = ack_names s a sack \<union> {..a}"
      unfolding ix1 True using assms(2) by auto
    moreover have "sp_initSeqNum s1 = sp_initSeqNum s" using s1(3) by (simp add: acked_by_def)
    ultimately show ?thesis using s1(2) f1(1) l1 True acked_by_data [OF s1(3)] by simp
  next
    case False
    let ?k = "acked_prefix s1"
    have k: "?k < length (sp_packets s1)" "{..<?k} \<subseteq> acked_ix s1"
      using False ix1 f1 acked_prefix_all [of s1] acked_prefix_le [of s1] acked_prefix_acked [of s1]
      by (simp_all add: le_neq_implies_less)
    obtain s2 where s2: "AckPriorUnacked B C delay now s1 (seq_at s1 a) (seq_at s1 ?k) = Some (s2, None)"
      "sinv s2" "acked_by B now {?k..<a} s1 s2"
      using AckPriorUnacked_ok [OF s1(2) _ k(1), of a delay now] assms(2) f1 by auto
    note f2 = acked_by_frame [OF s2(3)]
    have ix2: "acked_ix s2 = ack_names s a sack \<union> {..a}"
      using acked_by_ix [OF s2(3)] ix1 k(2) by (fastforce simp: ack_names_def not_le)
    have l2: "lost_set B s2 = lost_set B s - seq_at s ` acked_ix s2"
      using acked_by_lost [OF assms(1) acked_by_trans [OF s1(3) s2(3)]] .
    obtain s3 where s3: "do { losts \<leftarrow> DetectLostPackets s2 (seq_at s2 ?k);
        Some (fold (mark_lost B C) losts s2, None) } = Some (s3, None :: goerr option)"
      "sinv s3" "sp_packets s3 = sp_packets s2" "sp_initSeqNum s3 = sp_initSeqNum s2"
      "lost_set B s3 = lost_set B s2 \<union> seq_at s2 ` lost_ix (sp_packets s2) 0"
      using DetectLost_mark [OF s2(2), of ?k] k f2 acked_by_ix [OF s2(3)] by auto
    have "OnAckNum B C delay now s (seq_at s a) sack = Some (s3, None)"
      using s1(1) first False s2(1) s3(1) by (simp add: OnAckNum_def f1 f2)
    moreover have "acked_ix s3 = acked_ix s2" by (simp add: acked_ix_def s3(3))
    moreover have "sp_initSeqNum s3 = sp_initSeqNum s"
      using s1(3) s2(3) s3(4) by (simp add: acked_by_def)
    ultimately show ?thesis
      using s3 ix2 l2 f1 f2 False acked_by_data [OF s1(3)] acked_by_data [OF s2(3)] by simp
  qed
qed

end

end
