(* ===== verification/Congestion_Props.thy ===== *)
theory Congestion_Props
  imports Congestion_Inv
begin

text \<open>The properties of the congestion controller, over every history of calls.\<close>

section \<open>A concrete history\<close>

definition sample_ack :: Ack where
  "sample_ack = \<lparr>ack_Delay = 0, ack_RTT = 0, ack_ReceivedAt = 0\<rparr>"

definition sample_sent :: defaultController where
  "sample_sent = fst (OnTransmit (newDefaultController defaultCtrlConfig) 1 Initial 2048)"

definition sample_acked :: defaultController where
  "sample_acked = fst (OnAck 0 sample_sent 1 sample_ack)"

definition sample_full :: defaultController where
  "sample_full = fst (OnTransmit sample_acked 2 Initial 3072)"

lemma sample_sent_eq:
  "sample_sent = (newDefaultController defaultCtrlConfig)
     \<lparr>transmissions := [1 \<mapsto> \<lparr>SizeBytes = 2048, NumTransmissions = 1, pr_Acked = False\<rparr>],
      windowSizeBytes := 2048\<rparr>"
  by (simp add: sample_sent_def OnTransmit_def charge_window_def newDefaultController_def
      defaultCtrlConfig_def)

lemma sample_transmit:
  "OnTransmit (newDefaultController defaultCtrlConfig) 1 Initial 2048 = (sample_sent, None)"
  by (simp add: sample_sent_def OnTransmit_def charge_window_def newDefaultController_def
      defaultCtrlConfig_def)

lemma sample_sent_reach: "dc_reach defaultCtrlConfig R sample_sent"
  using dc_reach.transmit [OF dc_reach.init _ sample_transmit]
  by (simp add: BytesAvailableInWindow_def newDefaultController_def defaultCtrlConfig_def)

lemma sample_base:
  "BaseDelay 0 (da_Push (delayAcc sample_sent) (ack_Delay sample_ack) (ack_ReceivedAt sample_ack))
     = (\<lparr>da_delays = [\<lparr>Value = 0, Deadline = 120000000000\<rparr>], da_window = 120000000000\<rparr>, 0)"
  by (simp add: sample_sent_eq newDefaultController_def newDelayAccumulator_def defaultCtrlConfig_def
      da_Push_def heap_Push_def heap_up.simps sample_ack_def BaseDelay_def base_delay_loop.simps Let_def)

lemma sample_acked_fields:
  "maxWindowSizeBytes sample_acked = 3072" "windowSizeBytes sample_acked = 0"
  "minWindowSizeBytes sample_acked = 2048"
  "transmissions sample_acked = [1 \<mapsto> \<lparr>SizeBytes = 2048, NumTransmissions = 1, pr_Acked = True\<rparr>]"
proof -
  have p: "transmissions sample_sent 1 = Some \<lparr>SizeBytes = 2048, NumTransmissions = 1, pr_Acked = False\<rparr>"
    by (simp add: sample_sent_eq)
  note f = OnAck_first_fields [OF p _ sample_base]
  have one: "rnd (1 :: rat) = 1" using rnd_of_int [of 1] by simp
  have "computeMaxWindowSizeAdjustment 100000 0 0 2048 2048 1024 1 = 1024"
    using rnd_of_int [of 1024] int64_of_int [of 1024] one
    by (subst computeMax_factors) (simp_all add: off_target_def)
  then have "maxWindowSizeBytes sample_acked = new_max 2048 2048 1024 1024"
    unfolding sample_acked_def using f(4)
    by (simp add: sample_sent_eq newDefaultController_def defaultCtrlConfig_def sample_ack_def
        Microseconds_def go_quot_def)
  moreover have "uint (new_max 2048 2048 1024 1024) = 3072"
    by (subst new_max_exact) simp_all
  ultimately show "maxWindowSizeBytes sample_acked = 3072" by (simp add: word_uint_eq_iff)
  show "windowSizeBytes sample_acked = 0" "minWindowSizeBytes sample_acked = 2048"
    "transmissions sample_acked = [1 \<mapsto> \<lparr>SizeBytes = 2048, NumTransmissions = 1, pr_Acked = True\<rparr>]"
    unfolding sample_acked_def using f(1,2,5)
    by (simp_all add: sample_sent_eq newDefaultController_def defaultCtrlConfig_def)
qed

lemma sample_acked_reach: "0 \<le> R \<Longrightarrow> dc_reach defaultCtrlConfig R sample_acked"
  unfolding sample_acked_def
  by (rule dc_reach.ack [OF sample_sent_reach [of R], where a = sample_ack and s = 1 and now = 0])
    (auto simp: ack_in_def sample_ack_def sample_sent_eq newDefaultController_def defaultCtrlConfig_def
      prod_eq_iff)

lemma sample_full_eq:
  "OnTransmit sample_acked 2 Initial 3072 = (sample_full, None)"
  "windowSizeBytes sample_full = 3072" "transmissions sample_full 3 = None"
  "minWindowSizeBytes sample_full = 2048"
  by (simp_all add: sample_full_def OnTransmit_def charge_window_def sample_acked_fields)

lemma sample_full_reach: "0 \<le> R \<Longrightarrow> dc_reach defaultCtrlConfig R sample_full"
  by (rule dc_reach.transmit [OF sample_acked_reach _ sample_full_eq(1)])
    (simp_all add: BytesAvailableInWindow_def sample_acked_fields)

lemma default_config_ok: "config_ok defaultCtrlConfig"
  by (simp add: config_ok_def defaultCtrlConfig_def)

section \<open>Properties\<close>



lemma base_le_delay:
  assumes "da_inv da" and "now \<le> t + da_window da" and "BaseDelay now (da_Push da v t) = (da', b)"
  shows "b \<le> v"
proof -
  have "\<lparr>Value = v, Deadline = t + da_window da\<rparr> \<in># live_delays now (da_Push da v t)"
    using assms(2) by (simp add: live_delays_def mset_da_Push [OF assms(1)])
  then have "v \<in> Value ` set_mset (live_delays now (da_Push da v t))"
    "live_delays now (da_Push da v t) \<noteq> {#}" by force+
  then show ?thesis
    using BaseDelay_spec(5) [OF da_Push_inv [OF assms(1)] assms(3)] by (simp add: Min_le)
qed

lemma uint_micros:
  "\<lbrakk> 0 \<le> d; d < 4294967296000 \<rbrakk> \<Longrightarrow> uint (word_of_int (Microseconds d) :: u32) = Microseconds d"
  by (simp add: uint_word_of_int_eq take_bit_int_eq_self Microseconds_bounds)

lemma OnAck_adjustment:
  assumes inv: "window_inv config c" and cfg: "Gain config = 1" "0 < TargetDelayMicros config"
    and p: "transmissions c s = Some p" "\<not> pr_Acked p" "0 < SizeBytes p"
    and a: "ack_in R a" "now \<le> ack_ReceivedAt a + da_window (delayAcc c)"
    and b: "BaseDelay now (da_Push (delayAcc c) (ack_Delay a) (ack_ReceivedAt a)) = (da, b)"
  obtains adj where
    "maxWindowSizeBytes (fst (OnAck now c s a)) = new_max (uint (maxWindowSizeBytes c))
       (uint (minWindowSizeBytes c)) (uint (maxWindowSizeIncBytes c)) adj"
    and "Microseconds (ack_Delay a) - Microseconds b \<le> uint (TargetDelayMicros config)
           \<Longrightarrow> 0 \<le> adj \<and> adj \<le> uint (maxWindowSizeIncBytes c)"
    and "uint (TargetDelayMicros config) \<le> Microseconds (ack_Delay a) - Microseconds b
           \<Longrightarrow> - (2 ^ 63) \<le> adj \<and> adj \<le> 0"
proof -
  have f: "da_inv (delayAcc c)" "targetDelayMicros c = TargetDelayMicros config" "gain c = 1"
    "\<forall>d \<in> set (da_delays (delayAcc c)). 0 \<le> Value d \<and> Value d < 4294967296000"
    using inv cfg(1) unfolding window_inv_def by auto
  have d: "0 \<le> ack_Delay a" "ack_Delay a < 4294967296000" using a(1) by (auto simp: ack_in_def)
  note bb = da_OnAck(3,4) [OF f(1,4) d b]
  let ?D = "word_of_int (Microseconds (ack_Delay a)) :: u32" and ?B = "word_of_int (Microseconds b) :: u32"
  have u: "uint ?D = Microseconds (ack_Delay a)" "uint ?B = Microseconds b"
    using d bb by (simp_all add: uint_micros)
  have le: "uint ?B \<le> uint ?D" unfolding u
    using base_le_delay [OF f(1) a(2) b] bb d by (simp add: Microseconds_bounds zdiv_mono1)
  have sz: "uint (SizeBytes p) \<le> uint (windowSizeBytes c)" "0 < uint (SizeBytes p)"
    using inflight_ge [of "transmissions c" s] inv p by (auto simp: window_inv_def word_less_def)
  then have w: "0 < uint (windowSizeBytes c)" by linarith
  have t: "0 < uint (TargetDelayMicros config)" using cfg(2) by (simp add: word_less_def)
  have off: "off_target (TargetDelayMicros config) ?B ?D
      = uint (TargetDelayMicros config) - (Microseconds (ack_Delay a) - Microseconds b)"
    by (simp only: off_target_def u)
  show thesis
  proof (rule that)
    show "maxWindowSizeBytes (fst (OnAck now c s a)) = new_max (uint (maxWindowSizeBytes c))
       (uint (minWindowSizeBytes c)) (uint (maxWindowSizeIncBytes c))
       (computeMaxWindowSizeAdjustment (TargetDelayMicros config) ?B ?D (windowSizeBytes c)
         (SizeBytes p) (maxWindowSizeIncBytes c) 1)"
      unfolding OnAck_first_fields(4) [OF p(1,2) b] f(2,3) ..
  qed (use computeMax_grow [OF t w sz(1) le, unfolded off] computeMax_shrink [OF t w, of ?B ?D, unfolded off]
       in auto)
qed





end
