(* ===== verification/Sent_Packets_Props.thy ===== *)
theory Sent_Packets_Props
  imports Sent_Packets_Inv Congestion_Props
begin

text \<open>The properties of the sent packets: acknowledgements, losses, histories of operations.\<close>

section \<open>Transmissions\<close>

context send_side
begin

lemma new_inv:
  "\<lbrakk> cinv c; \<And>x. sends c x = 0 \<rbrakk> \<Longrightarrow> sinv (newSentPackets B init c)"
  by (simp add: sp_inv_def newSentPackets_def lost_set_def New acked_ix_def)

lemma OnTimeout_inv: "sinv s \<Longrightarrow> sinv (sp_OnTimeout C s)"
  using timeout_sent [of "sp_congestionCtrl s"]
  by (simp add: sp_inv_def sp_OnTimeout_def lost_set_def acked_ix_def)

lemma OnTransmit_new:
  assumes "sinv s" and "length (sp_packets s) < 65533" and "0 < Window C s" and "n \<le> Window C s"
  shows "\<exists>s'. sp_OnTransmit C s (NextSeqNum s) ty data n now = Some s' \<and> sinv s'
     \<and> sp_packets s' = sp_packets s @ [\<lparr>sent_seqNum = NextSeqNum s, sent_packetType = ty,
          sent_data = data, transmission = now, retransmission = now, acks = []\<rparr>]
     \<and> sp_initSeqNum s' = sp_initSeqNum s
     \<and> sends (sp_congestionCtrl s') = (sends (sp_congestionCtrl s))(NextSeqNum s := 1)
     \<and> Window C s' = Window C s - n"
proof -
  let ?n = "length (sp_packets s)" and ?x = "seq_at s (length (sp_packets s))"
  have ix: "SeqNumIndex s ?x = ?n" using assms(2) by (simp add: SeqNumIndex_seq_at)
  have fresh: "sends (sp_congestionCtrl s) ?x = 0"
  proof (rule ccontr)
    assume "sends (sp_congestionCtrl s) ?x \<noteq> 0"
    then have "?x \<in> seq_at s ` {..<?n}" using assms(1) unfolding sp_inv_def by auto
    then obtain j where "?x = seq_at s j" "j < ?n" by auto
    then show False using seq_at_inj [of s ?n j] assms(2) by simp
  qed
  obtain c' e where c: "ct_OnTransmit C (sp_congestionCtrl s) ?x Initial n = (c', e)" by fastforce
  have t: "e = None \<and> cinv c' \<and> sends c' = (sends (sp_congestionCtrl s))(?x := 1)
      \<and> ct_BytesAvailableInWindow C c' = Window C s - n"
    using transmit_new [OF _ fresh _ _ c] assms by (simp add: sp_inv_def Window_def)
  let ?p = "\<lparr>sent_seqNum = ?x, sent_packetType = ty, sent_data = data,
      transmission = now, retransmission = now, acks = []\<rparr>"
  let ?s = "s\<lparr>sp_packets := sp_packets s @ [?p], sp_congestionCtrl := c'\<rparr>"
  have run: "sp_OnTransmit C s ?x ty data n now = Some ?s"
    using assms(4) t c by (simp add: sp_OnTransmit_def ix not_less Let_def)
  have ix': "acked_ix ?s = acked_ix s" by (auto simp: acked_ix_def nth_append)
  have "lost_set B s \<subseteq> seq_at s ` ({..<Suc ?n} - acked_ix s)"
    using assms(1) unfolding sp_inv_def by (blast intro: less_SucI)
  moreover have "0 < sends c' x \<longleftrightarrow> x \<in> seq_at s ` {..<Suc ?n}" for x
    using assms(1) t unfolding sp_inv_def lessThan_Suc by simp
  moreover have "\<forall>i < Suc ?n. sent_seqNum ((sp_packets s @ [?p]) ! i) = seq_at s i"
    using assms(1) by (auto simp: sp_inv_def nth_append less_Suc_eq)
  ultimately have "sinv ?s"
    using assms(1,2) t ix' unfolding sp_inv_def by (simp add: lost_set_def)
  with run t show ?thesis by (auto simp: NextSeqNum_eq Window_def)
qed

lemma OnTransmit_again:
  assumes "sinv s" and "i < length (sp_packets s)"
    and "sends (sp_congestionCtrl s) (seq_at s i) < 4294967295"
  shows "\<exists>s'. sp_OnTransmit C s (seq_at s i) ty data n now = Some s' \<and> sinv s'
     \<and> sp_packets s' = (sp_packets s)[i := (sp_packets s ! i)\<lparr>retransmission := now\<rparr>]
     \<and> sp_initSeqNum s' = sp_initSeqNum s \<and> sp_lostPackets s' = sp_lostPackets s
     \<and> sends (sp_congestionCtrl s') = (sends (sp_congestionCtrl s))
          (seq_at s i := Suc (sends (sp_congestionCtrl s) (seq_at s i)))"
proof -
  have ix: "SeqNumIndex s (seq_at s i) = i" using assms by (simp add: SeqNumIndex_seq_at sp_inv_def)
  obtain c' e where c: "ct_OnTransmit C (sp_congestionCtrl s) (seq_at s i) Retransmission n = (c', e)" by fastforce
  have t: "e = None \<and> cinv c' \<and> sends c' = (sends (sp_congestionCtrl s))
      (seq_at s i := Suc (sends (sp_congestionCtrl s) (seq_at s i)))"
    using assms c by (intro transmit_again) (auto simp: sp_inv_def)
  let ?s = "s\<lparr>sp_packets := (sp_packets s)[i := (sp_packets s ! i)\<lparr>retransmission := now\<rparr>],
      sp_congestionCtrl := c'\<rparr>"
  have run: "sp_OnTransmit C s (seq_at s i) ty data n now = Some ?s"
    using assms(2) t c by (simp add: sp_OnTransmit_def ix Let_def)
  have ix': "acked_ix ?s = acked_ix s" using assms(2) by (auto simp: acked_ix_def nth_list_update)
  have "0 < sends c' x \<longleftrightarrow> x \<in> seq_at s ` {..<length (sp_packets s)}" for x
    using assms t unfolding sp_inv_def by auto
  then have "sinv ?s"
    using assms(1,2) t ix' unfolding sp_inv_def by (simp add: lost_set_def nth_list_update)
  with run t show ?thesis by auto
qed

section \<open>Acknowledgements\<close>

lemma onAck_sent:
  assumes "sinv s" and "a < length (sp_packets s)"
  shows "\<exists>s'. onAck B C s (seq_at s a) sack delay now =
      Some (s', if ack_names s a sack = {..<length (sp_packets s)} then Inl ErrNoneAckNum
                else Inr (newCircularRangeInclusive (sp_initSeqNum s) (seq_at s a),
                          case sack of None \<Rightarrow> [] | Some x \<Rightarrow> selected_acks (seq_at s a) x))
     \<and> sinv s' \<and> sp_initSeqNum s' = sp_initSeqNum s
     \<and> length (sp_packets s') = length (sp_packets s)
     \<and> acked_ix s' = ack_names s a sack \<union> {..a}
     \<and> lost_set B s' = lost_set B s - seq_at s ` acked_ix s' \<union> seq_at s ` lost_ix (sp_packets s') 0
     \<and> map sent_data (sp_packets s') = map sent_data (sp_packets s)"
proof -
  obtain s' e where s': "OnAckNum B C delay now s (seq_at s a) sack = Some (s', e)" "sinv s'"
    "sp_initSeqNum s' = sp_initSeqNum s" "length (sp_packets s') = length (sp_packets s)"
    "acked_ix s' = ack_names s a sack \<union> {..a}"
    "lost_set B s' = lost_set B s - seq_at s ` acked_ix s' \<union> seq_at s ` lost_ix (sp_packets s') 0"
    "e = (if ack_names s a sack = {..<length (sp_packets s)} then Some ErrNoneAckNum else None)"
    "map sent_data (sp_packets s') = map sent_data (sp_packets s)"
    using OnAckNum_ok [OF assms, of delay now sack] by blast
  have "Contains (SeqNumRange s) (seq_at s a)"
    using assms by (simp add: Contains_seq_at sp_inv_def)
  moreover have "seq_at s a \<noteq> sp_initSeqNum s"
    using unat_seq_at [of a s] assms by (auto simp: sp_inv_def)
  moreover have "Start (SeqNumRange s) = sp_initSeqNum s"
    by (simp add: Start_def SeqNumRange_def Let_def)
  ultimately show ?thesis using s' by (auto simp: onAck_def Let_def)
qed

end


section \<open>The instance of the program\<close>

interpretation lost_order: key_order "(<) :: u16 \<Rightarrow> u16 \<Rightarrow> bool" id
  by unfold_locales simp

interpretation sender: send_side "list_BTree (<)" "sorted_wrt (<)" "default_Controller clk" dc_counts dc_sends
  by unfold_locales

abbreviation default_sender ::
  "(u16 list, defaultController) sentPackets \<Rightarrow> bool" where
  "default_sender \<equiv> sp_inv (list_BTree (<)) (sorted_wrt (<)) dc_counts dc_sends"

lemma default_sender_new:
  "default_sender (newSentPackets (list_BTree (<)) init (newDefaultController config))"
  by (rule sender.new_inv)
    (simp_all add: dc_counts_def newDefaultController_def dc_sends_def)

definition fresh_sender :: "(u16 list, defaultController) sentPackets" where
  "fresh_sender = newSentPackets (list_BTree (<)) 65534 (newDefaultController defaultCtrlConfig)"

abbreviation zero_clock :: "u16 \<Rightarrow> Ack \<Rightarrow> time" where
  "zero_clock \<equiv> \<lambda>_ _. 0"

lemma fresh_sender_facts:
  "default_sender fresh_sender" "sp_packets fresh_sender = []" "sp_initSeqNum fresh_sender = 65534"
  "Window (default_Controller clk) fresh_sender = 2048" "NextSeqNum fresh_sender = 65535"
  using default_sender_new [of 65534 defaultCtrlConfig]
  by (simp_all add: fresh_sender_def newSentPackets_def Window_def default_Controller_def
      BytesAvailableInWindow_def newDefaultController_def defaultCtrlConfig_def NextSeqNum_def)


section \<open>Histories\<close>

text \<open>
  What a connection does with its sent packets: it sends a new packet while the window is open
  and has room for it, resends a packet it sent (fewer than \<open>2^32 - 1\<close> times), handles an
  acknowledgement, or handles a timeout. \<^const>\<open>None\<close> is a panic.
\<close>

datatype sp_op =
    SendNew PacketType bytes u32 time
  | Resend nat time
  | RecvAck u16 "SelectiveAck option" duration time
  | Expire

definition sp_step ::
  "('t, u16) BTree \<Rightarrow> 'c Controller \<Rightarrow> ('c \<Rightarrow> u16 \<Rightarrow> nat) \<Rightarrow> sp_op \<Rightarrow> ('t, 'c) sentPackets
     \<Rightarrow> ('t, 'c) sentPackets go" where
  "sp_step B C sends op s = (case op of
     SendNew ty data n now \<Rightarrow>
       if 0 < Window C s \<and> n \<le> Window C s
       then sp_OnTransmit C s (NextSeqNum s) ty data n now else Some s
   | Resend i now \<Rightarrow>
       if i < length (sp_packets s) \<and> sends (sp_congestionCtrl s) (seq_at s i) < 4294967295
       then let p = sp_packets s ! i
            in sp_OnTransmit C s (sent_seqNum p) (sent_packetType p) (sent_data p)
                 (of_nat (length (sent_data p))) now
       else Some s
   | RecvAck ackNum sack delay now \<Rightarrow> map_option fst (onAck B C s ackNum sack delay now)
   | Expire \<Rightarrow> Some (sp_OnTimeout C s))"

fun sp_run ::
  "('t, u16) BTree \<Rightarrow> 'c Controller \<Rightarrow> ('c \<Rightarrow> u16 \<Rightarrow> nat) \<Rightarrow> sp_op list \<Rightarrow> ('t, 'c) sentPackets
     \<Rightarrow> ('t, 'c) sentPackets go" where
  "sp_run B C sends [] s = Some s"
| "sp_run B C sends (op # ops) s = do { s' \<leftarrow> sp_step B C sends op s; sp_run B C sends ops s' }"

fun is_send :: "sp_op \<Rightarrow> bool" where
  "is_send (SendNew ty data n now) = True"
| "is_send _ = False"

lemma onAck_invalid:
  assumes "length (sp_packets s) \<le> 65533" and "length (sp_packets s) < unat (x - sp_initSeqNum s)"
  shows "onAck B C s x sack delay now = Some (s, Inl ErrInvalidAckNum)"
proof -
  have "\<not> Contains (SeqNumRange s) x" using assms by (subst Contains_SeqNumRange) auto
  moreover have "length (sp_packets s) \<noteq> 0 \<Longrightarrow> cr_end (SeqNumRange s) \<noteq> cr_start (SeqNumRange s)"
  proof
    assume "length (sp_packets s) \<noteq> 0" "cr_end (SeqNumRange s) = cr_start (SeqNumRange s)"
    then have "unat (of_nat (length (sp_packets s)) :: u16) = unat (0 :: u16)"
      by (simp add: SeqNumRange_def NextSeqNum_def)
    with assms(1) \<open>length (sp_packets s) \<noteq> 0\<close> show False by simp
  qed
  ultimately show ?thesis by (auto simp: onAck_def Let_def)
qed

lemma onAck_initial:
  assumes "length (sp_packets s) \<le> 65533"
  shows "\<exists>r. onAck B C s (sp_initSeqNum s) sack delay now = Some (s, r)"
  using assms Contains_SeqNumRange [of s "sp_initSeqNum s"]
  by (auto simp: onAck_def Let_def SeqNumRange_def Start_def)

context send_side
begin

lemma onAck_total:
  assumes "sinv s"
  shows "\<exists>s' r. onAck B C s x sack delay now = Some (s', r) \<and> sinv s' \<and> sp_initSeqNum s' = sp_initSeqNum s
     \<and> length (sp_packets s') = length (sp_packets s)
     \<and> map sent_data (sp_packets s') = map sent_data (sp_packets s)"
proof -
  let ?d = "unat (x - sp_initSeqNum s)"
  have n: "length (sp_packets s) \<le> 65533" using assms(1) by (simp add: sp_inv_def)
  consider "?d = 0" | "0 < ?d" "?d \<le> length (sp_packets s)" | "length (sp_packets s) < ?d" by linarith
  then show ?thesis
  proof cases
    case 1
    then have "x = sp_initSeqNum s" by (simp add: unat_eq_zero)
    then show ?thesis using onAck_initial [OF n, of B C sack delay now] assms by auto
  next
    case 2
    then obtain m where m: "?d = Suc m" using gr0_implies_Suc by blast
    then have "x = seq_at s m"
      using u16_offset [of x "sp_initSeqNum s"] unfolding m by (simp add: seq_no_def)
    then show ?thesis using onAck_sent [OF assms(1), of m sack delay now] 2 m by auto
  next
    case 3
    then show ?thesis using onAck_invalid [OF n, of x B C sack delay now] assms by auto
  qed
qed

lemma step_ok:
  assumes "sinv s" and "length (sp_packets s) + (if is_send op then 1 else 0) \<le> 65533"
  shows "\<exists>s'. sp_step B C sends op s = Some s' \<and> sinv s'
     \<and> length (sp_packets s') \<le> length (sp_packets s) + (if is_send op then 1 else 0)"
proof (cases op)
  case (SendNew ty data n now)
  then show ?thesis
    using OnTransmit_new [OF assms(1), of n ty data now] assms by (auto simp: sp_step_def)
next
  case (Resend i now)
  let ?p = "sp_packets s ! i"
  show ?thesis
  proof (cases "i < length (sp_packets s) \<and> sends (sp_congestionCtrl s) (seq_at s i) < 4294967295")
    case True
    then have "sent_seqNum ?p = seq_at s i" using assms(1) by (simp add: sp_inv_def)
    then show ?thesis
      using OnTransmit_again [OF assms(1), of i "sent_packetType ?p" "sent_data ?p"
          "of_nat (length (sent_data ?p))" now] True Resend
      by (auto simp: sp_step_def Let_def)
  qed (use assms Resend in \<open>auto simp: sp_step_def\<close>)
next
  case (RecvAck x sack delay now)
  then show ?thesis using onAck_total [OF assms(1), of x sack delay now] assms(2) by (auto simp: sp_step_def)
next
  case Expire
  then show ?thesis using OnTimeout_inv [OF assms(1)] by (simp add: sp_step_def sp_OnTimeout_def)
qed

lemma run_ok:
  "\<lbrakk> sinv s; length (sp_packets s) + length (filter is_send ops) \<le> 65533 \<rbrakk>
     \<Longrightarrow> \<exists>s'. sp_run B C sends ops s = Some s' \<and> sinv s'"
proof (induction ops arbitrary: s)
  case Nil
  then show ?case by simp
next
  case (Cons op ops)
  then obtain s1 where "sp_step B C sends op s = Some s1" "sinv s1"
    "length (sp_packets s1) \<le> length (sp_packets s) + (if is_send op then 1 else 0)"
    using step_ok [OF Cons.prems(1), of op] by (auto split: if_splits)
  with Cons show ?case by (auto split: if_splits)
qed

end

text \<open>
  C13. A connection's history of sends within the window, resends, acknowledgements (whatever
  number they carry) and timeouts never makes the sent packets panic, as long as at most 65533
  packets are sent; every state on the way is well formed.
\<close>

theorem sent_packets_never_panic:
  assumes "send_side B invar C cinv sends" and "cinv c" and "\<forall>x. sends c x = 0"
    and "length (filter is_send ops) \<le> 65533"
  shows "\<exists>s. sp_run B C sends ops (newSentPackets B init c) = Some s \<and> sp_inv B invar cinv sends s"
  using send_side.run_ok [OF assms(1) send_side.new_inv [OF assms(1,2)], of init ops] assms(3,4)
  by (simp add: newSentPackets_def)

theorem sent_packets_never_panic_witness:
  "\<exists>s. sp_run (list_BTree (<)) (default_Controller zero_clock) dc_sends
     [SendNew st_data [1] 1 0, RecvAck 65534 None 0 1, SendNew st_data [2] 1 1, RecvAck 7 None 0 1,
      Expire, Resend 0 3, RecvAck 0 None 0 4]
     (newSentPackets (list_BTree (<)) 65534 (newDefaultController defaultCtrlConfig)) = Some s
     \<and> default_sender s"
  by (rule sent_packets_never_panic [OF sender.send_side_axioms [of zero_clock]])
    (simp_all add: dc_counts_def newDefaultController_def dc_sends_def)

section \<open>What goes wrong\<close>

definition sent_packet_of :: "u16 \<Rightarrow> bytes \<Rightarrow> time list \<Rightarrow> sentPacket" where
  "sent_packet_of x d ts = \<lparr>sent_seqNum = x, sent_packetType = st_data, sent_data = d,
     transmission = 0, retransmission = 0, acks = ts\<rparr>"

definition sender_with ::
  "sentPacket list \<Rightarrow> defaultController \<Rightarrow> (u16 list, defaultController) sentPackets" where
  "sender_with ps c = \<lparr>sp_packets = ps, sp_initSeqNum = 0, sp_lostPackets = [], sp_congestionCtrl = c\<rparr>"

lemma run_first:
  "sp_OnTransmit (default_Controller zero_clock) (sender_with [] (newDefaultController defaultCtrlConfig))
     1 st_data d 2048 0 = Some (sender_with [sent_packet_of 1 d []] sample_sent)"
  using sample_transmit
  by (simp add: sp_OnTransmit_def sender_with_def SeqNumIndex_def Window_def default_Controller_def
      BytesAvailableInWindow_def newDefaultController_def defaultCtrlConfig_def sent_packet_of_def)

lemma run_ack:
  "onAck (list_BTree (<)) (default_Controller zero_clock) (sender_with [sent_packet_of 1 d []] sample_sent)
     1 None 0 0 = Some (sender_with [sent_packet_of 1 d [0]] sample_acked, Inl ErrNoneAckNum)"
proof -
  have e: "OnAck 0 sample_sent 1 sample_ack = (sample_acked, None)"
    using OnAck_first [OF _ _ sample_base, of 1 "\<lparr>SizeBytes = 2048, NumTransmissions = 1, pr_Acked = False\<rparr>"]
    by (simp add: sample_acked_def sample_sent_eq Let_def prod_eq_iff)
  have "sp_Ack (list_BTree (<)) (default_Controller zero_clock) 0 0
      (sender_with [sent_packet_of 1 d []] sample_sent) 1
    = Some (sender_with [sent_packet_of 1 d [0]] sample_acked, None)"
    using e by (simp add: sp_Ack_def sender_with_def SeqNumIndex_def sent_packet_of_def sent_rtt_def
        default_Controller_def sample_ack_def list_BTree_def)
  moreover have "FirstUnackedSeqNum (sender_with [sent_packet_of 1 d [0]] sample_acked) = Inl ErrNoneAckNum"
    by (simp add: FirstUnackedSeqNum_def sender_with_def LastAckNum_def sent_packet_of_def)
  ultimately show ?thesis
    by (simp add: onAck_def OnAckNum_def SeqNumRange_def NextSeqNum_def sender_with_def Start_def Let_def
        newCircularRangeInclusive_def Contains_def)
qed

lemma run_second:
  "sp_OnTransmit (default_Controller zero_clock) (sender_with [sent_packet_of 1 d [0]] sample_acked)
     2 st_data d' 3072 0 = Some (sender_with [sent_packet_of 1 d [0], sent_packet_of 2 d' []] sample_full)"
  using sample_full_eq(1)
  by (simp add: sp_OnTransmit_def sender_with_def SeqNumIndex_def Window_def default_Controller_def
      BytesAvailableInWindow_def sample_acked_fields sent_packet_of_def)


text \<open>
  C37. After 65536 packets the sequence numbers start over, and the packets of the first round are
  still there: the next new packet is taken for a retransmission of the first one. Its data is
  not recorded, so it can never be retransmitted.
\<close>

theorem sent_packets_wrap:
  assumes "length (sp_packets s) = 65536" and "sp_OnTransmit C s (NextSeqNum s) ty data n now = Some s'"
  shows "SeqNumIndex s (NextSeqNum s) = 0
    \<and> sp_packets s' = (sp_packets s)[0 := (sp_packets s ! 0)\<lparr>retransmission := now\<rparr>]
    \<and> map sent_data (sp_packets s') = map sent_data (sp_packets s)"
proof -
  have "(of_nat 65536 :: u16) = 0" by simp
  then have "NextSeqNum s = seq_at s 0" unfolding NextSeqNum_def assms(1) seq_no_def by simp
  then have ix: "SeqNumIndex s (NextSeqNum s) = 0" by (simp add: SeqNumIndex_seq_at)
  then have ps: "sp_packets s' = (sp_packets s)[0 := (sp_packets s ! 0)\<lparr>retransmission := now\<rparr>]"
    using assms by (auto simp: sp_OnTransmit_def Let_def split: prod.splits option.splits)
  moreover have "map sent_data (sp_packets s') = map sent_data (sp_packets s)"
    using assms(1) unfolding ps by (intro nth_equalityI) (auto simp: nth_list_update)
  ultimately show ?thesis using ix by blast
qed

definition full_round :: "(u16 list, defaultController) sentPackets" where
  "full_round = sender_with (map (\<lambda>i. sent_packet_of (1 + of_nat i) [0] [0]) [0..<65536]) sample_acked"

theorem sent_packets_wrap_witness:
  "\<exists>s'. sp_OnTransmit (default_Controller zero_clock) full_round 1 st_data [42] 1 7 = Some s'
     \<and> map sent_data (sp_packets s') = map sent_data (sp_packets full_round)"
proof -
  have len: "length (sp_packets full_round) = 65536" by (simp add: full_round_def sender_with_def)
  have nxt: "NextSeqNum full_round = 1"
    unfolding NextSeqNum_def len by (simp add: full_round_def sender_with_def)
  have "SeqNumIndex full_round 1 = 0" by (simp add: SeqNumIndex_def full_round_def sender_with_def)
  moreover have "sp_congestionCtrl full_round = sample_acked" by (simp add: full_round_def sender_with_def)
  ultimately obtain s' where s': "sp_OnTransmit (default_Controller zero_clock) full_round 1 st_data [42] 1 7 = Some s'"
    using len
    by (auto simp: sp_OnTransmit_def Let_def default_Controller_def OnTransmit_def charge_window_def
        sample_acked_fields)
  then show ?thesis
    using sent_packets_wrap [OF len, unfolded nxt, OF s'] by blast
qed

end
