(* ===== verification/Time_Wheel.thy ===== *)
theory Time_Wheel
  imports Utp_Prelude "HOL-Library.AList"
begin

text \<open>
  The timer wheel of \<^verbatim>\<open>delay_set.go\<close>. A slot is a Go map, here an association list; the order in
  which Go visits a map is not specified, so the handler of a tick sees the entries of a slot in
  the order \<open>ord\<close> gives them, a parameter that permutes its argument. One run of the ticker case of
  \<open>run\<close> is \<open>tw_tick\<close>, which returns the entries it hands to \<open>handleExpireFunc\<close>. The mutex makes each
  operation atomic. A panic (an index out of range, a division by zero, a second \<open>stop\<close>) is \<^const>\<open>None\<close>.

  The contract its clients rely on is the locale \<open>countdown\<close>: an entry waits a number of ticks, and
  every operation is described by what is left to wait.
\<close>

section \<open>Operations\<close>

record ('k, 'p) timeWheel =
  tw_interval :: duration
  tw_slots :: "('k \<times> 'p) list list"
  tw_current :: nat
  tw_slotNum :: nat
  tw_maxDelay :: duration
  tw_stopped :: bool

definition newTimeWheel :: "duration \<Rightarrow> nat \<Rightarrow> ('k, 'p) timeWheel go" where
  "newTimeWheel interval slotNum =
     (if interval \<le> 0 then None
      else Some \<lparr>tw_interval = interval, tw_slots = replicate slotNum [], tw_current = 0,
                 tw_slotNum = slotNum, tw_maxDelay = int slotNum * interval, tw_stopped = False\<rparr>)"

definition tw_put :: "('k, 'p) timeWheel \<Rightarrow> 'k \<Rightarrow> 'p \<Rightarrow> duration \<Rightarrow> ('k, 'p) timeWheel go" where
  "tw_put tw key val delay =
     (let delay = (if delay > tw_maxDelay tw then tw_maxDelay tw else delay) in
      if tw_interval tw = 0 \<or> tw_slotNum tw = 0 then None
      else
        let slots = go_quot delay (tw_interval tw);
            index = go_rem (int (tw_current tw) + slots) (int (tw_slotNum tw))
        in if index < 0 \<or> index \<ge> int (length (tw_slots tw)) then None
           else Some (tw\<lparr>tw_slots := (tw_slots tw)
                  [nat index := AList.update key val (tw_slots tw ! nat index)]\<rparr>))"

definition tw_retain :: "('k \<Rightarrow> bool) \<Rightarrow> ('k, 'p) timeWheel \<Rightarrow> ('k, 'p) timeWheel" where
  "tw_retain shouldRemove tw =
     tw\<lparr>tw_slots := map (filter (\<lambda>(key, _). \<not> shouldRemove key)) (tw_slots tw)\<rparr>"

text \<open>\<open>remove\<close> looks through the slots from the first one and stops at the first entry it deletes.\<close>

fun remove_first :: "'k \<Rightarrow> ('k \<times> 'p) list list \<Rightarrow> ('k \<times> 'p) list list" where
  "remove_first key [] = []"
| "remove_first key (slot # rest) =
     (if map_of slot key \<noteq> None then AList.delete key slot # rest
      else slot # remove_first key rest)"

definition tw_remove :: "'k \<Rightarrow> ('k, 'p) timeWheel \<Rightarrow> ('k, 'p) timeWheel" where
  "tw_remove key tw = tw\<lparr>tw_slots := remove_first key (tw_slots tw)\<rparr>"

definition tw_tick ::
  "(('k \<times> 'p) list \<Rightarrow> ('k \<times> 'p) list) \<Rightarrow> ('k, 'p) timeWheel
     \<Rightarrow> (('k, 'p) timeWheel \<times> ('k \<times> 'p) list) go" where
  "tw_tick ord tw =
     (if tw_current tw \<ge> length (tw_slots tw) \<or> tw_slotNum tw = 0 then None
      else
        let currentSlot = tw_slots tw ! tw_current tw
        in Some (tw\<lparr>tw_slots := (tw_slots tw)[tw_current tw := []],
                    tw_current := (tw_current tw + 1) mod tw_slotNum tw\<rparr>, ord currentSlot))"

definition tw_Len :: "('k, 'p) timeWheel \<Rightarrow> nat" where
  "tw_Len tw = foldl (\<lambda>len slot. len + length slot) 0 (tw_slots tw)"

definition tw_stop :: "('k, 'p) timeWheel \<Rightarrow> ('k, 'p) timeWheel go" where
  "tw_stop tw = (if tw_stopped tw then None else Some (tw\<lparr>tw_stopped := True\<rparr>))"

section \<open>The contract\<close>

text \<open>
  \<open>left w k r\<close> is the entry of key \<open>k\<close> that waits for \<open>r\<close> more ticks before the tick that expires it.
  A tick hands out exactly the entries with nothing left to wait, each once. \<open>wait d\<close> is the wait a
  delay \<open>d\<close> is turned into, below the horizon.
\<close>

locale countdown =
  fixes put :: "'w \<Rightarrow> 'k \<Rightarrow> 'p \<Rightarrow> duration \<Rightarrow> 'w go"
    and retain :: "('k \<Rightarrow> bool) \<Rightarrow> 'w \<Rightarrow> 'w"
    and tick :: "'w \<Rightarrow> ('w \<times> ('k \<times> 'p) list) go"
    and left :: "'w \<Rightarrow> 'k \<Rightarrow> nat \<Rightarrow> 'p option"
    and wait :: "'w \<Rightarrow> duration \<Rightarrow> nat"
    and horizon :: "'w \<Rightarrow> nat"
    and wf :: "'w \<Rightarrow> bool"
  assumes put_left: "\<lbrakk> wf w; 0 \<le> d \<rbrakk> \<Longrightarrow> \<exists>w'. put w k p d = Some w' \<and> wf w' \<and> horizon w' = horizon w
        \<and> wait w' = wait w \<and> left w' = (left w)(k := (left w k)(wait w d := Some p))"
    and retain_left: "wf w \<Longrightarrow> wf (retain rm w) \<and> horizon (retain rm w) = horizon w
        \<and> wait (retain rm w) = wait w \<and> left (retain rm w) = (\<lambda>k. if rm k then (\<lambda>_. None) else left w k)"
    and tick_left: "wf w \<Longrightarrow> \<exists>w' out. tick w = Some (w', out) \<and> wf w' \<and> horizon w' = horizon w
        \<and> wait w' = wait w \<and> left w' = (\<lambda>k r. left w k (Suc r))
        \<and> distinct (map fst out) \<and> set out = {(k, p). left w k 0 = Some p}"
    and beyond: "\<lbrakk> wf w; horizon w \<le> r \<rbrakk> \<Longrightarrow> left w k r = None"
    and wait_horizon: "wf w \<Longrightarrow> wait w d < horizon w"

text \<open>Running ticks one after the other collects what each of them hands out.\<close>

fun run_ticks ::
  "('w \<Rightarrow> ('w \<times> 'e list) go) \<Rightarrow> nat \<Rightarrow> 'w \<Rightarrow> ('w \<times> 'e list list) go" where
  "run_ticks tick 0 w = Some (w, [])"
| "run_ticks tick (Suc n) w = do {
     (w', out) \<leftarrow> tick w;
     (w'', outs) \<leftarrow> run_ticks tick n w';
     Some (w'', out # outs)
   }"

context countdown
begin

lemma run_ticks_left:
  "wf w \<Longrightarrow> \<exists>w' outs. run_ticks tick n w = Some (w', outs) \<and> wf w' \<and> length outs = n
     \<and> left w' = (\<lambda>k r. left w k (r + n))
     \<and> (\<forall>i < n. distinct (map fst (outs ! i)) \<and> set (outs ! i) = {(k, p). left w k i = Some p})"
proof (induction n arbitrary: w)
  case 0
  then show ?case by simp
next
  case (Suc n)
  obtain w1 out where w1: "tick w = Some (w1, out)" "wf w1" "left w1 = (\<lambda>k r. left w k (Suc r))"
    "distinct (map fst out)" "set out = {(k, p). left w k 0 = Some p}"
    using tick_left [OF Suc.prems] by blast
  obtain w2 outs where w2: "run_ticks tick n w1 = Some (w2, outs)" "wf w2" "length outs = n"
    "left w2 = (\<lambda>k r. left w1 k (r + n))"
    "\<forall>i < n. distinct (map fst (outs ! i)) \<and> set (outs ! i) = {(k, p). left w1 k i = Some p}"
    using Suc.IH [OF w1(2)] by blast
  have "\<forall>i < Suc n. distinct (map fst ((out # outs) ! i))
      \<and> set ((out # outs) ! i) = {(k, p). left w k i = Some p}"
    using w1(3-5) w2(5) by (auto simp: less_Suc_eq_0_disj)
  with w1(1,3) w2 show ?case by simp
qed

lemma run_ticks_exhaust:
  assumes "wf w"
  shows "\<exists>w' outs. run_ticks tick (horizon w) w = Some (w', outs) \<and> wf w' \<and> left w' = (\<lambda>k r. None)"
  using run_ticks_left [OF assms, of "horizon w"] beyond [OF assms] by fastforce

lemma put_expires:
  assumes "wf w" and "0 \<le> d" and "wait w d < n"
  shows "\<exists>w1 w2 outs. put w k p d = Some w1 \<and> run_ticks tick n w1 = Some (w2, outs)
     \<and> (\<forall>i < n. set (outs ! i) = {(k', p'). (if k' = k \<and> i = wait w d then p' = p
                                            else left w k' i = Some p')})"
proof -
  obtain w1 where w1: "put w k p d = Some w1" "wf w1"
    "left w1 = (left w)(k := (left w k)(wait w d := Some p))" using put_left [OF assms(1,2)] by blast
  obtain w2 outs where "run_ticks tick n w1 = Some (w2, outs)"
    "\<forall>i < n. set (outs ! i) = {(k, p). left w1 k i = Some p}"
    using run_ticks_left [OF w1(2), of n] by blast
  with w1(1) show ?thesis
    unfolding w1(3) by (intro exI [of _ w1] exI [of _ w2] exI [of _ outs]) (auto split: if_splits)
qed

end

section \<open>The wheel keeps the contract\<close>

definition tw_wf :: "('k, 'p) timeWheel \<Rightarrow> bool" where
  "tw_wf tw \<longleftrightarrow> 0 < tw_interval tw \<and> tw_current tw < tw_slotNum tw
     \<and> length (tw_slots tw) = tw_slotNum tw \<and> tw_maxDelay tw = int (tw_slotNum tw) * tw_interval tw
     \<and> (\<forall>slot \<in> set (tw_slots tw). distinct (map fst slot))"

definition tw_left :: "('k, 'p) timeWheel \<Rightarrow> 'k \<Rightarrow> nat \<Rightarrow> 'p option" where
  "tw_left tw k r =
     (if r < tw_slotNum tw then map_of (tw_slots tw ! ((tw_current tw + r) mod tw_slotNum tw)) k
      else None)"

definition tw_wait :: "('k, 'p) timeWheel \<Rightarrow> duration \<Rightarrow> nat" where
  "tw_wait tw d = nat (min d (tw_maxDelay tw) div tw_interval tw) mod tw_slotNum tw"

lemma tw_wfD:
  assumes "tw_wf tw"
  shows "0 < tw_interval tw" "0 < tw_slotNum tw" "tw_current tw < tw_slotNum tw"
    "length (tw_slots tw) = tw_slotNum tw" "tw_maxDelay tw = int (tw_slotNum tw) * tw_interval tw"
    "\<And>i. i < tw_slotNum tw \<Longrightarrow> distinct (map fst (tw_slots tw ! i))"
  using assms by (auto simp: tw_wf_def)

lemma ring_index: "\<lbrakk> a < n; c < (n :: nat) \<rbrakk> \<Longrightarrow> (c + a) mod n = (if c + a < n then c + a else c + a - n)"
  by (simp add: mod_if)

lemma ring_inj: "\<lbrakk> a < n; b < n; c < (n :: nat) \<rbrakk> \<Longrightarrow> (c + a) mod n = (c + b) mod n \<longleftrightarrow> a = b"
  by (auto simp: ring_index split: if_splits)

lemma tw_put_eq:
  assumes "tw_wf tw" and "0 \<le> d"
  shows "tw_put tw k p d = Some (tw\<lparr>tw_slots := (tw_slots tw)
     [(tw_current tw + tw_wait tw d) mod tw_slotNum tw :=
        AList.update k p (tw_slots tw ! ((tw_current tw + tw_wait tw d) mod tw_slotNum tw))]\<rparr>)"
proof -
  note wf = tw_wfD [OF assms(1)]
  let ?m = "min d (tw_maxDelay tw)"
  have m: "0 \<le> ?m" using assms(2) wf by simp
  have cap: "(if d > tw_maxDelay tw then tw_maxDelay tw else d) = ?m" by auto
  have "go_rem (int (tw_current tw) + go_quot ?m (tw_interval tw)) (int (tw_slotNum tw))
      = int ((tw_current tw + nat (?m div tw_interval tw)) mod tw_slotNum tw)"
    using m wf by (simp add: go_quot_pos go_rem_pos pos_imp_zdiv_nonneg_iff zmod_int)
  moreover have "(tw_current tw + nat (?m div tw_interval tw)) mod tw_slotNum tw
      = (tw_current tw + tw_wait tw d) mod tw_slotNum tw"
    by (simp add: tw_wait_def mod_add_right_eq)
  ultimately have idx: "go_rem (int (tw_current tw) + go_quot ?m (tw_interval tw)) (int (tw_slotNum tw))
      = int ((tw_current tw + tw_wait tw d) mod tw_slotNum tw)" by simp
  show ?thesis unfolding tw_put_def Let_def cap idx using wf(1-4) by (simp add: not_le)
qed

lemma tw_left_put:
  assumes "tw_wf tw" and "w < tw_slotNum tw"
  shows "tw_left (tw\<lparr>tw_slots := (tw_slots tw)[(tw_current tw + w) mod tw_slotNum tw :=
      AList.update k p (tw_slots tw ! ((tw_current tw + w) mod tw_slotNum tw))]\<rparr>)
    = (tw_left tw)(k := (tw_left tw k)(w := Some p))"
  using tw_wfD(2-4) [OF assms(1)] assms(2)
  by (auto simp: fun_eq_iff tw_left_def nth_list_update ring_inj update_conv')

lemma tw_left_tick:
  assumes "tw_wf tw"
  shows "tw_left (tw\<lparr>tw_slots := (tw_slots tw)[tw_current tw := []],
      tw_current := (tw_current tw + 1) mod tw_slotNum tw\<rparr>) k r = tw_left tw k (Suc r)"
proof -
  note wf = tw_wfD [OF assms]
  have i: "(Suc (tw_current tw) mod tw_slotNum tw + r) mod tw_slotNum tw
      = Suc (tw_current tw + r) mod tw_slotNum tw" by (simp add: mod_simps)
  consider "Suc r < tw_slotNum tw" | "Suc r = tw_slotNum tw" | "tw_slotNum tw \<le> r" by linarith
  then show ?thesis
  proof cases
    case 1
    then have "(tw_current tw + Suc r) mod tw_slotNum tw \<noteq> tw_current tw"
      unfolding ring_index [OF 1 wf(3)] by auto
    with 1 wf show ?thesis unfolding tw_left_def by (simp add: i)
  next
    case 2
    then have e: "Suc (tw_current tw + r) = tw_current tw + tw_slotNum tw" by simp
    have "Suc (tw_current tw + r) mod tw_slotNum tw = tw_current tw"
      unfolding e using wf(3) by simp
    with 2 wf show ?thesis unfolding tw_left_def by (simp add: i)
  qed (simp add: tw_left_def)
qed

definition permutes_entries :: "(('k \<times> 'p) list \<Rightarrow> ('k \<times> 'p) list) \<Rightarrow> bool" where
  "permutes_entries ord \<longleftrightarrow> (\<forall>xs. distinct xs \<longrightarrow> distinct (ord xs) \<and> set (ord xs) = set xs)"

lemma permuted_slot:
  assumes "permutes_entries ord" and "distinct (map fst slot)"
  shows "distinct (map fst (ord slot))" and "set (ord slot) = {(k, p). map_of slot k = Some p}"
proof -
  have o: "distinct (ord slot)" "set (ord slot) = set slot"
    using assms by (auto simp: permutes_entries_def distinct_map)
  then show "distinct (map fst (ord slot))" using assms(2) by (simp add: distinct_map)
  show "set (ord slot) = {(k, p). map_of slot k = Some p}"
    using o(2) assms(2) by (auto simp: map_of_eq_Some_iff)
qed

lemma tw_wf_put:
  "\<lbrakk> tw_wf tw; i < tw_slotNum tw \<rbrakk> \<Longrightarrow>
     tw_wf (tw\<lparr>tw_slots := (tw_slots tw)[i := AList.update k p (tw_slots tw ! i)]\<rparr>)"
  by (auto simp: tw_wf_def distinct_update dest!: set_update_subset_insert [THEN subsetD])

lemma wheel_countdown:
  assumes "permutes_entries ord"
  shows "countdown tw_put tw_retain (tw_tick ord) tw_left tw_wait tw_slotNum tw_wf"
proof (unfold_locales, goal_cases)
  case (1 w d k p)
  note wf = tw_wfD [OF 1(1)]
  have lt: "tw_wait w d < tw_slotNum w" using wf(2) by (simp add: tw_wait_def)
  let ?i = "(tw_current w + tw_wait w d) mod tw_slotNum w"
  let ?w = "w\<lparr>tw_slots := (tw_slots w)[?i := AList.update k p (tw_slots w ! ?i)]\<rparr>"
  have "tw_wf ?w" using 1(1) wf(2) by (intro tw_wf_put) auto
  moreover have "tw_wait ?w = tw_wait w" by (simp add: fun_eq_iff tw_wait_def)
  ultimately show ?case
    using tw_put_eq [OF 1] tw_left_put [OF 1(1) lt, of k p] by (intro exI [of _ ?w]) simp
next
  case (2 w rm)
  then have "tw_wf (tw_retain rm w)" by (auto simp: tw_wf_def tw_retain_def distinct_map_filter)
  moreover have "map_of (filter (\<lambda>(key, _). \<not> rm key) slot) k = (if rm k then None else map_of slot k)"
    for slot :: "('a \<times> 'b) list" and k by (induction slot) auto
  ultimately show ?case
    using tw_wfD(2,4) [OF 2] by (auto simp: tw_retain_def tw_left_def tw_wait_def fun_eq_iff)
next
  case (3 w)
  note wf = tw_wfD [OF 3]
  let ?w = "w\<lparr>tw_slots := (tw_slots w)[tw_current w := []],
      tw_current := (tw_current w + 1) mod tw_slotNum w\<rparr>"
  have run: "tw_tick ord w = Some (?w, ord (tw_slots w ! tw_current w))"
    using wf by (simp add: tw_tick_def Let_def)
  have "tw_wf ?w" using 3 wf(2)
    by (auto simp: tw_wf_def dest!: set_update_subset_insert [THEN subsetD])
  moreover have "tw_wait ?w = tw_wait w" by (simp add: fun_eq_iff tw_wait_def)
  moreover have "tw_left w k 0 = map_of (tw_slots w ! tw_current w) k" for k
    using wf by (simp add: tw_left_def)
  ultimately show ?case
    using run permuted_slot [OF assms wf(6) [OF wf(3)]] tw_left_tick [OF 3] by (auto simp: fun_eq_iff)
next
  case (4 w r k)
  then show ?case by (simp add: tw_left_def)
next
  case (5 w d)
  then show ?case using tw_wfD(2) [OF 5] by (simp add: tw_wait_def)
qed

interpretation wheel: countdown tw_put tw_retain "tw_tick (\<lambda>slot. slot)" tw_left tw_wait tw_slotNum tw_wf
  by (rule wheel_countdown) (simp add: permutes_entries_def)

section \<open>Properties\<close>

text \<open>
  C18. The wheel is a countdown. Whatever it holds, an entry put with a delay is handed to the
  expiry handler exactly once within the next turn of the wheel, at the tick its delay stands
  for: the number of whole intervals in the delay, cut off at the largest delay and reduced modulo
  the number of slots. The other entries keep their ticks, and ticks in between do not hand it
  out. The order in which Go iterates over a slot does not matter.
\<close>

theorem wheel_put_expires:
  assumes "permutes_entries ord" and "tw_wf tw" and "0 \<le> d" and "tw_wait tw d < n"
  shows "\<exists>tw1 tw2 outs. tw_put tw k p d = Some tw1 \<and> run_ticks (tw_tick ord) n tw1 = Some (tw2, outs)
     \<and> (\<forall>i < n. set (outs ! i) = {(k', p'). (if k' = k \<and> i = tw_wait tw d then p' = p
                                            else tw_left tw k' i = Some p')})"
  by (rule countdown.put_expires [OF wheel_countdown [OF assms(1)] assms(2-4)])

definition small_wheel :: "(u16, bytes) timeWheel" where
  "small_wheel = \<lparr>tw_interval = 1000, tw_slots = [[], [(3, [1])], [], []], tw_current = 3,
     tw_slotNum = 4, tw_maxDelay = 4000, tw_stopped = False\<rparr>"

lemma small_wheel_facts:
  "tw_wf small_wheel" "tw_wait small_wheel 2500 = 2" "tw_wait small_wheel 4000 = 0"
  "tw_left small_wheel 7 2 = None"
  by (simp_all add: small_wheel_def tw_wf_def tw_wait_def tw_left_def)

theorem wheel_put_expires_witness:
  "\<exists>tw1 tw2 outs. tw_put small_wheel 7 [9] 2500 = Some tw1
     \<and> run_ticks (tw_tick rev) 3 tw1 = Some (tw2, outs) \<and> (7, [9]) \<in> set (outs ! 2) \<and> (7, [9]) \<notin> set (outs ! 1)"
  using wheel_put_expires [of rev small_wheel 2500 3 7 "[9]"] small_wheel_facts
  by (fastforce simp: permutes_entries_def tw_left_def small_wheel_def)

text \<open>
  C38. A delay of at least the wheel's largest one is not a long wait: it wraps to the slot that
  expires at the very next tick.
\<close>

theorem wheel_longest_delay_expires_next:
  assumes "tw_wf tw" and "tw_maxDelay tw \<le> d"
  shows "\<exists>tw1 tw2 out. tw_put tw k p d = Some tw1 \<and> tw_tick (\<lambda>slot. slot) tw1 = Some (tw2, out)
     \<and> (k, p) \<in> set out"
proof -
  note wf = tw_wfD [OF assms(1)]
  have "min d (tw_maxDelay tw) div tw_interval tw = int (tw_slotNum tw)"
    using wf(1,5) assms(2) by simp
  then have wait: "tw_wait tw d = 0" by (simp add: tw_wait_def)
  have d: "0 \<le> d" using wf(1,5) assms(2) by (smt (verit) mult_nonneg_nonneg of_nat_0_le_iff)
  obtain tw1 where tw1: "tw_put tw k p d = Some tw1" "tw_wf tw1" "tw_left tw1 k 0 = Some p"
    using wheel.put_left [OF assms(1) d, of k p] by (auto simp: wait)
  then obtain tw2 out where "tw_tick (\<lambda>slot. slot) tw1 = Some (tw2, out)"
    "set out = {(k, p). tw_left tw1 k 0 = Some p}" using wheel.tick_left by blast
  with tw1 show ?thesis by auto
qed

theorem wheel_longest_delay_expires_next_witness:
  "\<exists>tw1 tw2 out. tw_put small_wheel 7 [9] 4000 = Some tw1
     \<and> tw_tick (\<lambda>slot. slot) tw1 = Some (tw2, out) \<and> (7, [9]) \<in> set out"
  by (rule wheel_longest_delay_expires_next)
    (simp_all add: small_wheel_facts, simp add: small_wheel_def)

lemma remove_first_keeps:
  "\<lbrakk> i < length slots; j < length slots; i \<noteq> j; map_of (slots ! i) k \<noteq> None; map_of (slots ! j) k \<noteq> None \<rbrakk>
     \<Longrightarrow> map_of (remove_first k slots ! i) k \<noteq> None \<or> map_of (remove_first k slots ! j) k \<noteq> None"
proof (induction slots arbitrary: i j)
  case (Cons slot slots)
  then show ?case by (cases i; cases j) (auto split: if_splits)
qed simp

lemma length_remove_first [simp]: "length (remove_first k slots) = length slots"
  by (induction slots) auto



end
