(* ===== verification/Cid.thy ===== *)
theory Cid
  imports Packet
begin

text \<open>
  \<^verbatim>\<open>cid.go\<close> and \<^verbatim>\<open>event.go\<close>: connection identifiers, their hash strings, and the events that streams
  and connections exchange with the socket. The interface \<open>ConnectionPeer\<close> has one method, \<open>Hash\<close>; a
  peer is a value of a type \<open>'p\<close>, its \<open>Hash\<close> the argument \<open>PeerHash\<close>. The digest of the package
  \<^verbatim>\<open>golang.org/x/crypto/sha3\<close> is the argument \<open>sum256\<close>. A Go string is a sequence of bytes, as
  \<^typ>\<open>string\<close> is. The connections of a socket are found by these hash strings, so the property of
  this theory is that two identifiers have the same hash only if they agree.
\<close>

section \<open>Identifiers\<close>

record UdpPeer =
  udp_addr :: string

definition UdpPeer_Hash :: "UdpPeer \<Rightarrow> string" where
  "UdpPeer_Hash p = udp_addr p"

record 'p ConnectionId =
  cid_Send :: u16
  cid_Recv :: u16
  cid_Peer :: 'p
  cid_hash :: string

text \<open>\<open>%d\<close> of a number, and \<open>hex.EncodeToString\<close>.\<close>

fun decimal :: "nat \<Rightarrow> string" where
  "decimal n = (if n < 10 then [char_of (48 + n)] else decimal (n div 10) @ [char_of (48 + n mod 10)])"

declare decimal.simps [simp del]

definition hex_digit :: "nat \<Rightarrow> char" where
  "hex_digit n = (if n < 10 then char_of (48 + n) else char_of (87 + n))"

definition EncodeToString :: "bytes \<Rightarrow> string" where
  "EncodeToString bs = concat (map (\<lambda>b. [hex_digit (unat b div 16), hex_digit (unat b mod 16)]) bs)"

definition string_bytes :: "string \<Rightarrow> bytes" where
  "string_bytes s = map (\<lambda>c. of_nat (of_char c)) s"

definition cid_text :: "('p \<Rightarrow> string) \<Rightarrow> 'p ConnectionId \<Rightarrow> string" where
  "cid_text PeerHash connId =
     decimal (unat (cid_Send connId)) @ '':'' @ decimal (unat (cid_Recv connId)) @ '':''
       @ PeerHash (cid_Peer connId)"

text \<open>The digest has 32 bytes, of which the first 20 are kept.\<close>

definition genHash :: "(bytes \<Rightarrow> bytes) \<Rightarrow> ('p \<Rightarrow> string) \<Rightarrow> 'p ConnectionId \<Rightarrow> string" where
  "genHash sum256 PeerHash connId =
     (let str = cid_text PeerHash connId;
          sum = take 20 (sum256 (string_bytes str))
      in EncodeToString sum)"

definition NewConnectionId ::
  "(bytes \<Rightarrow> bytes) \<Rightarrow> ('p \<Rightarrow> string) \<Rightarrow> 'p \<Rightarrow> u16 \<Rightarrow> u16 \<Rightarrow> 'p ConnectionId" where
  "NewConnectionId sum256 PeerHash peer recvId sendId =
     (let connId = \<lparr>cid_Send = sendId, cid_Recv = recvId, cid_Peer = peer, cid_hash = []\<rparr>
      in connId\<lparr>cid_hash := genHash sum256 PeerHash connId\<rparr>)"

text \<open>A connection identifier is itself a \<open>ConnectionPeer\<close>; its \<open>Hash\<close> is the stored string.\<close>

datatype 'p ConnectionPeer = CidPeer "'p ConnectionId" | PlainPeer 'p

fun peer_Hash :: "('p \<Rightarrow> string) \<Rightarrow> 'p ConnectionPeer \<Rightarrow> string" where
  "peer_Hash PeerHash (CidPeer cid) = cid_hash cid"
| "peer_Hash PeerHash (PlainPeer p) = PeerHash p"

section \<open>Events\<close>

datatype StreamEventType = streamIncoming | streamShutdown

datatype socketEventType = outgoing | socketShutdown

record streamEvent =
  ev_Type :: StreamEventType
  ev_Packet :: "packet option"

record 'p socketEvent =
  se_Type :: socketEventType
  se_Packet :: "packet option"
  se_ConnectionId :: "'p ConnectionPeer"

definition newOutgoingSocketEvent :: "packet \<Rightarrow> 'p ConnectionPeer \<Rightarrow> 'p socketEvent" where
  "newOutgoingSocketEvent p cid = \<lparr>se_Type = outgoing, se_Packet = Some p, se_ConnectionId = cid\<rparr>"

definition newShutdownSocketEvent :: "'p ConnectionPeer \<Rightarrow> 'p socketEvent" where
  "newShutdownSocketEvent cid = \<lparr>se_Type = socketShutdown, se_Packet = None, se_ConnectionId = cid\<rparr>"

section \<open>Different identifiers have different texts\<close>

lemma of_char_digit: "n < 10 \<Longrightarrow> of_char (char_of (48 + n) :: char) = 48 + (n :: nat)"
  by (simp add: of_char_of)

lemma decimal_chars: "c \<in> set (decimal n) \<Longrightarrow> (of_char c :: nat) \<in> {48..57}"
proof (induction n rule: decimal.induct)
  case (1 n)
  then show ?case by (subst (asm) (2) decimal.simps) (auto split: if_splits simp: of_char_digit)
qed

lemma colon_notin_decimal: "CHR '':'' \<notin> set (decimal n)"
  using decimal_chars [of "CHR '':''" n] by auto

definition decimal_value :: "string \<Rightarrow> nat" where
  "decimal_value s = foldl (\<lambda>a c. 10 * a + (of_char c - 48)) 0 s"

lemma decimal_value: "decimal_value (decimal n) = n"
proof (induction n rule: decimal.induct)
  case (1 n)
  show ?case
  proof (cases "n < 10")
    case False
    then have "decimal_value (decimal n) = 10 * decimal_value (decimal (n div 10)) + n mod 10"
      by (subst decimal.simps) (simp add: decimal_value_def of_char_digit)
    with 1 False show ?thesis by simp
  qed (subst decimal.simps, simp add: decimal_value_def of_char_digit)
qed

lemma decimal_inj: "decimal m = decimal n \<longleftrightarrow> m = n"
  by (metis decimal_value)

lemma split_at_first:
  "\<lbrakk> x \<notin> set xs; x \<notin> set ys \<rbrakk> \<Longrightarrow> xs @ x # r = ys @ x # s \<longleftrightarrow> xs = ys \<and> r = s"
  by (auto simp: append_eq_append_conv2 append_eq_Cons_conv Cons_eq_append_conv)

lemma cid_text_inj:
  "cid_text h a = cid_text h b \<longleftrightarrow>
     cid_Send a = cid_Send b \<and> cid_Recv a = cid_Recv b \<and> h (cid_Peer a) = h (cid_Peer b)"
  by (auto simp: cid_text_def split_at_first colon_notin_decimal decimal_inj word_unat_eq_iff)

lemma string_bytes_inj: "string_bytes a = string_bytes b \<longleftrightarrow> a = b"
proof -
  have "(of_nat (of_char c) :: u8) = of_nat (of_char d) \<longleftrightarrow> c = d" for c d :: char
  proof
    assume e: "(of_nat (of_char c) :: u8) = of_nat (of_char d)"
    have b: "(of_char x :: nat) < 256" for x :: char by (rule nat_of_char_less_256)
    from e have "unat (of_nat (of_char c) :: u8) = unat (of_nat (of_char d) :: u8)" by simp
    then have "(of_char c :: nat) = of_char d" using b by (simp add: unat_of_nat)
    then show "c = d" by simp
  qed simp
  then have "inj (\<lambda>c :: char. of_nat (of_char c) :: u8)" unfolding inj_def by blast
  then show ?thesis by (simp add: string_bytes_def inj_map_eq_map)
qed

lemma hex_digit_inj:
  assumes "m < 16" "n < 16" and "hex_digit m = hex_digit n"
  shows "m = n"
proof -
  have "(of_char (hex_digit k) :: nat) = (if k < 10 then 48 + k else 87 + k)" if "k < 16" for k
    using that by (simp add: hex_digit_def of_char_of)
  with assms have "(if m < 10 then 48 + m else 87 + m) = (if n < 10 then 48 + n else 87 + n)" by metis
  then show ?thesis using assms(1,2) by (simp split: if_splits)
qed

lemma EncodeToString_inj: "EncodeToString a = EncodeToString b \<longleftrightarrow> a = b"
proof
  show "EncodeToString a = EncodeToString b \<Longrightarrow> a = b"
  proof (induction a arbitrary: b)
    case Nil
    then show ?case by (cases b) (auto simp: EncodeToString_def)
  next
    case (Cons x xs)
    then obtain y ys where b: "b = y # ys" by (cases b) (auto simp: EncodeToString_def)
    have u: "unat z < 256" for z :: u8 using unsigned_less [of z] by simp
    have "unat x div 16 = unat y div 16" "unat x mod 16 = unat y mod 16"
      using Cons.prems u [of x] u [of y] unfolding b EncodeToString_def
      by (auto intro!: hex_digit_inj)
    then have "unat x = unat y" by (metis div_mult_mod_eq)
    then have "x = y" by (simp add: word_unat_eq_iff)
    with Cons show ?case by (simp add: b EncodeToString_def)
  qed
qed simp

section \<open>Properties\<close>

text \<open>
  C29. The hash string of a connection identifies it: as long as the digests of the two texts do not
  collide, two identifiers have the same hash exactly when they agree in the send number, the
  receive number and the hash of the peer.
\<close>

theorem connection_hash_unique:
  assumes "\<And>x y. \<lbrakk> x \<in> texts; y \<in> texts; take 20 (sum256 x) = take 20 (sum256 y) \<rbrakk> \<Longrightarrow> x = y"
    and "string_bytes (cid_text PeerHash (NewConnectionId sum256 PeerHash peer recv send)) \<in> texts"
    and "string_bytes (cid_text PeerHash (NewConnectionId sum256 PeerHash peer' recv' send')) \<in> texts"
  shows "cid_hash (NewConnectionId sum256 PeerHash peer recv send)
       = cid_hash (NewConnectionId sum256 PeerHash peer' recv' send')
     \<longleftrightarrow> send = send' \<and> recv = recv' \<and> PeerHash peer = PeerHash peer'"
proof -
  let ?t = "\<lambda>s r p. string_bytes (cid_text PeerHash \<lparr>cid_Send = s, cid_Recv = r, cid_Peer = p, cid_hash = []\<rparr>)"
  have txt_eq: "string_bytes (cid_text PeerHash (NewConnectionId sum256 PeerHash p r s)) = ?t s r p" for p r s
    by (simp add: NewConnectionId_def cid_text_def Let_def)
  have "take 20 (sum256 (?t send recv peer)) = take 20 (sum256 (?t send' recv' peer'))
      \<longleftrightarrow> ?t send recv peer = ?t send' recv' peer'"
    using assms(1) assms(2,3) [unfolded txt_eq] by metis
  then show ?thesis
    by (simp add: NewConnectionId_def genHash_def Let_def EncodeToString_inj string_bytes_inj cid_text_inj)
qed

theorem connection_hash_unique_witness:
  "cid_hash (NewConnectionId (\<lambda>b. take 32 (b @ replicate 32 0)) UdpPeer_Hash \<lparr>udp_addr = ''a:1''\<rparr> 12 13)
     \<noteq> cid_hash (NewConnectionId (\<lambda>b. take 32 (b @ replicate 32 0)) UdpPeer_Hash \<lparr>udp_addr = ''a:1''\<rparr> 2 131)"
proof -
  let ?sum = "\<lambda>b :: bytes. take 32 (b @ replicate 32 0)"
  let ?T = "{string_bytes ''13:12:a:1'', string_bytes ''131:2:a:1''}"
  have d: "decimal 13 = ''13''" "decimal 12 = ''12''" "decimal 131 = ''131''" "decimal 2 = ''2''"
    by code_simp+
  have t: "string_bytes (cid_text UdpPeer_Hash (NewConnectionId ?sum UdpPeer_Hash \<lparr>udp_addr = ''a:1''\<rparr> 12 13)) \<in> ?T"
    "string_bytes (cid_text UdpPeer_Hash (NewConnectionId ?sum UdpPeer_Hash \<lparr>udp_addr = ''a:1''\<rparr> 2 131)) \<in> ?T"
    by (simp_all add: cid_text_def NewConnectionId_def UdpPeer_Hash_def d)
  have "take 20 (?sum x) = take 20 (?sum y) \<Longrightarrow> x = y" if "x \<in> ?T" "y \<in> ?T" for x y
    using that by (auto simp: string_bytes_def)
  from connection_hash_unique [OF this t] show ?thesis by simp
qed

end
