(* ===== verification/Connection.thy ===== *)
theory Connection
  imports Cid Time_Wheel Send_Buffer Recv_Buffer Sent_Packets
begin

text \<open>
  \<^verbatim>\<open>conn.go\<close>: one end of a connection, its packet handlers and its event loop. The state is the
  record \<open>connection\<close>; a handler takes it and returns the new one, \<^const>\<open>None\<close> being a panic
  (a nil dereference, a send on a closed channel, a panic of a component).

  A channel the connection sends on is the list of the values sent so far: \<open>socketEvents\<close>, \<open>reads\<close>,
  \<open>connectedCh\<close>, and the result channels of the writes, which share the list \<open>c_results\<close>, each
  entry with the number of its channel. A send to a channel that is full waits for the receiver;
  here the receiver has always made room. The channels \<open>readable\<close> and \<open>writable\<close>, which hold up to three
  tokens and are sent to only if there is room, are token counts. Logging is left out.

  What is outside the sources is in the environment \<open>E\<close>: the two kinds of trees, the clock readings of
  \<open>OnAck\<close>, the successive readings \<open>e_now E 0, e_now E 1, \<dots>\<close> of \<open>time.Now\<close> while one event is handled, and
  a drawn random number.
\<close>

section \<open>Types\<close>

datatype EndpointType = Initiator | Acceptor

datatype ConnStateType = ConnConnecting | ConnConnected | ConnClosed

record Endpoint =
  ep_Type :: EndpointType
  ep_SynNum :: u16
  ep_SynAck :: u16
  ep_Attempts :: int

record ClosingRecord =
  LocalFin :: "u16 option"
  RemoteFin :: "u16 option"

record errChan =
  ch_sent :: "goerr option list"
  ch_closed :: bool

record ('t, 'l) ConnState =
  stateType :: ConnStateType
  connectedCh :: "errChan option"
  RecvBuf :: "'t receiveBuffer option"
  SendBuf :: "sendBuffer option"
  SentPackets :: "('l, defaultController) sentPackets option"
  closing :: "ClosingRecord option"
  st_Err :: "goerr option"

definition NewConnState :: "errChan option \<Rightarrow> ('t, 'l) ConnState" where
  "NewConnState connCh =
     \<lparr>stateType = ConnConnecting, connectedCh = connCh, RecvBuf = None, SendBuf = None,
      SentPackets = None, closing = None, st_Err = None\<rparr>"

record ConnectionConfig =
  cc_MaxPacketSize :: u16
  cc_MaxConnAttempts :: int
  cc_MaxIdleTimeout :: duration
  cc_InitialTimeout :: duration
  cc_MinTimeout :: duration
  cc_MaxTimeout :: duration
  cc_TargetDelay :: duration
  cc_WindowSize :: u32
  cc_BufferSize :: int

definition NewConnectionConfig :: ConnectionConfig where
  "NewConnectionConfig =
     \<lparr>cc_MaxPacketSize = 1024, cc_MaxConnAttempts = 6, cc_MaxIdleTimeout = 60000000000,
      cc_InitialTimeout = 4000000000, cc_MinTimeout = 500000000, cc_MaxTimeout = 60000000000,
      cc_TargetDelay = 100000000, cc_WindowSize = 1048576, cc_BufferSize = 1048576\<rparr>"

definition fromConnConfig :: "ConnectionConfig \<Rightarrow> ctrlConfig" where
  "fromConnConfig config =
     defaultCtrlConfig\<lparr>MaxPacketSizeBytes := ucast (cc_MaxPacketSize config),
       InitialTimeout := cc_InitialTimeout config, MinTimeout := cc_MinTimeout config,
       MaxTimeout := cc_MaxTimeout config,
       TargetDelayMicros := word_of_int (Microseconds (cc_TargetDelay config)),
       WindowSize := cc_WindowSize config\<rparr>"

record queuedWrite =
  qw_data :: bytes
  qw_written :: int
  qw_resultCh :: nat

record readOrWriteResult =
  res_Err :: "goerr option"
  res_Len :: int
  res_Data :: bytes

record ('t, 'l, 'p) connection =
  c_state :: "('t, 'l) ConnState"
  c_cid :: "'p ConnectionId"
  c_config :: ConnectionConfig
  c_endpoint :: Endpoint
  c_peerTsDiff :: duration
  c_peerRecvWindow :: u32
  c_socketEvents :: "'p socketEvent list"
  c_unacked :: "(u16, packet) timeWheel"
  c_unackTimeoutCh :: "packet list"
  c_reads :: "readOrWriteResult list"
  c_readable :: nat
  c_pendingWrites :: "queuedWrite list"
  c_writable :: nat
  c_results :: "(nat \<times> readOrWriteResult) list"
  c_latestTimeout :: "time option"
  c_synState :: "packet option"

record ('t, 'l) conn_env =
  e_pending :: "('t, pendingItem) BTree"
  e_lost :: "('l, u16) BTree"
  e_ackClock :: "u16 \<Rightarrow> Ack \<Rightarrow> time"
  e_now :: "nat \<Rightarrow> time"
  e_rand :: u16

text \<open>The environment after \<open>k\<close> readings of the clock.\<close>

definition later :: "nat \<Rightarrow> ('t, 'l) conn_env \<Rightarrow> ('t, 'l) conn_env" where
  "later k E = E\<lparr>e_now := (\<lambda>i. e_now E (k + i))\<rparr>"

abbreviation e_ctrl :: "('t, 'l) conn_env \<Rightarrow> defaultController Controller" where
  "e_ctrl E \<equiv> default_Controller (e_ackClock E)"

definition set_state ::
  "(('t, 'l) ConnState \<Rightarrow> ('t, 'l) ConnState) \<Rightarrow> ('t, 'l, 'p) connection \<Rightarrow> ('t, 'l, 'p) connection" where
  "set_state f c = c\<lparr>c_state := f (c_state c)\<rparr>"

definition send_event :: "'p socketEvent \<Rightarrow> ('t, 'l, 'p) connection \<Rightarrow> ('t, 'l, 'p) connection" where
  "send_event ev c = c\<lparr>c_socketEvents := c_socketEvents c @ [ev]\<rparr>"

definition notify_token :: "nat \<Rightarrow> nat" where
  "notify_token n = (if n < 3 then n + 1 else n)"

definition ch_send :: "goerr option \<Rightarrow> errChan \<Rightarrow> errChan go" where
  "ch_send v ch = (if ch_closed ch then None else Some (ch\<lparr>ch_sent := ch_sent ch @ [v]\<rparr>))"

definition ch_close :: "errChan \<Rightarrow> errChan go" where
  "ch_close ch = (if ch_closed ch then None else Some (ch\<lparr>ch_closed := True\<rparr>))"

section \<open>Construction\<close>

definition newConnection ::
  "('t, 'l) conn_env \<Rightarrow> 'p ConnectionId \<Rightarrow> ConnectionConfig \<Rightarrow> packet option \<Rightarrow> errChan option
     \<Rightarrow> ('t, 'l, 'p) connection go" where
  "newConnection E cid config syn connCh =
     (let (endpoint, peerTsDiff, peerRecvWindow) =
        (case syn of
           Some s \<Rightarrow>
             (\<lparr>ep_Type = Acceptor, ep_SynNum = h_SeqNum (Header s), ep_SynAck = e_rand E, ep_Attempts = 0\<rparr>,
              (UnixMicro (e_now E 0) - h_Timestamp (Header s)) * 1000, h_WndSize (Header s))
         | None \<Rightarrow>
             (\<lparr>ep_Type = Initiator, ep_SynNum = e_rand E, ep_SynAck = 0, ep_Attempts = 0\<rparr>,
              0, 4294967295))
      in do {
        wheel \<leftarrow> newTimeWheel (go_quot (cc_InitialTimeout config) 4) 8;
        Some \<lparr>c_state = NewConnState connCh, c_cid = cid, c_config = config,
          c_endpoint = endpoint, c_peerTsDiff = peerTsDiff, c_peerRecvWindow = peerRecvWindow,
          c_socketEvents = [], c_unacked = wheel, c_unackTimeoutCh = [], c_reads = [], c_readable = 0,
          c_pendingWrites = [], c_writable = 0, c_results = [], c_latestTimeout = None, c_synState = None\<rparr>
      })"

section \<open>Sending\<close>

definition synPacket :: "('t, 'l) conn_env \<Rightarrow> ('t, 'l, 'p) connection \<Rightarrow> u16 \<Rightarrow> packet" where
  "synPacket E c seqNum =
     Build (NewPacketBuilder st_syn (cid_Recv (c_cid c)) (NowMicro (e_now E 0))
              (cc_WindowSize (c_config c)) seqNum)"

abbreviation tsDiffMicros :: "('t, 'l, 'p) connection \<Rightarrow> u32" where
  "tsDiffMicros c \<equiv> word_of_int (Microseconds (c_peerTsDiff c))"

text \<open>\<open>Some None\<close> is the result nil.\<close>

definition statePacket :: "('t, 'l) conn_env \<Rightarrow> ('t, 'l, 'p) connection \<Rightarrow> packet option go" where
  "statePacket E c =
     (case stateType (c_state c) of
        ConnConnecting \<Rightarrow>
          if ep_Type (c_endpoint c) = Initiator then Some None
          else Some (Some (Build (WithAckNum (ep_SynNum (c_endpoint c)) (WithTsDiffMicros (tsDiffMicros c)
                 (NewPacketBuilder st_state (cid_Send (c_cid c)) (NowMicro (e_now E 0))
                    (cc_WindowSize (c_config c)) (ep_SynAck (c_endpoint c)))))))
      | ConnConnected \<Rightarrow> do {
          sp \<leftarrow> SentPackets (c_state c);
          rb \<leftarrow> RecvBuf (c_state c);
          let seqNum = NextSeqNum sp;
          let ackNum = rb_AckNum rb;
          let recvWindow = word_of_int (rb_Available (e_pending E) rb);
          let selectiveAck = rb_SelectiveAck (e_pending E) rb;
          Some (Some (Build (WithSelectiveAck selectiveAck (WithAckNum ackNum (WithTsDiffMicros (tsDiffMicros c)
                 (NewPacketBuilder st_state (cid_Send (c_cid c)) (NowMicro (e_now E 0)) recvWindow seqNum))))))
        }
      | ConnClosed \<Rightarrow> Some None)"

definition transmit ::
  "('t, 'l) conn_env \<Rightarrow> ('t, 'l, 'p) connection \<Rightarrow> packet \<Rightarrow> time \<Rightarrow> ('t, 'l, 'p) connection go" where
  "transmit E c pkt now =
     (let (payload, len) = (if length (Body pkt) > 0 then (Body pkt, of_nat (length (Body pkt))) else ([], 0))
      in do {
        sp \<leftarrow> SentPackets (c_state c);
        sp \<leftarrow> sp_OnTransmit (e_ctrl E) sp (h_SeqNum (Header pkt)) (h_PacketType (Header pkt)) payload len now;
        wheel \<leftarrow> tw_put (c_unacked c) (h_SeqNum (Header pkt)) pkt (sp_Timeout (e_ctrl E) sp);
        Some (send_event (newOutgoingSocketEvent pkt (CidPeer (c_cid c)))
               (set_state (SentPackets_update (\<lambda>_. Some sp)) (c\<lparr>c_unacked := wheel\<rparr>)))
      })"

text \<open>The loop of \<open>retransmitLostPackets\<close>; \<open>t\<close> is the clock reading before it.\<close>

fun retransmit_each ::
  "('t, 'l) conn_env \<Rightarrow> time \<Rightarrow> u32 \<Rightarrow> u32 \<Rightarrow> ('t, 'l, 'p) connection \<Rightarrow> time \<Rightarrow> LostPacket list
     \<Rightarrow> ('t, 'l, 'p) connection go" where
  "retransmit_each E t recvWindow tsDiff c now [] = Some c"
| "retransmit_each E t recvWindow tsDiff c now (lost # rest) = do {
     let builder = NewPacketBuilder (lp_PacketType lost) (cid_Send (c_cid c)) (NowMicro t) recvWindow (lp_SeqNum lost);
     let builder = WithPayload (lp_Data lost) builder;
     rb \<leftarrow> RecvBuf (c_state c);
     let packetInst = Build (WithSelectiveAck (rb_SelectiveAck (e_pending E) rb)
           (WithAckNum (rb_AckNum rb) (WithTsDiffMicros tsDiff builder)));
     c \<leftarrow> transmit E c packetInst now;
     retransmit_each E t recvWindow tsDiff c now rest
   }"

definition retransmitLostPackets ::
  "('t, 'l) conn_env \<Rightarrow> ('t, 'l, 'p) connection \<Rightarrow> time \<Rightarrow> ('t, 'l, 'p) connection go" where
  "retransmitLostPackets E c now =
     (if stateType (c_state c) \<noteq> ConnConnected then Some c
      else do {
        sp \<leftarrow> SentPackets (c_state c);
        (if \<not> HasLostPackets (e_lost E) sp then Some c
         else do {
           rb \<leftarrow> RecvBuf (c_state c);
           lost \<leftarrow> LostPackets (e_lost E) sp;
           retransmit_each E (e_now E 0) (word_of_int (rb_Available (e_pending E) rb)) (tsDiffMicros c) c now lost
         })
      })"

section \<open>Writing\<close>

text \<open>The first loop of \<open>processWrites\<close> takes payloads from the send buffer as far as the window allows.\<close>

lemma sb_Read_length:
  "sb_Read sb k = Some (sb', out) \<Longrightarrow> 0 \<le> k \<Longrightarrow> int (length out) \<le> k"
  by (auto simp: sb_Read_def Let_def go_slice_def bind_eq_Some_conv split: if_splits)

lemma window_shrinks:
  assumes "int (length data) \<le> uint (min w m)" and "data \<noteq> []"
  shows "unat ((w :: u32) - of_nat (length data)) = unat w - length data" and "length data \<le> unat w"
proof -
  have "int (length data) \<le> uint w" using assms(1) by (simp add: min_def word_le_def split: if_splits)
  then show le: "length data \<le> unat w" by (simp only: uint_nat of_nat_le_iff)
  then have "unat (of_nat (length data) :: u32) = length data"
    using unat_lt_u32 [of w] by (simp add: unat_of_nat)
  moreover from this le have "of_nat (length data) \<le> w" by (simp add: word_le_nat_alt)
  ultimately show "unat (w - of_nat (length data)) = unat w - length data" by (simp add: unat_sub)
qed

function compose_payloads ::
  "u16 \<Rightarrow> u32 \<Rightarrow> sendBuffer \<Rightarrow> bytes list \<Rightarrow> (sendBuffer \<times> bytes list) go" where
  "compose_payloads maxPacketSize windowSize sb payloads =
     (if windowSize > 0 then
        let maxDataSize = minUint32 windowSize (ucast (maxPacketSize - 64)) in
        case sb_Read sb (uint maxDataSize) of
          None \<Rightarrow> None
        | Some (sb', data) \<Rightarrow>
          if length data = 0 then Some (sb', payloads)
          else compose_payloads maxPacketSize (windowSize - of_nat (length data)) sb' (payloads @ [data])
      else Some (sb, payloads))"
  by pat_completeness auto

termination
proof (relation "measure (\<lambda>(m, w, sb, ps). unat w)", goal_cases)
  case (2 m w sb ps x p sb' data)
  then have "int (length data) \<le> uint (min w (ucast (m - 64)))"
    using sb_Read_length [of sb "uint x" sb' data] by simp
  then show ?case using window_shrinks [of data w "ucast (m - 64)"] 2 by (simp add: word_less_nat_alt)
qed simp

declare compose_payloads.simps [simp del]

text \<open>
  The second loop moves pending writes into the send buffer while there is room. A write that fits is
  answered; of a write that does not, a prefix is taken. \<open>wr\<close> counts the tokens of \<open>writable\<close>.
\<close>

function write_pending ::
  "sendBuffer \<Rightarrow> queuedWrite list \<Rightarrow> (nat \<times> readOrWriteResult) list \<Rightarrow> nat
     \<Rightarrow> (sendBuffer \<times> queuedWrite list \<times> (nat \<times> readOrWriteResult) list \<times> nat) go" where
  "write_pending sb [] results wr = Some (sb, [], results, wr)"
| "write_pending sb (writeReq # rest) results wr =
     (let bufSpace = sb_Available sb in
      if bufSpace \<le> 0 then Some (sb, writeReq # rest, results, wr)
      else if int (length (qw_data writeReq)) \<le> bufSpace then
        case sb_Write sb (qw_data writeReq) of
          None \<Rightarrow> None
        | Some (sb', _) \<Rightarrow>
          write_pending sb' rest
            (results @ [(qw_resultCh writeReq,
               \<lparr>res_Err = None, res_Len = int (length (qw_data writeReq)) + qw_written writeReq, res_Data = []\<rparr>)])
            (notify_token wr)
      else
        case sb_Write sb (take (nat bufSpace) (qw_data writeReq)) of
          None \<Rightarrow> None
        | Some (sb', _) \<Rightarrow>
          write_pending sb'
            (writeReq\<lparr>qw_data := drop (nat bufSpace) (qw_data writeReq),
                      qw_written := qw_written writeReq + bufSpace\<rparr> # rest)
            results (notify_token wr))"
  by pat_completeness auto
termination
  by (relation "measure (\<lambda>(sb, ws, rs, n). sum_list (map (\<lambda>w. Suc (length (qw_data w))) ws))") auto

declare write_pending.simps(2) [simp del]

text \<open>The third loop; \<open>i\<close> numbers the clock readings.\<close>

fun send_payloads ::
  "('t, 'l) conn_env \<Rightarrow> ('t, 'l, 'p) connection \<Rightarrow> u16 \<Rightarrow> u32 \<Rightarrow> u16 \<Rightarrow> SelectiveAck option \<Rightarrow> time \<Rightarrow> nat
     \<Rightarrow> bytes list \<Rightarrow> ('t, 'l, 'p) connection go" where
  "send_payloads E c seqNum recvWindow ackNum sack now i [] = Some c"
| "send_payloads E c seqNum recvWindow ackNum sack now i (payload # rest) = do {
     let packetInst = Build (WithSelectiveAck sack (WithAckNum ackNum (WithTsDiffMicros (tsDiffMicros c)
           (WithPayload payload
              (NewPacketBuilder st_data (cid_Send (c_cid c)) (NowMicro (e_now E i)) recvWindow seqNum)))));
     c \<leftarrow> transmit E c packetInst now;
     send_payloads E c (seqNum + 1) recvWindow ackNum sack now (i + 1) rest
   }"

definition processWrites ::
  "('t, 'l) conn_env \<Rightarrow> ('t, 'l, 'p) connection \<Rightarrow> time \<Rightarrow> ('t, 'l, 'p) connection go" where
  "processWrites E c now =
     (case stateType (c_state c) of
        ConnConnecting \<Rightarrow> Some c
      | ConnClosed \<Rightarrow>
          let result = \<lparr>res_Err = st_Err (c_state c), res_Len = 0, res_Data = []\<rparr>
          in Some (c\<lparr>c_results := c_results c @ map (\<lambda>w. (qw_resultCh w, result)) (c_pendingWrites c)\<rparr>)
      | ConnConnected \<Rightarrow> do {
          sp \<leftarrow> SentPackets (c_state c);
          let windowSize = minUint32 (Window (e_ctrl E) sp) (c_peerRecvWindow c);
          sb \<leftarrow> SendBuf (c_state c);
          (sb, payloads) \<leftarrow> compose_payloads (cc_MaxPacketSize (c_config c)) windowSize sb [];
          (sb, pending, results, wr) \<leftarrow> write_pending sb (c_pendingWrites c) (c_results c) (c_writable c);
          let c = set_state (SendBuf_update (\<lambda>_. Some sb))
                    (c\<lparr>c_pendingWrites := pending, c_results := results, c_writable := wr\<rparr>);
          let seqNum = NextSeqNum sp;
          rb \<leftarrow> RecvBuf (c_state c);
          let recvWindow = word_of_int (rb_Available (e_pending E) rb);
          let ackNum = rb_AckNum rb;
          let selectiveAck = rb_SelectiveAck (e_pending E) rb;
          send_payloads E c seqNum recvWindow ackNum selectiveAck now 0 payloads
        })"

definition onWrite ::
  "('t, 'l) conn_env \<Rightarrow> ('t, 'l, 'p) connection \<Rightarrow> queuedWrite \<Rightarrow> ('t, 'l, 'p) connection go" where
  "onWrite E c writeReq =
     (let writeReq = writeReq\<lparr>qw_written := 0\<rparr>;
          enqueue = c\<lparr>c_pendingWrites := c_pendingWrites c @ [writeReq]\<rparr>;
          answer = (\<lambda>e. c\<lparr>c_results := c_results c @
                      [(qw_resultCh writeReq, \<lparr>res_Err = e, res_Len = 0, res_Data = []\<rparr>)]\<rparr>);
          c = (case stateType (c_state c) of
                 ConnConnecting \<Rightarrow> enqueue
               | ConnConnected \<Rightarrow>
                   (case closing (c_state c) of
                      Some cl \<Rightarrow> if LocalFin cl = None \<and> RemoteFin cl \<noteq> None then enqueue else answer None
                    | None \<Rightarrow> enqueue)
               | ConnClosed \<Rightarrow> answer (st_Err (c_state c)))
      in do {
        c \<leftarrow> processWrites (later 1 E) c (e_now E 0);
        Some (c\<lparr>c_writable := notify_token (c_writable c)\<rparr>)
      })"

section \<open>Reading\<close>

definition conn_eof :: "('t, 'l, 'p) connection \<Rightarrow> bool go" where
  "conn_eof c =
     (case stateType (c_state c) of
        ConnConnecting \<Rightarrow> Some False
      | ConnConnected \<Rightarrow>
          (case closing (c_state c) of
             Some cl \<Rightarrow>
               (case RemoteFin cl of
                  Some fin \<Rightarrow> do { rb \<leftarrow> RecvBuf (c_state c); Some (rb_AckNum rb = fin) }
                | None \<Rightarrow> Some False)
           | None \<Rightarrow> Some False)
      | ConnClosed \<Rightarrow> Some True)"

lemma rb_Read_offset:
  "\<lbrakk> rb_Read rb k = Some (rb', out); out \<noteq> [] \<rbrakk>
     \<Longrightarrow> rb_offset rb' = rb_offset rb - int (length out) \<and> int (length out) \<le> rb_offset rb
          \<and> 0 < rb_offset rb"
  by (auto simp: rb_Read_def Let_def go_slice_def bind_eq_Some_conv split: if_splits)

text \<open>The loop of \<open>processReads\<close>; a result carries the whole buffer and the number of bytes read into it.\<close>

function read_chunks ::
  "('t, pendingItem) BTree \<Rightarrow> nat \<Rightarrow> 't receiveBuffer \<Rightarrow> readOrWriteResult list
     \<Rightarrow> ('t receiveBuffer \<times> readOrWriteResult list) go" where
  "read_chunks B maxPacketSize rb reads =
     (if rb_IsEmpty B rb then Some (rb, reads)
      else
        case rb_Read rb (int maxPacketSize) of
          None \<Rightarrow> None
        | Some (rb', out) \<Rightarrow>
          if length out = 0 then Some (rb', reads)
          else read_chunks B maxPacketSize rb'
                 (reads @ [\<lparr>res_Err = None, res_Len = int (length out),
                            res_Data = out @ replicate (maxPacketSize - length out) 0\<rparr>]))"
  by pat_completeness auto
termination
  by (relation "measure (\<lambda>(B, m, rb, rs). nat (rb_offset rb))") (auto dest!: rb_Read_offset)

declare read_chunks.simps [simp del]

definition processReads ::
  "('t, 'l) conn_env \<Rightarrow> ('t, 'l, 'p) connection \<Rightarrow> ('t, 'l, 'p) connection go" where
  "processReads E c =
     (case stateType (c_state c) of
        ConnConnecting \<Rightarrow> Some c
      | ConnClosed \<Rightarrow>
          Some (c\<lparr>c_reads := c_reads c @ [\<lparr>res_Err = st_Err (c_state c), res_Len = 0, res_Data = []\<rparr>]\<rparr>)
      | ConnConnected \<Rightarrow> do {
          c \<leftarrow> (case RecvBuf (c_state c) of
                  None \<Rightarrow> Some c
                | Some rb \<Rightarrow> do {
                    (rb, reads) \<leftarrow> read_chunks (e_pending E) (unat (cc_MaxPacketSize (c_config c))) rb (c_reads c);
                    Some (set_state (RecvBuf_update (\<lambda>_. Some rb)) (c\<lparr>c_reads := reads\<rparr>))
                  });
          atEof \<leftarrow> conn_eof c;
          Some (if atEof
                then c\<lparr>c_reads := c_reads c @ [\<lparr>res_Err = Some EOF, res_Len = 0, res_Data = []\<rparr>]\<rparr>
                else c)
        })"

section \<open>Handlers of packets\<close>

definition reset :: "goerr \<Rightarrow> ('t, 'l, 'p) connection \<Rightarrow> ('t, 'l, 'p) connection" where
  "reset err c =
     (if stateType (c_state c) = ConnConnected
         \<and> (case closing (c_state c) of Some cl \<Rightarrow> LocalFin cl \<noteq> None | None \<Rightarrow> False)
      then set_state (stateType_update (\<lambda>_. ConnClosed)) c
      else set_state (\<lambda>s. s\<lparr>stateType := ConnClosed, st_Err := Some err\<rparr>) c)"

definition onSyn :: "('t, 'l, 'p) connection \<Rightarrow> u16 \<Rightarrow> ('t, 'l, 'p) connection" where
  "onSyn c seqNum =
     (let err = (if ep_Type (c_endpoint c) = Acceptor
                 then (if seqNum \<noteq> ep_SynNum (c_endpoint c) then Some ErrInvalidSyn else None)
                 else Some ErrSynFromAcceptor)
      in case err of
           Some e \<Rightarrow> if stateType (c_state c) \<noteq> ConnClosed then reset e c else c
         | None \<Rightarrow> c)"

text \<open>\<open>make\<close> panics on a negative length.\<close>

definition make_recv_buffer ::
  "('t, 'l) conn_env \<Rightarrow> ConnectionConfig \<Rightarrow> u16 \<Rightarrow> 't receiveBuffer go" where
  "make_recv_buffer E config init =
     (if cc_BufferSize config < 0 then None
      else Some (newReceiveBuffer (e_pending E) (nat (cc_BufferSize config)) init))"

definition onState ::
  "('t, 'l) conn_env \<Rightarrow> ('t, 'l, 'p) connection \<Rightarrow> u16 \<Rightarrow> u16 \<Rightarrow> ('t, 'l, 'p) connection go" where
  "onState E c seqNum ackNum =
     (if stateType (c_state c) \<noteq> ConnConnecting then Some c
      else if ep_Type (c_endpoint c) = Initiator \<and> ackNum = ep_SynNum (c_endpoint c) then do {
        recvBuf \<leftarrow> make_recv_buffer E (c_config c) (seqNum - 1);
        let sendBuf = newSendBuffer (cc_BufferSize (c_config c));
        let congestionCtrl = newDefaultController (fromConnConfig (c_config c));
        let sentPacketsHolder = newSentPackets (e_lost E) (ep_SynNum (c_endpoint c)) congestionCtrl;
        ch \<leftarrow> connectedCh (c_state c);
        ch \<leftarrow> ch_close ch;
        Some (set_state (\<lambda>s. s\<lparr>connectedCh := Some ch, stateType := ConnConnected, RecvBuf := Some recvBuf,
                              SendBuf := Some sendBuf, SentPackets := Some sentPacketsHolder\<rparr>) c)
      }
      else Some c)"

definition onData ::
  "('t, 'l) conn_env \<Rightarrow> ('t, 'l, 'p) connection \<Rightarrow> u16 \<Rightarrow> bytes
     \<Rightarrow> (('t, 'l, 'p) connection \<times> goerr option) go" where
  "onData E c seqNum data =
     (let c = (if length data = 0 then reset ErrEmptyDataPayload c else c) in
      case stateType (c_state c) of
        ConnConnecting \<Rightarrow>
          if ep_Type (c_endpoint c) = Acceptor
          then Some (c, Some (Errorf ''unreachable: connection should be marked established''))
          else Some (c, None)
      | ConnConnected \<Rightarrow> do {
          outside \<leftarrow> (case closing (c_state c) of
              Some cl \<Rightarrow>
                (case RemoteFin cl of
                   Some fin \<Rightarrow> do {
                     rb \<leftarrow> RecvBuf (c_state c);
                     Some (\<not> Contains (newCircularRangeInclusive (rb_InitSeqNum rb) fin) seqNum)
                   }
                 | None \<Rightarrow> Some False)
            | None \<Rightarrow> Some False);
          (if outside
           then Some (set_state (\<lambda>s. s\<lparr>stateType := ConnClosed, st_Err := Some ErrInvalidSeqNum\<rparr>) c, None)
           else do {
             rb \<leftarrow> RecvBuf (c_state c);
             (if int (length data) \<le> rb_Available (e_pending E) rb then do {
                (rb, err) \<leftarrow> rb_Write (e_pending E) rb data seqNum;
                Some (set_state (RecvBuf_update (\<lambda>_. Some rb)) c, err)
              }
              else Some (c, None))
           })
        }
      | ConnClosed \<Rightarrow> Some (c, None))"

definition onFin ::
  "('t, 'l) conn_env \<Rightarrow> ('t, 'l, 'p) connection \<Rightarrow> u16 \<Rightarrow> bytes
     \<Rightarrow> (('t, 'l, 'p) connection \<times> goerr option) go" where
  "onFin E c seqNum data =
     (if stateType (c_state c) \<noteq> ConnConnected then Some (c, None)
      else
        case closing (c_state c) of
          Some cl \<Rightarrow>
            (case RemoteFin cl of
               Some fin \<Rightarrow> Some (if seqNum \<noteq> fin then reset ErrInvalidFin c else c, None)
             | None \<Rightarrow> do {
                 let c = set_state (closing_update (\<lambda>_. Some (cl\<lparr>RemoteFin := Some seqNum\<rparr>))) c;
                 rb \<leftarrow> RecvBuf (c_state c);
                 (rb, err) \<leftarrow> rb_Write (e_pending E) rb data seqNum;
                 Some (set_state (RecvBuf_update (\<lambda>_. Some rb)) c, err)
               })
        | None \<Rightarrow> do {
            rb \<leftarrow> RecvBuf (c_state c);
            (rb, err) \<leftarrow> rb_Write (e_pending E) rb data seqNum;
            let c = set_state (RecvBuf_update (\<lambda>_. Some rb)) c;
            Some (case err of
                    Some _ \<Rightarrow> (c, err)
                  | None \<Rightarrow> (set_state (closing_update (\<lambda>_. Some \<lparr>LocalFin = None, RemoteFin = Some seqNum\<rparr>)) c, None))
          })"

definition onReset :: "('t, 'l, 'p) connection \<Rightarrow> ('t, 'l, 'p) connection" where
  "onReset c = (if stateType (c_state c) \<noteq> ConnClosed then reset ErrReset c else c)"

definition processAck ::
  "('t, 'l) conn_env \<Rightarrow> ('t, 'l, 'p) connection \<Rightarrow> u16 \<Rightarrow> SelectiveAck option \<Rightarrow> duration \<Rightarrow> time
     \<Rightarrow> (('t, 'l, 'p) connection \<times> goerr option) go" where
  "processAck E c ackNum selectiveAck delay now =
     (if stateType (c_state c) \<noteq> ConnConnected then Some (c, None)
      else do {
        sp \<leftarrow> SentPackets (c_state c);
        (sp, res) \<leftarrow> onAck (e_lost E) (e_ctrl E) sp ackNum selectiveAck delay now;
        let c = set_state (SentPackets_update (\<lambda>_. Some sp)) c;
        Some (case res of
                Inl err \<Rightarrow> (if err = ErrInvalidAckNum then reset err c else c, Some err)
              | Inr (fullAcked, selectedAcks) \<Rightarrow>
                  let wheel = tw_retain (\<lambda>key. Contains fullAcked key) (c_unacked c);
                      wheel = fold tw_remove selectedAcks wheel
                  in (c\<lparr>c_unacked := wheel\<rparr>, None))
      })"

text \<open>
  \<open>math.Pow(1.5, n)\<close> for the small numbers of attempts, and its conversion to a \<open>time.Duration\<close>. The
  powers up to \<open>1.5^33\<close> are exact.
\<close>

definition backoff_factor :: "int \<Rightarrow> int" where
  "backoff_factor attempts = int64_of (Fin (rnd ((3 / 2) ^ nat attempts)))"

definition onTimeout ::
  "('t, 'l) conn_env \<Rightarrow> ('t, 'l, 'p) connection \<Rightarrow> packet \<Rightarrow> time \<Rightarrow> ('t, 'l, 'p) connection go" where
  "onTimeout E c originPacket now =
     (case stateType (c_state c) of
        ConnConnecting \<Rightarrow>
          if ep_Type (c_endpoint c) = Acceptor then Some c
          else if ep_Attempts (c_endpoint c) \<ge> cc_MaxConnAttempts (c_config c) then do {
            ch \<leftarrow> (case connectedCh (c_state c) of
                     None \<Rightarrow> Some None
                   | Some ch \<Rightarrow> map_option Some (ch_send (Some ErrTimedOut) ch));
            Some (set_state (\<lambda>s. s\<lparr>connectedCh := ch, stateType := ConnClosed, st_Err := Some ErrTimedOut\<rparr>) c)
          }
          else do {
            let seq = ep_SynNum (c_endpoint c);
            let c = c\<lparr>c_endpoint := (c_endpoint c)\<lparr>ep_Attempts := ep_Attempts (c_endpoint c) + 1\<rparr>\<rparr>;
            let timeout = wrap64 (cc_InitialTimeout (c_config c) * backoff_factor (ep_Attempts (c_endpoint c)));
            wheel \<leftarrow> tw_put (c_unacked c) seq originPacket timeout;
            Some (send_event (newOutgoingSocketEvent (synPacket E c seq) (CidPeer (c_cid c)))
                    (c\<lparr>c_unacked := wheel\<rparr>))
          }
      | ConnConnected \<Rightarrow>
          if h_PacketType (Header originPacket) = st_syn then Some c
          else do {
            sp \<leftarrow> SentPackets (c_state c);
            let isTimeout = (case c_latestTimeout c of
                               Some t \<Rightarrow> e_now E 0 - t > sp_Timeout (e_ctrl E) sp
                             | None \<Rightarrow> True);
            let c = (if isTimeout
                     then set_state (SentPackets_update (\<lambda>_. Some (sp_OnTimeout (e_ctrl E) sp)))
                            (c\<lparr>c_latestTimeout := Some (e_now E 1)\<rparr>)
                     else c);
            rb \<leftarrow> RecvBuf (c_state c);
            let retransmissionPacket =
              \<lparr>Header = \<lparr>h_PacketType = h_PacketType (Header originPacket),
                         h_Version = h_Version (Header originPacket),
                         h_Extension = h_Extension (Header originPacket),
                         h_ConnectionId = h_ConnectionId (Header originPacket),
                         h_Timestamp = UnixMicro (e_now E 2),
                         h_TimestampDiff = tsDiffMicros c,
                         h_WndSize = word_of_int (rb_Available (e_pending E) rb),
                         h_SeqNum = h_SeqNum (Header originPacket),
                         h_AckNum = rb_AckNum rb\<rparr>,
               Eack = rb_SelectiveAck (e_pending E) rb,
               Body = Body originPacket\<rparr>;
            transmit E c retransmissionPacket now
          }
      | ConnClosed \<Rightarrow> Some c)"

text \<open>
  The parts of \<open>onPacket\<close>: the switch over the packet type, the acknowledgement, the answer, and the
  checks at its end that close the connection.
\<close>

definition dispatch_packet ::
  "('t, 'l) conn_env \<Rightarrow> ('t, 'l, 'p) connection \<Rightarrow> packet \<Rightarrow> ('t, 'l, 'p) connection go" where
  "dispatch_packet E c pkt =
     (let ty = h_PacketType (Header pkt); seqNum = h_SeqNum (Header pkt) in
      if ty = st_syn then Some (onSyn c seqNum)
      else if ty = st_state then onState E c seqNum (h_AckNum (Header pkt))
      else if ty = st_data then map_option fst (onData E c seqNum (Body pkt))
      else if ty = st_fin then map_option fst (onFin E c seqNum (Body pkt))
      else if ty = st_reset then Some (onReset c)
      else Some c)"

definition answer_packet ::
  "('t, 'l) conn_env \<Rightarrow> ('t, 'l, 'p) connection \<Rightarrow> packet \<Rightarrow> ('t, 'l, 'p) connection go" where
  "answer_packet E c pkt =
     (let ty = h_PacketType (Header pkt); send = (\<lambda>p. send_event (newOutgoingSocketEvent p (CidPeer (c_cid c)))) in
      if ty = st_syn then
        (if c_synState c = None then do {
           p \<leftarrow> statePacket E c;
           Some (case p of
                   Some statePkt \<Rightarrow> send statePkt (c\<lparr>c_synState := Some statePkt\<rparr>)
                 | None \<Rightarrow> send (Build (NewPacketBuilder st_reset (h_ConnectionId (Header pkt))
                             (NowMicro (e_now E 1)) 100000 (e_rand E))) c)
         }
         else Some c)
      else if ty = st_data \<or> ty = st_fin then do {
        p \<leftarrow> statePacket E c;
        Some (case p of Some statePkt \<Rightarrow> send statePkt c | None \<Rightarrow> c)
      }
      else Some c)"

definition closed_with_nil :: "('t, 'l, 'p) connection \<Rightarrow> ('t, 'l, 'p) connection" where
  "closed_with_nil c = set_state (\<lambda>s. s\<lparr>stateType := ConnClosed, st_Err := None\<rparr>) c"

definition local_fin :: "('t, 'l, 'p) connection \<Rightarrow> u16 option" where
  "local_fin c = (if stateType (c_state c) = ConnConnected
                  then Option.bind (closing (c_state c)) LocalFin else None)"

definition remote_fin :: "('t, 'l, 'p) connection \<Rightarrow> u16 option" where
  "remote_fin c = (if stateType (c_state c) = ConnConnected
                   then Option.bind (closing (c_state c)) RemoteFin else None)"

definition close_checks ::
  "('t, 'l) conn_env \<Rightarrow> ('t, 'l, 'p) connection \<Rightarrow> ('t, 'l, 'p) connection go" where
  "close_checks E c = do {
     c \<leftarrow> (case local_fin c of
             Some fin \<Rightarrow> do {
               sp \<leftarrow> SentPackets (c_state c);
               let (lastAckNum, isNone) = LastAckNum sp;
               Some (if \<not> isNone \<and> lastAckNum = fin then closed_with_nil c else c)
             }
           | None \<Rightarrow> Some c);
     c \<leftarrow> (case remote_fin c of
             Some fin \<Rightarrow> do {
               sp \<leftarrow> SentPackets (c_state c);
               rb \<leftarrow> RecvBuf (c_state c);
               (if \<not> HasUnackedPackets sp \<and> rb_AckNum rb = fin
                then map_option closed_with_nil (processReads E c) else Some c)
             }
           | None \<Rightarrow> Some c);
     Some (if remote_fin c \<noteq> None \<and> local_fin c \<noteq> None then closed_with_nil c else c)
   }"

definition onPacket ::
  "('t, 'l) conn_env \<Rightarrow> ('t, 'l, 'p) connection \<Rightarrow> packet \<Rightarrow> time \<Rightarrow> ('t, 'l, 'p) connection go" where
  "onPacket E c pkt now =
     (let ty = h_PacketType (Header pkt);
          nowMicros = UnixMicro (e_now E 0);
          peerTsDiff = 1000 * (nowMicros - uint (h_TimestampDiff (Header pkt)));
          c = c\<lparr>c_peerRecvWindow := h_WndSize (Header pkt),
                c_peerTsDiff := (if peerTsDiff > cc_MaxIdleTimeout (c_config c) then 1000000000
                                 else peerTsDiff)\<rparr>
      in do {
        c \<leftarrow> dispatch_packet E c pkt;
        c \<leftarrow> (if ty = st_state \<or> ty = st_data \<or> ty = st_fin
               then map_option fst (processAck E c (h_AckNum (Header pkt)) (Eack pkt)
                      (uint (h_TimestampDiff (Header pkt)) * 1000) now)
               else Some c);
        c \<leftarrow> retransmitLostPackets (later 1 E) c now;
        c \<leftarrow> answer_packet (later 2 E) c pkt;
        let c = (if ty = st_state then c\<lparr>c_writable := notify_token (c_writable c)\<rparr> else c);
        let c = (if length (Body pkt) > 0 \<or> ty = st_fin
                 then c\<lparr>c_readable := notify_token (c_readable c)\<rparr> else c);
        close_checks E c
      })"

section \<open>Shutting down\<close>

text \<open>The packet both branches of \<open>shutdown\<close> build; \<open>NowMicro\<close> is reading 0, \<open>transmit\<close> takes reading 1.\<close>

definition send_fin ::
  "('t, 'l) conn_env \<Rightarrow> ('t, 'l, 'p) connection \<Rightarrow> (u16 \<Rightarrow> ('t, 'l, 'p) connection \<Rightarrow> ('t, 'l, 'p) connection)
     \<Rightarrow> (('t, 'l, 'p) connection \<times> u16) go" where
  "send_fin E c record_fin = do {
     rb \<leftarrow> RecvBuf (c_state c);
     sp \<leftarrow> SentPackets (c_state c);
     let recvWindow = word_of_int (rb_Available (e_pending E) rb);
     let seqNum = NextSeqNum sp;
     let fin = Build (WithSelectiveAck (rb_SelectiveAck (e_pending E) rb) (WithAckNum (rb_AckNum rb)
                 (NewPacketBuilder st_fin (cid_Send (c_cid c)) (NowMicro (e_now E 0)) recvWindow seqNum)));
     c \<leftarrow> transmit E (record_fin seqNum c) fin (e_now E 1);
     Some (c, seqNum)
   }"

definition nothing_to_send :: "('t, 'l, 'p) connection \<Rightarrow> bool go" where
  "nothing_to_send c =
     (if length (c_pendingWrites c) \<noteq> 0 then Some False
      else do { sb \<leftarrow> SendBuf (c_state c); Some (sb_IsEmpty sb) })"

definition shutdown_conn ::
  "('t, 'l) conn_env \<Rightarrow> ('t, 'l, 'p) connection \<Rightarrow> ('t, 'l, 'p) connection go" where
  "shutdown_conn E c =
     (case stateType (c_state c) of
        ConnConnecting \<Rightarrow> Some (set_state (stateType_update (\<lambda>_. ConnClosed)) c)
      | ConnClosed \<Rightarrow> Some c
      | ConnConnected \<Rightarrow>
          (case closing (c_state c) of
             Some cl \<Rightarrow> do {
               idle \<leftarrow> (if LocalFin cl \<noteq> None then Some False else nothing_to_send c);
               (if idle
                then map_option fst (send_fin E c
                       (\<lambda>seqNum. set_state (closing_update (\<lambda>_. Some (cl\<lparr>LocalFin := Some seqNum\<rparr>)))))
                else Some c)
             }
           | None \<Rightarrow> do {
               idle \<leftarrow> nothing_to_send c;
               (c, localFin) \<leftarrow> (if idle then map_option (\<lambda>(c, n). (c, Some n)) (send_fin E c (\<lambda>_ c. c))
                                  else Some (c, None));
               Some (set_state (closing_update (\<lambda>_. Some \<lparr>LocalFin = localFin, RemoteFin = None\<rparr>)) c)
             }))"

section \<open>The event loop\<close>

text \<open>What the loop shares with its stream: the two channels it receives from, and the shutdown flag.\<close>

record streamChans =
  st_streamEvents :: "streamEvent list"
  st_writes :: "queuedWrite list"
  st_shutdown :: bool

text \<open>\<open>eventLoop\<close> up to its loop.\<close>

definition loop_start ::
  "('t, 'l) conn_env \<Rightarrow> ('t, 'l, 'p) connection \<Rightarrow> ('t, 'l, 'p) connection go" where
  "loop_start E c =
     (if ep_Type (c_endpoint c) = Initiator then do {
        let synSeqNum = ep_SynNum (c_endpoint c);
        let synPkt = synPacket E c synSeqNum;
        let c = send_event (newOutgoingSocketEvent synPkt (CidPeer (c_cid c))) c;
        wheel \<leftarrow> tw_put (c_unacked c) synSeqNum synPkt (cc_InitialTimeout (c_config c));
        Some (c\<lparr>c_unacked := wheel, c_endpoint := (c_endpoint c)\<lparr>ep_Attempts := 1\<rparr>\<rparr>)
      }
      else do {
        p \<leftarrow> statePacket E c;
        statePkt \<leftarrow> p;
        let c = send_event (newOutgoingSocketEvent statePkt (CidPeer (c_cid c))) (c\<lparr>c_synState := p\<rparr>);
        recvBuf \<leftarrow> make_recv_buffer E (c_config c) (ep_SynNum (c_endpoint c));
        let sendBuf = newSendBuffer (cc_BufferSize (c_config c));
        let congestionCtrl = newDefaultController (fromConnConfig (c_config c));
        let sentPacketsHolder = newSentPackets (e_lost E) (ep_SynAck (c_endpoint c) - 1) congestionCtrl;
        ch \<leftarrow> connectedCh (c_state c);
        ch \<leftarrow> ch_send None ch;
        Some (set_state (\<lambda>s. s\<lparr>connectedCh := Some ch, stateType := ConnConnected, RecvBuf := Some recvBuf,
                              SendBuf := Some sendBuf, SentPackets := Some sentPacketsHolder\<rparr>) c)
      })"

text \<open>
  The cases of the two \<open>select\<close> statements. \<open>ready\<close> tells when a case can be taken: an incoming event
  is taken first, the others only when none is waiting; which of these comes next is open. The idle
  timer and the context may fire at any time.
\<close>

datatype loop_case =
  CaseIncoming | CaseWrite | CaseReadable | CaseWritable | CaseTimeout | CaseIdle | CaseDone

fun ready :: "loop_case \<Rightarrow> streamChans \<Rightarrow> ('t, 'l, 'p) connection \<Rightarrow> bool" where
  "ready CaseIncoming st c \<longleftrightarrow> st_streamEvents st \<noteq> []"
| "ready CaseWrite st c \<longleftrightarrow> st_streamEvents st = [] \<and> st_writes st \<noteq> []"
| "ready CaseReadable st c \<longleftrightarrow> st_streamEvents st = [] \<and> c_readable c > 0"
| "ready CaseWritable st c \<longleftrightarrow> st_streamEvents st = [] \<and> c_writable c > 0"
| "ready CaseTimeout st c \<longleftrightarrow> st_streamEvents st = [] \<and> c_unackTimeoutCh c \<noteq> []"
| "ready CaseIdle st c \<longleftrightarrow> st_streamEvents st = []"
| "ready CaseDone st c \<longleftrightarrow> st_streamEvents st = []"

definition handleIncoming ::
  "('t, 'l) conn_env \<Rightarrow> streamEvent \<Rightarrow> streamChans \<Rightarrow> ('t, 'l, 'p) connection
     \<Rightarrow> (streamChans \<times> ('t, 'l, 'p) connection) go" where
  "handleIncoming E event st c =
     (if ev_Type event = streamIncoming then do {
        pkt \<leftarrow> ev_Packet event;
        c \<leftarrow> onPacket (later 1 E) c pkt (e_now E 0);
        Some (st, c)
      }
      else if ev_Type event = streamShutdown then Some (st\<lparr>st_shutdown := True\<rparr>, c)
      else Some (st, c))"

definition handleIdleTimeout :: "('t, 'l, 'p) connection \<Rightarrow> ('t, 'l, 'p) connection" where
  "handleIdleTimeout c =
     (if stateType (c_state c) \<noteq> ConnClosed
      then set_state (\<lambda>s. s\<lparr>stateType := ConnClosed, st_Err := Some ErrTimedOut\<rparr>) c else c)"

definition run_case ::
  "('t, 'l) conn_env \<Rightarrow> loop_case \<Rightarrow> streamChans \<Rightarrow> ('t, 'l, 'p) connection
     \<Rightarrow> (streamChans \<times> ('t, 'l, 'p) connection) go" where
  "run_case E k st c =
     (case k of
        CaseIncoming \<Rightarrow>
          handleIncoming E (hd (st_streamEvents st)) (st\<lparr>st_streamEvents := tl (st_streamEvents st)\<rparr>) c
      | CaseWrite \<Rightarrow>
          map_option (Pair (st\<lparr>st_writes := tl (st_writes st)\<rparr>)) (onWrite E c (hd (st_writes st)))
      | CaseReadable \<Rightarrow> map_option (Pair st) (processReads E (c\<lparr>c_readable := c_readable c - 1\<rparr>))
      | CaseWritable \<Rightarrow>
          map_option (Pair st) (processWrites (later 1 E) (c\<lparr>c_writable := c_writable c - 1\<rparr>) (e_now E 0))
      | CaseTimeout \<Rightarrow>
          map_option (Pair st) (onTimeout (later 1 E) (c\<lparr>c_unackTimeoutCh := tl (c_unackTimeoutCh c)\<rparr>)
            (hd (c_unackTimeoutCh c)) (e_now E 0))
      | CaseIdle \<Rightarrow> Some (st, handleIdleTimeout c)
      | CaseDone \<Rightarrow> Some (st\<lparr>st_shutdown := True\<rparr>, c))"

text \<open>How a turn of the loop ends: the next turn, or the result of \<open>eventLoop\<close>.\<close>

datatype loop_exit = Continue | ReturnErr "goerr option" | ReturnCtxErr

definition after_select ::
  "('t, 'l) conn_env \<Rightarrow> streamChans \<Rightarrow> ('t, 'l, 'p) connection \<Rightarrow> (('t, 'l, 'p) connection \<times> loop_exit) go" where
  "after_select E st c = do {
     c \<leftarrow> (if st_shutdown st \<and> stateType (c_state c) \<noteq> ConnClosed then shutdown_conn E c else Some c);
     (if stateType (c_state c) = ConnClosed then do {
        atEof \<leftarrow> conn_eof c;
        c \<leftarrow> (if \<not> atEof then processReads E c else Some c);
        c \<leftarrow> processWrites (later 3 E) c (e_now E 2);
        let c = send_event (newShutdownSocketEvent (CidPeer (c_cid c))) c;
        Some (c, ReturnErr (st_Err (c_state c)))
      }
      else Some (c, Continue))
   }"

text \<open>The deferred \<open>unacked.stop()\<close> runs when the loop returns.\<close>

definition stop_wheel :: "('t, 'l, 'p) connection \<Rightarrow> ('t, 'l, 'p) connection go" where
  "stop_wheel c = do { wheel \<leftarrow> tw_stop (c_unacked c); Some (c\<lparr>c_unacked := wheel\<rparr>) }"

definition loop_turn ::
  "('t, 'l) conn_env \<Rightarrow> ('t, 'l) conn_env \<Rightarrow> loop_case \<Rightarrow> streamChans \<Rightarrow> ('t, 'l, 'p) connection
     \<Rightarrow> (streamChans \<times> ('t, 'l, 'p) connection \<times> loop_exit) go" where
  "loop_turn E E' k st c = do {
     (st, c) \<leftarrow> run_case E k st c;
     (c, ex) \<leftarrow> (if k = CaseDone then Some (c, ReturnCtxErr) else after_select E' st c);
     c \<leftarrow> (if ex = Continue then Some c else stop_wheel c);
     Some (st, c, ex)
   }"

text \<open>A tick of the wheel hands the expired packets to \<open>unackTimeoutCh\<close>.\<close>

definition conn_tick ::
  "((u16 \<times> packet) list \<Rightarrow> (u16 \<times> packet) list) \<Rightarrow> ('t, 'l, 'p) connection \<Rightarrow> ('t, 'l, 'p) connection go" where
  "conn_tick ord c = do {
     (wheel, expired) \<leftarrow> tw_tick ord (c_unacked c);
     Some (c\<lparr>c_unacked := wheel, c_unackTimeoutCh := c_unackTimeoutCh c @ map snd expired\<rparr>)
   }"

end
