(* ===== verification/Sent_Packets_Timed.thy ===== *)
theory Sent_Packets_Timed
  imports Sent_Packets_Props
begin

text \<open>
  What the handling of an acknowledgement leaves as it was: every property that the calls of the
  controller for acknowledgements and losses keep, proved over the contract \<open>ack_keeps\<close>. With the
  contract \<open>timed_controller\<close>, the operations keep the timers in range, as long as the clock reading of
  an acknowledgement is not before a transmission it acknowledges and not years after it.
\<close>

definition fair_acks :: "(Ack \<Rightarrow> bool) \<Rightarrow> duration \<Rightarrow> time \<Rightarrow> ('t, 'c) sentPackets \<Rightarrow> bool" where
  "fair_acks fair delay now s \<longleftrightarrow>
     (\<forall>p \<in> set (sp_packets s). fair \<lparr>ack_Delay = delay, ack_RTT = sent_rtt p now, ack_ReceivedAt = now\<rparr>)"

lemma fair_acks_update:
  assumes "fair_acks fair delay now s" and "i < length (sp_packets s)"
    and "sent_rtt q now = sent_rtt (sp_packets s ! i) now"
    and "sp_packets s' = (sp_packets s)[i := q]"
  shows "fair_acks fair delay now s'"
  using assms set_update_subset_insert [of "sp_packets s" i q] nth_mem [OF assms(2)]
  unfolding fair_acks_def by (metis insertE subsetD)

definition sp_kept ::
  "('c \<Rightarrow> bool) \<Rightarrow> (Ack \<Rightarrow> bool) \<Rightarrow> duration \<Rightarrow> time \<Rightarrow> ('t, 'c) sentPackets \<Rightarrow> bool" where
  "sp_kept kept fair delay now s \<longleftrightarrow> kept (sp_congestionCtrl s) \<and> fair_acks fair delay now s"

context ack_keeps
begin

abbreviation tinv :: "duration \<Rightarrow> time \<Rightarrow> ('t, 'c) sentPackets \<Rightarrow> bool" where
  "tinv \<equiv> sp_kept kept fair"

lemma Ack_kept:
  assumes "sp_Ack B C delay now s x = Some (s', e)" and "tinv delay now s"
  shows "tinv delay now s'"
proof -
  let ?i = "SeqNumIndex s x"
  let ?p = "sp_packets s ! ?i"
  have i: "?i < length (sp_packets s)" using assms(1) by (auto simp: sp_Ack_def Let_def split: if_splits)
  let ?a = "\<lparr>ack_Delay = delay, ack_RTT = sent_rtt ?p now, ack_ReceivedAt = now\<rparr>"
  obtain c' e' where c': "ct_OnAck C (sp_congestionCtrl s) (sent_seqNum ?p) ?a = (c', e')" by fastforce
  have s: "kept (sp_congestionCtrl s)" "fair_acks fair delay now s" using assms(2) by (auto simp: sp_kept_def)
  then have "fair ?a" using i by (simp add: fair_acks_def)
  then have t: "kept c'" using kept_ack [OF s(1) _ c'] by blast
  have f: "fair_acks fair delay now (s\<lparr>sp_congestionCtrl := c'\<rparr>)" using s(2) by (simp add: fair_acks_def)
  have "fair_acks fair delay now
      (s\<lparr>sp_congestionCtrl := c', sp_packets := (sp_packets s)[?i := ?p\<lparr>acks := acks ?p @ [now]\<rparr>],
         sp_lostPackets := l\<rparr>)" for l
    by (rule fair_acks_update [OF s(2) i]) (simp_all add: sent_rtt_def)
  then show ?thesis
    using assms(1) i t f c'
    by (auto simp: sp_kept_def sp_Ack_def Let_def split: if_splits option.splits)
qed

lemma ack_each_kept:
  "\<lbrakk> sp_ack_each B C delay now s xs = Some (s', e); tinv delay now s \<rbrakk> \<Longrightarrow> tinv delay now s'"
proof (induction xs arbitrary: s)
  case (Cons x xs)
  then obtain s1 e1 where s1: "sp_Ack B C delay now s x = Some (s1, e1)"
    "(case e1 of Some _ \<Rightarrow> Some (s1, e1) | None \<Rightarrow> sp_ack_each B C delay now s1 xs) = Some (s', e)"
    by (auto simp: bind_eq_Some_conv)
  with Cons.IH [of s1] Ack_kept [OF s1(1) Cons.prems(2)] show ?case by (auto split: option.splits)
qed simp

lemma sack_loop_kept:
  "\<lbrakk> sp_sack_loop B C delay now r s x fs = Some (s', e); tinv delay now s \<rbrakk> \<Longrightarrow> tinv delay now s'"
proof (induction fs arbitrary: s x)
  case (Cons f fs)
  show ?case
  proof (cases "Contains r x \<and> f")
    case True
    then obtain s1 e1 where s1: "sp_Ack B C delay now s x = Some (s1, e1)"
      "(case e1 of Some _ \<Rightarrow> Some (s1, e1) | None \<Rightarrow> sp_sack_loop B C delay now r s1 (x + 1) fs) = Some (s', e)"
      using Cons.prems(1) by (auto simp: bind_eq_Some_conv)
    with Cons.IH [of s1] Ack_kept [OF s1(1) Cons.prems(2)] show ?thesis by (auto split: option.splits)
  next
    case False
    with Cons show ?thesis by (auto split: if_splits)
  qed
qed simp

lemma mark_lost_kept: "kept (sp_congestionCtrl s) \<Longrightarrow> kept (sp_congestionCtrl (mark_lost B C x s))"
  using kept_lost by (auto simp: mark_lost_def OnLost_def Let_def split: prod.splits)

lemma mark_lost_fold_kept:
  "kept (sp_congestionCtrl s) \<Longrightarrow> kept (sp_congestionCtrl (fold (mark_lost B C) xs s))"
  by (induction xs arbitrary: s) (simp_all add: mark_lost_kept)

lemma OnSelectiveAck_kept:
  assumes "OnSelectiveAck B C delay now s x sack = Some (s', e)" and "tinv delay now s"
  shows "tinv delay now s'"
proof -
  obtain s1 e1 where s1: "sp_Ack B C delay now s x = Some (s1, e1)"
    "(case e1 of Some _ \<Rightarrow> Some (s1, e1)
      | None \<Rightarrow> sp_sack_loop B C delay now (SeqNumRange s1) s1 (x + 2) (Acked sack)) = Some (s', e)"
    using assms(1) by (auto simp: OnSelectiveAck_def bind_eq_Some_conv)
  with Ack_kept [OF s1(1) assms(2)] sack_loop_kept show ?thesis by (auto split: option.splits)
qed

lemma AckPriorUnacked_kept:
  "\<lbrakk> AckPriorUnacked B C delay now s x k = Some (s', e); tinv delay now s \<rbrakk> \<Longrightarrow> tinv delay now s'"
  using ack_each_kept by (auto simp: AckPriorUnacked_def bind_eq_Some_conv Let_def split: if_splits)

lemma OnAckNum_kept:
  assumes "OnAckNum B C delay now s x sack = Some (s', e)" and "tinv delay now s"
  shows "kept (sp_congestionCtrl s')"
proof -
  obtain s1 e1 where s1: "(case sack of Some k \<Rightarrow> OnSelectiveAck B C delay now s x k
        | None \<Rightarrow> sp_Ack B C delay now s x) = Some (s1, e1)"
    using assms(1) by (auto simp: OnAckNum_def bind_eq_Some_conv)
  then have t1: "tinv delay now s1"
    using Ack_kept [OF _ assms(2)] OnSelectiveAck_kept [OF _ assms(2)] by (auto split: option.splits)
  then have t: "kept (sp_congestionCtrl s1)" by (simp add: sp_kept_def)
  have prior: "kept (sp_congestionCtrl s2)" if "AckPriorUnacked B C delay now s1 x k = Some (s2, e2)" for k s2 e2
    using AckPriorUnacked_kept [OF that t1] by (simp add: sp_kept_def)
  show ?thesis
    using assms(1) t prior
    by (auto simp: OnAckNum_def s1 bind_eq_Some_conv intro!: mark_lost_fold_kept
        split: option.splits sum.splits)
qed

lemma onAck_kept:
  assumes "onAck B C s x sack delay now = Some (s', r)" and "tinv delay now s"
  shows "kept (sp_congestionCtrl s')"
  using assms(1) OnAckNum_kept [OF _ assms(2)] assms(2)
  by (auto simp: sp_kept_def onAck_def Let_def bind_eq_Some_conv split: option.splits if_splits)

end

context timed_controller
begin

lemma OnTransmit_timed:
  "\<lbrakk> sp_OnTransmit C s x ty data n now = Some s'; timed (sp_congestionCtrl s) \<rbrakk>
     \<Longrightarrow> timed (sp_congestionCtrl s')"
  using timed_transmit
  by (auto simp: sp_OnTransmit_def Let_def split: if_splits option.splits prod.splits)

lemma sp_OnTimeout_timed: "timed (sp_congestionCtrl s) \<Longrightarrow> timed (sp_congestionCtrl (sp_OnTimeout C s))"
  by (simp add: sp_OnTimeout_def timed_timeout)

lemma sp_Timeout_nonneg: "timed (sp_congestionCtrl s) \<Longrightarrow> 0 \<le> sp_Timeout C s"
  by (simp add: sp_Timeout_def timeout_nonneg)

end

end
