(* ===== verification/Connection_Loops.thy ===== *)
theory Connection_Loops
  imports Connection Sent_Packets_Timed
begin

text \<open>
  Lemmas for the handlers of a connection: the fields its updates leave alone, the packets on its
  timer wheel, and what its loops do: composing payloads, moving pending writes into the send buffer,
  and reading the receive buffer out.
\<close>

section \<open>Frames\<close>

lemma set_state_simps [simp]:
  "c_state (set_state f c) = f (c_state c)" "c_cid (set_state f c) = c_cid c"
  "c_config (set_state f c) = c_config c" "c_endpoint (set_state f c) = c_endpoint c"
  "c_peerTsDiff (set_state f c) = c_peerTsDiff c" "c_peerRecvWindow (set_state f c) = c_peerRecvWindow c"
  "c_socketEvents (set_state f c) = c_socketEvents c" "c_unacked (set_state f c) = c_unacked c"
  "c_unackTimeoutCh (set_state f c) = c_unackTimeoutCh c" "c_reads (set_state f c) = c_reads c"
  "c_readable (set_state f c) = c_readable c" "c_pendingWrites (set_state f c) = c_pendingWrites c"
  "c_writable (set_state f c) = c_writable c" "c_results (set_state f c) = c_results c"
  "c_latestTimeout (set_state f c) = c_latestTimeout c" "c_synState (set_state f c) = c_synState c"
  by (simp_all add: set_state_def)

lemma send_event_simps [simp]:
  "c_state (send_event ev c) = c_state c" "c_cid (send_event ev c) = c_cid c"
  "c_config (send_event ev c) = c_config c" "c_endpoint (send_event ev c) = c_endpoint c"
  "c_peerTsDiff (send_event ev c) = c_peerTsDiff c"
  "c_peerRecvWindow (send_event ev c) = c_peerRecvWindow c"
  "c_socketEvents (send_event ev c) = c_socketEvents c @ [ev]" "c_unacked (send_event ev c) = c_unacked c"
  "c_unackTimeoutCh (send_event ev c) = c_unackTimeoutCh c" "c_reads (send_event ev c) = c_reads c"
  "c_readable (send_event ev c) = c_readable c" "c_pendingWrites (send_event ev c) = c_pendingWrites c"
  "c_writable (send_event ev c) = c_writable c" "c_results (send_event ev c) = c_results c"
  "c_latestTimeout (send_event ev c) = c_latestTimeout c" "c_synState (send_event ev c) = c_synState c"
  by (simp_all add: send_event_def)

lemma later_simps [simp]:
  "e_pending (later k E) = e_pending E" "e_lost (later k E) = e_lost E"
  "e_ackClock (later k E) = e_ackClock E" "e_rand (later k E) = e_rand E"
  by (simp_all add: later_def)

section \<open>The packets on the wheel\<close>

definition wheel_packets :: "('k, 'p) timeWheel \<Rightarrow> 'p set" where
  "wheel_packets tw = (\<Union>slot \<in> set (tw_slots tw). snd ` set slot)"

lemma snd_set_update: "snd ` set (AList.update k v al) \<subseteq> insert v (snd ` set al)"
  by (induction al) auto

lemma wheel_put:
  assumes "tw_wf tw" and "0 \<le> d"
  shows "\<exists>w. tw_put tw k p d = Some w \<and> tw_wf w \<and> tw_stopped w = tw_stopped tw
     \<and> wheel_packets w \<subseteq> insert p (wheel_packets tw)"
proof -
  let ?i = "(tw_current tw + tw_wait tw d) mod tw_slotNum tw"
  let ?w = "tw\<lparr>tw_slots := (tw_slots tw)[?i := AList.update k p (tw_slots tw ! ?i)]\<rparr>"
  have i: "?i < length (tw_slots tw)" using tw_wfD(2,4) [OF assms(1)] by simp
  have "tw_wf ?w" using tw_wf_put [OF assms(1), of ?i] i tw_wfD(4) [OF assms(1)] by simp
  moreover have "wheel_packets ?w \<subseteq> insert p (wheel_packets tw)"
  proof -
    let ?u = "AList.update k p (tw_slots tw ! ?i)"
    have "wheel_packets ?w \<subseteq> snd ` set ?u \<union> wheel_packets tw"
      using set_update_subset_insert [of "tw_slots tw" ?i ?u] by (auto simp: wheel_packets_def)
    moreover have "snd ` set (tw_slots tw ! ?i) \<subseteq> wheel_packets tw"
      using nth_mem [OF i] by (auto simp: wheel_packets_def)
    ultimately show ?thesis using snd_set_update [of k p "tw_slots tw ! ?i"] by blast
  qed
  ultimately show ?thesis using tw_put_eq [OF assms] by simp
qed

lemma wheel_retain:
  assumes "tw_wf tw"
  shows "tw_wf (tw_retain rm tw)" "tw_stopped (tw_retain rm tw) = tw_stopped tw"
    "wheel_packets (tw_retain rm tw) \<subseteq> wheel_packets tw"
  using wheel.retain_left [OF assms, of rm] by (auto simp: tw_retain_def wheel_packets_def)

lemma remove_first_sub:
  "slot \<in> set (remove_first k slots) \<Longrightarrow>
     \<exists>s \<in> set slots. set slot \<subseteq> set s \<and> (distinct (map fst s) \<longrightarrow> distinct (map fst slot))"
proof (induction slots)
  case (Cons s slots)
  have "set (AList.delete k s) \<subseteq> set s" "distinct (map fst s) \<Longrightarrow> distinct (map fst (AList.delete k s))"
    by (auto simp: AList.delete_eq distinct_map_filter)
  with Cons show ?case by (auto split: if_splits)
qed simp

lemma wheel_remove:
  assumes "tw_wf tw"
  shows "tw_wf (tw_remove k tw)" "tw_stopped (tw_remove k tw) = tw_stopped tw"
    "wheel_packets (tw_remove k tw) \<subseteq> wheel_packets tw"
proof -
  show "tw_wf (tw_remove k tw)"
    using assms remove_first_sub [of _ k "tw_slots tw"] unfolding tw_wf_def tw_remove_def by auto
  show "wheel_packets (tw_remove k tw) \<subseteq> wheel_packets tw"
    using remove_first_sub [of _ k "tw_slots tw"] by (fastforce simp: tw_remove_def wheel_packets_def)
qed (simp add: tw_remove_def)

lemma wheel_remove_all:
  "tw_wf tw \<Longrightarrow> tw_wf (fold tw_remove ks tw) \<and> tw_stopped (fold tw_remove ks tw) = tw_stopped tw
     \<and> wheel_packets (fold tw_remove ks tw) \<subseteq> wheel_packets tw"
proof (induction ks arbitrary: tw)
  case (Cons k ks)
  show ?case using Cons.IH [OF wheel_remove(1) [OF Cons.prems, of k]] wheel_remove [OF Cons.prems, of k] by auto
qed simp

lemma wheel_tick:
  assumes "permutes_entries ord" and "tw_wf tw"
  shows "\<exists>w out. tw_tick ord tw = Some (w, out) \<and> tw_wf w \<and> tw_stopped w = tw_stopped tw
     \<and> wheel_packets w \<union> snd ` set out \<subseteq> wheel_packets tw"
proof -
  note wf = tw_wfD [OF assms(2)]
  let ?slot = "tw_slots tw ! tw_current tw"
  let ?w = "tw\<lparr>tw_slots := (tw_slots tw)[tw_current tw := []],
      tw_current := (tw_current tw + 1) mod tw_slotNum tw\<rparr>"
  have run: "tw_tick ord tw = Some (?w, ord ?slot)" using wf by (simp add: tw_tick_def Let_def)
  have "tw_wf ?w" using countdown.tick_left [OF wheel_countdown [OF assms(1)] assms(2)] run by auto
  moreover have "distinct ?slot" using wf(6) [OF wf(3)] by (simp add: distinct_map)
  then have "set (ord ?slot) = set ?slot" using assms(1) by (simp add: permutes_entries_def)
  then have "snd ` set (ord ?slot) \<subseteq> wheel_packets tw"
    using wf(3,4) unfolding wheel_packets_def by (metis UN_upper nth_mem)
  moreover have "wheel_packets ?w \<subseteq> wheel_packets tw"
    using set_update_subset_insert [of "tw_slots tw" "tw_current tw" "[]"] by (fastforce simp: wheel_packets_def)
  ultimately show ?thesis using run by simp
qed

lemma wheel_new:
  assumes "0 < interval" and "0 < n"
  shows "\<exists>w. newTimeWheel interval n = Some w \<and> tw_wf w \<and> \<not> tw_stopped w \<and> wheel_packets w = {}"
  using assms by (auto simp: newTimeWheel_def tw_wf_def wheel_packets_def)

section \<open>The loops of \<open>processWrites\<close> and \<open>processReads\<close>\<close>

lemma compose_payloads_ok:
  assumes "sb_inv sb"
  shows "\<exists>sb' ps. compose_payloads m w sb qs = Some (sb', qs @ ps) \<and> sb_inv sb' \<and> sb_size sb' = sb_size sb
     \<and> sb_contents sb = concat ps @ sb_contents sb' \<and> [] \<notin> set ps \<and> sum_list (map length ps) \<le> unat w"
  using assms
proof (induction m w sb qs rule: compose_payloads.induct)
  case (1 m w sb qs)
  let ?k = "min w (ucast (m - 64))"
  obtain sb1 out where r: "sb_Read sb (uint ?k) = Some (sb1, out)" "sb_contents sb = out @ sb_contents sb1"
    "int (length out) \<le> uint ?k" "sb_size sb1 = sb_size sb" "sb_inv sb1"
    using sb_Read_spec [OF 1(2), of "uint ?k"] by auto
  show ?case
  proof (cases "w > 0 \<and> out \<noteq> []")
    case True
    then obtain sb' ps where ih: "compose_payloads m (w - of_nat (length out)) sb1 (qs @ [out]) = Some (sb', (qs @ [out]) @ ps)"
      "sb_inv sb'" "sb_size sb' = sb_size sb1" "sb_contents sb1 = concat ps @ sb_contents sb'" "[] \<notin> set ps"
      "sum_list (map length ps) \<le> unat (w - of_nat (length out))"
      using 1(1) [OF _ refl, of "(sb1, out)" sb1 out] r by auto
    have "compose_payloads m w sb qs = Some (sb', qs @ (out # ps))"
      using True r(1) ih(1) by (subst compose_payloads.simps) simp
    moreover have "sum_list (map length (out # ps)) \<le> unat w"
      using ih(6) window_shrinks [of out w "ucast (m - 64)"] r(3) True by simp
    ultimately show ?thesis
      using True r(2,4) ih(2-5) by (intro exI [of _ sb'] exI [of _ "out # ps"]) auto
  next
    case False
    show ?thesis
    proof (cases "w > 0")
      case True
      with False r show ?thesis
        by (subst compose_payloads.simps) (auto intro!: exI [of _ sb1])
    next
      case F: False
      with 1(2) show ?thesis
        by (subst compose_payloads.simps) auto
    qed
  qed
qed

text \<open>
  A write's total is what it has handed over already and what is left of it. The second loop answers
  a prefix of the writes, each with its total, and keeps the totals of the others; it stops when no
  write is left or no room.
\<close>

definition write_total :: "queuedWrite \<Rightarrow> int" where
  "write_total w = qw_written w + int (length (qw_data w))"

definition answered :: "queuedWrite \<Rightarrow> nat \<times> readOrWriteResult" where
  "answered w = (qw_resultCh w, \<lparr>res_Err = None, res_Len = write_total w, res_Data = []\<rparr>)"

definition same_writes :: "queuedWrite list \<Rightarrow> queuedWrite list \<Rightarrow> bool" where
  "same_writes ws ws' \<longleftrightarrow> map qw_resultCh ws = map qw_resultCh ws' \<and> map write_total ws = map write_total ws'"

lemma notify_token_le: "n \<le> 3 \<Longrightarrow> notify_token n \<le> 3"
  by (simp add: notify_token_def)

lemma write_pending_ok:
  assumes "sb_inv sb"
  shows "\<exists>sb' ws' k wr'. write_pending sb ws rs wr = Some (sb', ws', rs @ map answered (take k ws), wr')
     \<and> sb_inv sb' \<and> sb_size sb' = sb_size sb \<and> same_writes (drop k ws) ws'
     \<and> sb_contents sb @ concat (map qw_data ws) = sb_contents sb' @ concat (map qw_data ws')
     \<and> (ws' = [] \<or> sb_Available sb' = 0) \<and> (wr \<le> 3 \<longrightarrow> wr' \<le> 3)"
  using assms
proof (induction sb ws rs wr rule: write_pending.induct)
  case (1 sb rs wr)
  then show ?case by (auto simp: same_writes_def)
next
  case (2 sb w ws rs wr)
  let ?a = "sb_Available sb" and ?d = "qw_data w"
  have nn: "0 \<le> ?a" using send_queue.avail_nonneg [OF 2(3)] .
  consider "?a = 0" | "0 < ?a" "int (length ?d) \<le> ?a" | "0 < ?a" "\<not> int (length ?d) \<le> ?a"
    using nn by linarith
  then show ?case
  proof cases
    case 1
    with 2(3) show ?thesis
      by (subst write_pending.simps) (auto simp: same_writes_def intro!: exI [of _ "0 :: nat"])
  next
    case c: 2
    obtain sb1 n where s1: "sb_Write sb ?d = Some (sb1, n)" "sb_contents sb1 = sb_contents sb @ ?d"
      "sb_size sb1 = sb_size sb" "sb_inv sb1" using sb_Write_spec [OF 2(3), of ?d] c by auto
    have na: "\<not> ?a \<le> 0" using c by simp
    have ans: "answered w = (qw_resultCh w,
        \<lparr>res_Err = None, res_Len = int (length ?d) + qw_written w, res_Data = []\<rparr>)"
      by (simp add: answered_def write_total_def)
    obtain sb' ws' k wr' where ih: "write_pending sb1 ws (rs @ [answered w]) (notify_token wr)
        = Some (sb', ws', (rs @ [answered w]) @ map answered (take k ws), wr')"
      "sb_inv sb'" "sb_size sb' = sb_size sb1" "same_writes (drop k ws) ws'"
      "sb_contents sb1 @ concat (map qw_data ws) = sb_contents sb' @ concat (map qw_data ws')"
      "ws' = [] \<or> sb_Available sb' = 0" "notify_token wr \<le> 3 \<longrightarrow> wr' \<le> 3"
      using 2(1) [OF refl na c(2) s1(1) refl s1(4), folded ans] by blast
    have "write_pending sb (w # ws) rs wr = Some (sb', ws', rs @ map answered (take (Suc k) (w # ws)), wr')"
      using c s1(1) ih(1) by (subst write_pending.simps) (simp add: ans)
    then show ?thesis
      using ih(2-7) s1(2,3) notify_token_le [of wr]
      by (intro exI [of _ sb'] exI [of _ ws'] exI [of _ "Suc k"] exI [of _ wr']) auto
  next
    case c: 3
    let ?w = "w\<lparr>qw_data := drop (nat ?a) ?d, qw_written := qw_written w + ?a\<rparr>"
    obtain sb1 n where s1: "sb_Write sb (take (nat ?a) ?d) = Some (sb1, n)"
      "sb_contents sb1 = sb_contents sb @ take (nat ?a) ?d"
      "sb_size sb1 = sb_size sb" "sb_inv sb1" using sb_Write_spec [OF 2(3), of "take (nat ?a) ?d"] by auto
    obtain sb' ws' k wr' where ih: "write_pending sb1 (?w # ws) rs (notify_token wr)
        = Some (sb', ws', rs @ map answered (take k (?w # ws)), wr')"
      "sb_inv sb'" "sb_size sb' = sb_size sb1" "same_writes (drop k (?w # ws)) ws'"
      "sb_contents sb1 @ concat (map qw_data (?w # ws)) = sb_contents sb' @ concat (map qw_data ws')"
      "ws' = [] \<or> sb_Available sb' = 0" "notify_token wr \<le> 3 \<longrightarrow> wr' \<le> 3"
      using 2(2) [OF refl _ c(2) s1(1) refl s1(4)] c by auto
    have tot: "write_total ?w = write_total w" using c by (simp add: write_total_def)
    then have "answered ?w = answered w" by (simp add: answered_def)
    then have k: "map answered (take k (?w # ws)) = map answered (take k (w # ws))"
      "same_writes (drop k (w # ws)) ws'"
      using ih(4) tot by (cases k; simp add: same_writes_def)+
    have "write_pending sb (w # ws) rs wr = Some (sb', ws', rs @ map answered (take k (w # ws)), wr')"
      using c s1(1) ih(1) k(1) by (subst write_pending.simps) simp
    moreover have "sb_contents sb @ concat (map qw_data (w # ws)) = sb_contents sb' @ concat (map qw_data ws')"
      using ih(5) by (simp add: s1(2)) (metis append_assoc append_take_drop_id)
    moreover have "sb_size sb' = sb_size sb" "wr \<le> 3 \<longrightarrow> wr' \<le> 3"
      using ih(3,7) s1(3) notify_token_le [of wr] by auto
    ultimately show ?thesis using ih(2,6) k(2) by blast
  qed
qed

text \<open>The bytes a reader takes from a list of results.\<close>

definition delivered :: "readOrWriteResult list \<Rightarrow> bytes" where
  "delivered rs = concat (map (\<lambda>r. take (nat (res_Len r)) (res_Data r)) rs)"

lemma delivered_simps [simp]:
  "delivered [] = []" "delivered (rs @ rs') = delivered rs @ delivered rs'"
  "delivered [\<lparr>res_Err = e, res_Len = n, res_Data = d\<rparr>] = take (nat n) d"
  by (simp_all add: delivered_def)

lemma delivered_Cons:
  "delivered (\<lparr>res_Err = e, res_Len = int (length d), res_Data = d @ z\<rparr> # rs) = d @ delivered rs"
  by (simp add: delivered_def)

context recv_tree
begin

lemma read_chunks_ok:
  assumes "rb_inv B invar rb"
  shows "\<exists>rb' outs. read_chunks B m rb rs = Some (rb', rs @ outs) \<and> rb_inv B invar rb'
     \<and> rb_initSeqNum rb' = rb_initSeqNum rb \<and> rb_consumed rb' = rb_consumed rb
     \<and> length (rb_buf rb') = length (rb_buf rb) \<and> (0 < m \<longrightarrow> rb_offset rb' = 0)
     \<and> (\<forall>r \<in> set outs. res_Err r = None \<and> 0 < res_Len r)
     \<and> (\<forall>chunk del. rb_stream B chunk del rb \<longrightarrow> rb_stream B chunk (del @ delivered outs) rb')"
  using assms
proof (induction "nat (rb_offset rb)" arbitrary: rb rs rule: less_induct)
  case less
  let ?out = "take m (take (nat (rb_offset rb)) (rb_buf rb))"
  obtain rb1 where r: "rb_Read rb (int m) = Some (rb1, ?out)" "rb_inv B invar rb1"
    "rb_initSeqNum rb1 = rb_initSeqNum rb" "rb_consumed rb1 = rb_consumed rb"
    "length (rb_buf rb1) = length (rb_buf rb)"
    "\<And>chunk del. rb_stream B chunk del rb \<Longrightarrow> rb_stream B chunk (del @ ?out) rb1"
    using Read_ok [OF less.prems, of "int m"] by auto
  note off = wf_offset [OF less.prems] wf_offset [OF r(2)]
  show ?case
  proof (cases "rb_IsEmpty B rb")
    case True
    then show ?thesis
      using less.prems by (subst read_chunks.simps) (auto simp: rb_IsEmpty_def intro!: exI [of _ "[]"])
  next
    case ne: False
    show ?thesis
    proof (cases "?out = []")
      case True
      then have "rb_offset rb1 = rb_offset rb" "0 < m \<longrightarrow> rb_offset rb = 0"
        using r(1) off by (auto simp: rb_Read_def Let_def go_slice_def split: if_splits)
      then show ?thesis
        using ne r True by (subst read_chunks.simps) (auto intro!: exI [of _ "[]"])
    next
      case False
      let ?r = "\<lparr>res_Err = None, res_Len = int (length ?out),
          res_Data = ?out @ replicate (m - length ?out) 0\<rparr>"
      have "nat (rb_offset rb1) < nat (rb_offset rb)" using rb_Read_offset [OF r(1) False] False by auto
      then obtain rb' outs where ih: "read_chunks B m rb1 (rs @ [?r]) = Some (rb', (rs @ [?r]) @ outs)"
        "rb_inv B invar rb'" "rb_initSeqNum rb' = rb_initSeqNum rb1" "rb_consumed rb' = rb_consumed rb1"
        "length (rb_buf rb') = length (rb_buf rb1)" "0 < m \<longrightarrow> rb_offset rb' = 0"
        "\<forall>r \<in> set outs. res_Err r = None \<and> 0 < res_Len r"
        "\<And>chunk del. rb_stream B chunk del rb1 \<Longrightarrow> rb_stream B chunk (del @ delivered outs) rb'"
        using less.hyps [OF _ r(2), of "rs @ [?r]"] by blast
      have "read_chunks B m rb rs = Some (rb', rs @ (?r # outs))"
        using ne False r(1) ih(1) by (subst read_chunks.simps) simp
      moreover have "delivered (?r # outs) = ?out @ delivered outs" by (rule delivered_Cons)
      then have "rb_stream B chunk del rb \<Longrightarrow> rb_stream B chunk (del @ delivered (?r # outs)) rb'" for chunk del
        using ih(8) [OF r(6)] by (simp only: append_assoc)
      moreover have "\<forall>r \<in> set (?r # outs). res_Err r = None \<and> 0 < res_Len r" using False ih(7) by auto
      ultimately show ?thesis using ih(2-6) r(3-5) by metis
    qed
  qed
qed

end

end
