(* ===== verification/Connection_Inv.thy ===== *)
theory Connection_Inv
  imports Connection_Loops
begin

text \<open>
  The invariant of a connection, and the lemmas that its handlers keep it and do not panic. They hold
  for every pair of trees that keep the contracts, joined in the locale \<open>conn_trees\<close>.
\<close>

section \<open>The invariant\<close>

definition sent_nums :: "('l, 'c) sentPackets \<Rightarrow> u16 set" where
  "sent_nums sp = seq_at sp ` {..<length (sp_packets sp)}"

abbreviation is_syn :: "packet \<Rightarrow> bool" where
  "is_syn p \<equiv> h_PacketType (Header p) = st_syn"

text \<open>The packets whose timers run, or have expired and wait for the event loop.\<close>

definition outstanding :: "('t, 'l, 'p) connection \<Rightarrow> packet set" where
  "outstanding c = wheel_packets (c_unacked c) \<union> set (c_unackTimeoutCh c)"

text \<open>
  What the configuration must satisfy: timeouts in order and positive, room on the wheel, no
  negative buffer size, few enough attempts for the backoff not to overflow.
\<close>

definition conn_config_ok :: "ConnectionConfig \<Rightarrow> bool" where
  "conn_config_ok config \<longleftrightarrow> config_ok (fromConnConfig config) \<and> 4 \<le> cc_InitialTimeout config
     \<and> 0 \<le> cc_BufferSize config \<and> cc_MaxConnAttempts config \<le> 10"

lemma backoff_bounds:
  assumes "0 \<le> n" and "n \<le> 10"
  shows "0 \<le> backoff_factor n" and "backoff_factor n \<le> 58" and "2 \<le> n \<Longrightarrow> 2 \<le> backoff_factor n"
proof -
  have "nat n \<le> 10" using assms by simp
  then have le: "(3 / 2 :: rat) ^ nat n \<le> (3 / 2) ^ 10" by (rule power_increasing) simp
  also have "(3 / 2 :: rat) ^ 10 \<le> of_int 58" by (simp add: power_divide)
  finally have hi: "rnd ((3 / 2) ^ nat n) \<le> of_int 58" by (intro rnd_le_int) simp_all
  have lo: "of_int 0 \<le> rnd ((3 / 2) ^ nat n)" by (rule rnd_ge_int) simp_all
  show "0 \<le> backoff_factor n" "backoff_factor n \<le> 58"
    using int64_of_mono [OF lo hi] by (simp_all add: backoff_factor_def)
  show "2 \<le> backoff_factor n" if "2 \<le> n"
  proof -
    have "(3 / 2 :: rat) ^ 2 \<le> (3 / 2) ^ nat n" using that by (intro power_increasing) simp_all
    moreover have "of_int 2 \<le> (3 / 2 :: rat) ^ 2" by (simp add: power_divide)
    ultimately have "of_int 2 \<le> rnd ((3 / 2) ^ nat n)" by (intro rnd_ge_int) (rule order_trans, assumption+, simp)
    from int64_of_mono(1) [OF this hi] show ?thesis by (simp add: backoff_factor_def)
  qed
qed

lemma config_bounds:
  assumes "conn_config_ok config"
  shows "4 \<le> cc_InitialTimeout config" "cc_InitialTimeout config \<le> 4503599627370496"
    "cc_MaxConnAttempts config \<le> 10"
  using assms by (auto simp: conn_config_ok_def config_ok_def fromConnConfig_def)

lemma backoff_delay:
  assumes "conn_config_ok config" and "0 \<le> n" and "n \<le> cc_MaxConnAttempts config"
  shows "0 \<le> wrap64 (cc_InitialTimeout config * backoff_factor n)"
    and "wrap64 (cc_InitialTimeout config * backoff_factor n) = cc_InitialTimeout config * backoff_factor n"
proof -
  note cfg = config_bounds [OF assms(1)]
  have b: "0 \<le> backoff_factor n" "backoff_factor n \<le> 58"
    using backoff_bounds(1,2) [of n] assms(2,3) cfg(3) by simp_all
  then have d: "0 \<le> cc_InitialTimeout config * backoff_factor n"
    "cc_InitialTimeout config * backoff_factor n \<le> 4503599627370496 * 58"
    using cfg(1,2) by (simp, intro mult_mono) simp_all
  then show eq: "wrap64 (cc_InitialTimeout config * backoff_factor n) = cc_InitialTimeout config * backoff_factor n"
    by (intro wrap64_id) simp_all
  with d(1) show "0 \<le> wrap64 (cc_InitialTimeout config * backoff_factor n)" by simp
qed

lemma is_syn_synPacket: "is_syn (synPacket E c n)"
  by (simp add: synPacket_def Build_def NewPacketBuilder_def)

lemma seq_synPacket: "h_SeqNum (Header (synPacket E c n)) = n"
  by (simp add: synPacket_def Build_def NewPacketBuilder_def)

text \<open>A connected end: its buffers and sent packets exist and are well formed, and every running timer
  belongs to a packet that was sent, or to a SYN.\<close>

definition conn_live ::
  "('t, pendingItem) BTree \<Rightarrow> ('t \<Rightarrow> bool) \<Rightarrow> ('l, u16) BTree \<Rightarrow> ('l \<Rightarrow> bool) \<Rightarrow> ('t, 'l, 'p) connection
     \<Rightarrow> 't receiveBuffer \<Rightarrow> sendBuffer \<Rightarrow> ('l, defaultController) sentPackets \<Rightarrow> bool" where
  "conn_live BP invarP BL invarL c rb sb sp \<longleftrightarrow>
     RecvBuf (c_state c) = Some rb \<and> rb_inv BP invarP rb
     \<and> SendBuf (c_state c) = Some sb \<and> sb_inv sb
     \<and> SentPackets (c_state c) = Some sp \<and> sp_inv BL invarL dc_counts dc_sends sp
     \<and> dc_timed (sp_congestionCtrl sp)
     \<and> tw_wf (c_unacked c) \<and> \<not> tw_stopped (c_unacked c)
     \<and> (\<forall>p \<in> outstanding c. is_syn p \<or> h_SeqNum (Header p) \<in> sent_nums sp)"

definition conn_inv ::
  "('t, pendingItem) BTree \<Rightarrow> ('t \<Rightarrow> bool) \<Rightarrow> ('l, u16) BTree \<Rightarrow> ('l \<Rightarrow> bool) \<Rightarrow> ('t, 'l, 'p) connection
     \<Rightarrow> bool" where
  "conn_inv BP invarP BL invarL c \<longleftrightarrow>
     conn_config_ok (c_config c) \<and> tw_wf (c_unacked c) \<and> \<not> tw_stopped (c_unacked c)
     \<and> c_readable c \<le> 3 \<and> c_writable c \<le> 3
     \<and> (stateType (c_state c) = ConnConnecting \<longrightarrow>
            (\<exists>ch. connectedCh (c_state c) = Some ch \<and> \<not> ch_closed ch) \<and> 0 \<le> ep_Attempts (c_endpoint c)
            \<and> ep_Type (c_endpoint c) = Initiator \<and> (\<forall>p \<in> outstanding c. is_syn p))
     \<and> (stateType (c_state c) = ConnConnected \<longrightarrow> (\<exists>rb sb sp. conn_live BP invarP BL invarL c rb sb sp))"

text \<open>\<open>transmitted c pkts c'\<close>: \<open>c'\<close> differs from \<open>c\<close> only by having sent \<open>pkts\<close>.\<close>

definition transmitted ::
  "('t, 'l, 'p) connection \<Rightarrow> packet list \<Rightarrow> ('t, 'l, 'p) connection \<Rightarrow> bool" where
  "transmitted c pkts c' \<longleftrightarrow>
     (\<exists>sp w. c' = set_state (SentPackets_update (\<lambda>_. sp)) (c\<lparr>c_unacked := w,
        c_socketEvents := c_socketEvents c @ map (\<lambda>p. newOutgoingSocketEvent p (CidPeer (c_cid c))) pkts\<rparr>))"

lemma transmitted_refl: "transmitted c [] c"
  unfolding transmitted_def by (rule exI [of _ "SentPackets (c_state c)"], rule exI [of _ "c_unacked c"])
    (simp add: set_state_def)

lemma transmitted_frame:
  assumes "transmitted c ps c'"
  shows "stateType (c_state c') = stateType (c_state c)" "closing (c_state c') = closing (c_state c)"
    "RecvBuf (c_state c') = RecvBuf (c_state c)" "SendBuf (c_state c') = SendBuf (c_state c)"
    "connectedCh (c_state c') = connectedCh (c_state c)" "st_Err (c_state c') = st_Err (c_state c)"
    "c_cid c' = c_cid c" "c_config c' = c_config c" "c_endpoint c' = c_endpoint c"
    "c_peerTsDiff c' = c_peerTsDiff c" "c_peerRecvWindow c' = c_peerRecvWindow c"
    "c_unackTimeoutCh c' = c_unackTimeoutCh c" "c_reads c' = c_reads c" "c_readable c' = c_readable c"
    "c_pendingWrites c' = c_pendingWrites c" "c_writable c' = c_writable c" "c_results c' = c_results c"
    "c_latestTimeout c' = c_latestTimeout c" "c_synState c' = c_synState c"
    "c_socketEvents c' = c_socketEvents c @ map (\<lambda>p. newOutgoingSocketEvent p (CidPeer (c_cid c))) ps"
  using assms by (auto simp: transmitted_def)

lemma transmitted_single:
  "transmitted c [pkt] (send_event (newOutgoingSocketEvent pkt (CidPeer (c_cid c)))
     (set_state (SentPackets_update (\<lambda>_. sp)) (c\<lparr>c_unacked := w\<rparr>)))"
  unfolding transmitted_def
  by (rule exI [of _ sp], rule exI [of _ w], cases c) (simp add: send_event_def set_state_def)

lemma transmitted_trans:
  "\<lbrakk> transmitted c ps c'; transmitted c' qs c'' \<rbrakk> \<Longrightarrow> transmitted c (ps @ qs) c''"
  by (auto simp: transmitted_def set_state_def) blast

locale conn_trees = pend: recv_tree BP invarP + lost: btree BL "(<)" invarL
  for BP :: "('t, pendingItem) BTree" and invarP :: "'t \<Rightarrow> bool"
    and BL :: "('l, u16) BTree" and invarL :: "'l \<Rightarrow> bool"
begin

abbreviation live ::
  "('t, 'l, 'p) connection \<Rightarrow> 't receiveBuffer \<Rightarrow> sendBuffer \<Rightarrow> ('l, defaultController) sentPackets \<Rightarrow> bool"
  where "live \<equiv> conn_live BP invarP BL invarL"

abbreviation cinv :: "('t, 'l, 'p) connection \<Rightarrow> bool" where
  "cinv \<equiv> conn_inv BP invarP BL invarL"

abbreviation env :: "('t, 'l) conn_env \<Rightarrow> bool" where
  "env E \<equiv> e_pending E = BP \<and> e_lost E = BL"

lemma sender: "send_side BL invarL (default_Controller clk) dc_counts dc_sends"
  by unfold_locales

section \<open>Sending\<close>

lemma transmit_run:
  assumes "SentPackets (c_state c) = Some sp"
    and "sp_OnTransmit (e_ctrl E) sp (h_SeqNum (Header pkt)) (h_PacketType (Header pkt)) (Body pkt)
           (of_nat (length (Body pkt))) now = Some sp'"
    and "tw_wf (c_unacked c)" and "dc_timed (sp_congestionCtrl sp')"
  shows "\<exists>w. transmit E c pkt now = Some (send_event (newOutgoingSocketEvent pkt (CidPeer (c_cid c)))
           (set_state (SentPackets_update (\<lambda>_. Some sp')) (c\<lparr>c_unacked := w\<rparr>)))
     \<and> tw_wf w \<and> tw_stopped w = tw_stopped (c_unacked c)
     \<and> wheel_packets w \<subseteq> insert pkt (wheel_packets (c_unacked c))"
proof -
  have pl: "(if length (Body pkt) > 0 then (Body pkt, of_nat (length (Body pkt)) :: u32) else ([], 0))
      = (Body pkt, of_nat (length (Body pkt)))" by auto
  have "0 \<le> sp_Timeout (e_ctrl E) sp'" by (rule ledbat_timers.sp_Timeout_nonneg [OF assms(4)])
  from wheel_put [OF assms(3) this, of "h_SeqNum (Header pkt)" pkt]
  show ?thesis unfolding transmit_def pl using assms(1,2) by auto
qed

lemma transmit_again:
  assumes l: "live c rb sb sp" and E: "env E" and i: "h_SeqNum (Header pkt) \<in> sent_nums sp"
    and few: "dc_sends (sp_congestionCtrl sp) (h_SeqNum (Header pkt)) < 4294967295"
  shows "\<exists>c' sp'. transmit E c pkt now = Some c' \<and> live c' rb sb sp' \<and> transmitted c [pkt] c'
     \<and> sent_nums sp' = sent_nums sp \<and> sp_initSeqNum sp' = sp_initSeqNum sp
     \<and> sp_lostPackets sp' = sp_lostPackets sp
     \<and> map sent_data (sp_packets sp') = map sent_data (sp_packets sp)
     \<and> dc_sends (sp_congestionCtrl sp') = (dc_sends (sp_congestionCtrl sp))
          (h_SeqNum (Header pkt) := Suc (dc_sends (sp_congestionCtrl sp) (h_SeqNum (Header pkt))))"
proof -
  obtain k where k: "h_SeqNum (Header pkt) = seq_at sp k" "k < length (sp_packets sp)"
    using i by (auto simp: sent_nums_def)
  have sp: "SentPackets (c_state c) = Some sp" "sp_inv BL invarL dc_counts dc_sends sp"
    "dc_timed (sp_congestionCtrl sp)" "tw_wf (c_unacked c)" using l by (auto simp: conn_live_def)
  obtain sp' where sp': "sp_OnTransmit (e_ctrl E) sp (h_SeqNum (Header pkt)) (h_PacketType (Header pkt))
      (Body pkt) (of_nat (length (Body pkt))) now = Some sp'" "sp_inv BL invarL dc_counts dc_sends sp'"
    "sp_packets sp' = (sp_packets sp)[k := (sp_packets sp ! k)\<lparr>retransmission := now\<rparr>]"
    "sp_initSeqNum sp' = sp_initSeqNum sp" "sp_lostPackets sp' = sp_lostPackets sp"
    "dc_sends (sp_congestionCtrl sp') = (dc_sends (sp_congestionCtrl sp))
       (seq_at sp k := Suc (dc_sends (sp_congestionCtrl sp) (seq_at sp k)))"
    using send_side.OnTransmit_again [OF sender sp(2) k(2) few [unfolded k(1)]] unfolding k(1) by blast
  have t: "dc_timed (sp_congestionCtrl sp')" by (rule ledbat_timers.OnTransmit_timed [OF sp'(1) sp(3)])
  obtain w where w: "transmit E c pkt now = Some (send_event (newOutgoingSocketEvent pkt (CidPeer (c_cid c)))
        (set_state (SentPackets_update (\<lambda>_. Some sp')) (c\<lparr>c_unacked := w\<rparr>)))"
    "tw_wf w" "tw_stopped w = tw_stopped (c_unacked c)"
    "wheel_packets w \<subseteq> insert pkt (wheel_packets (c_unacked c))"
    using transmit_run [OF sp(1) sp'(1) sp(4) t] by blast
  let ?c = "send_event (newOutgoingSocketEvent pkt (CidPeer (c_cid c)))
        (set_state (SentPackets_update (\<lambda>_. Some sp')) (c\<lparr>c_unacked := w\<rparr>))"
  have nums: "sent_nums sp' = sent_nums sp" by (simp add: sent_nums_def sp'(3,4))
  have "live ?c rb sb sp'"
    using l i w(2-4) t sp'(2) unfolding conn_live_def outstanding_def nums by auto
  moreover have "transmitted c [pkt] ?c" by (rule transmitted_single)
  moreover have "map sent_data (sp_packets sp') = map sent_data (sp_packets sp)"
    unfolding sp'(3) using k(2) by (intro nth_equalityI) (auto simp: nth_list_update)
  ultimately show ?thesis using w(1) nums sp'(4-6) k(1) by auto
qed

lemma transmit_new:
  assumes l: "live c rb sb sp" and E: "env E" and n: "h_SeqNum (Header pkt) = NextSeqNum sp"
    and room: "length (sp_packets sp) < 65533"
    and win: "0 < Window (e_ctrl E) sp" "of_nat (length (Body pkt)) \<le> Window (e_ctrl E) sp"
  shows "\<exists>c' sp'. transmit E c pkt now = Some c' \<and> live c' rb sb sp' \<and> transmitted c [pkt] c'
     \<and> sp_initSeqNum sp' = sp_initSeqNum sp
     \<and> sp_packets sp' = sp_packets sp @ [\<lparr>sent_seqNum = NextSeqNum sp,
          sent_packetType = h_PacketType (Header pkt), sent_data = Body pkt,
          transmission = now, retransmission = now, acks = []\<rparr>]
     \<and> Window (e_ctrl E) sp' = Window (e_ctrl E) sp - of_nat (length (Body pkt))"
proof -
  have sp: "SentPackets (c_state c) = Some sp" "sp_inv BL invarL dc_counts dc_sends sp"
    "dc_timed (sp_congestionCtrl sp)" "tw_wf (c_unacked c)" using l by (auto simp: conn_live_def)
  obtain sp' where sp': "sp_OnTransmit (e_ctrl E) sp (h_SeqNum (Header pkt)) (h_PacketType (Header pkt))
      (Body pkt) (of_nat (length (Body pkt))) now = Some sp'" "sp_inv BL invarL dc_counts dc_sends sp'"
    "sp_packets sp' = sp_packets sp @ [\<lparr>sent_seqNum = NextSeqNum sp,
          sent_packetType = h_PacketType (Header pkt), sent_data = Body pkt,
          transmission = now, retransmission = now, acks = []\<rparr>]"
    "sp_initSeqNum sp' = sp_initSeqNum sp"
    "Window (e_ctrl E) sp' = Window (e_ctrl E) sp - of_nat (length (Body pkt))"
    using send_side.OnTransmit_new [OF sender sp(2) room win] unfolding n by blast
  have t: "dc_timed (sp_congestionCtrl sp')" by (rule ledbat_timers.OnTransmit_timed [OF sp'(1) sp(3)])
  obtain w where w: "transmit E c pkt now = Some (send_event (newOutgoingSocketEvent pkt (CidPeer (c_cid c)))
        (set_state (SentPackets_update (\<lambda>_. Some sp')) (c\<lparr>c_unacked := w\<rparr>)))"
    "tw_wf w" "tw_stopped w = tw_stopped (c_unacked c)"
    "wheel_packets w \<subseteq> insert pkt (wheel_packets (c_unacked c))"
    using transmit_run [OF sp(1) sp'(1) sp(4) t] by blast
  let ?c = "send_event (newOutgoingSocketEvent pkt (CidPeer (c_cid c)))
        (set_state (SentPackets_update (\<lambda>_. Some sp')) (c\<lparr>c_unacked := w\<rparr>))"
  have nums: "sent_nums sp' = insert (h_SeqNum (Header pkt)) (sent_nums sp)"
    by (simp add: sent_nums_def sp'(3,4) n NextSeqNum_eq lessThan_Suc)
  have "live ?c rb sb sp'"
    using l w(2-4) t sp'(2) unfolding conn_live_def outstanding_def nums by auto
  moreover have "transmitted c [pkt] ?c" by (rule transmitted_single)
  ultimately show ?thesis using w(1) sp'(3-5) by blast
qed

lemma LostPackets_ok:
  assumes "sp_inv BL invarL dc_counts dc_sends sp"
  shows "\<exists>ls. LostPackets BL sp = Some ls \<and> map lp_SeqNum ls = bt_Ascend BL (sp_lostPackets sp)
     \<and> distinct (map lp_SeqNum ls) \<and> lp_SeqNum ` set ls \<subseteq> sent_nums sp"
proof -
  have inv: "length (sp_packets sp) \<le> 65533" "invarL (sp_lostPackets sp)"
    "\<And>i. i < length (sp_packets sp) \<Longrightarrow> sent_seqNum (sp_packets sp ! i) = seq_at sp i"
    "set (bt_Ascend BL (sp_lostPackets sp)) \<subseteq> sent_nums sp"
    using assms by (auto simp: sp_inv_def lost_set_def sent_nums_def)
  let ?f = "\<lambda>x. \<lparr>lp_SeqNum = sent_seqNum (sp_packets sp ! SeqNumIndex sp x),
      lp_PacketType = sent_packetType (sp_packets sp ! SeqNumIndex sp x),
      lp_Data = sent_data (sp_packets sp ! SeqNumIndex sp x)\<rparr>"
  have sent: "SeqNumIndex sp x < length (sp_packets sp) \<and> lp_SeqNum (?f x) = x" if "x \<in> sent_nums sp" for x
    using that inv(1,3) by (auto simp: sent_nums_def SeqNumIndex_seq_at)
  have run: "those (map (\<lambda>x. if SeqNumIndex sp x < length (sp_packets sp) then Some (?f x) else None) xs)
      = Some (map ?f xs)" if "set xs \<subseteq> sent_nums sp" for xs
    using that sent by (induction xs) auto
  let ?ls = "map ?f (bt_Ascend BL (sp_lostPackets sp))"
  have "LostPackets BL sp = Some ?ls" unfolding LostPackets_def Let_def by (rule run [OF inv(4)])
  moreover have "map lp_SeqNum (map ?f xs) = xs" if "set xs \<subseteq> sent_nums sp" for xs
    using that sent by (induction xs) auto
  then have m: "map lp_SeqNum ?ls = bt_Ascend BL (sp_lostPackets sp)" using inv(4) by blast
  moreover have "distinct (map lp_SeqNum ?ls)" unfolding m by (rule lost.distinct_Ascend [OF inv(2)])
  moreover have "lp_SeqNum ` set ?ls \<subseteq> sent_nums sp" unfolding set_map [symmetric] m by (rule inv(4))
  ultimately show ?thesis by blast
qed

lemma retransmit_each_ok:
  assumes "live c rb sb sp" and "env E" and "distinct (map lp_SeqNum ls)"
    and "lp_SeqNum ` set ls \<subseteq> sent_nums sp"
    and "\<forall>x \<in> lp_SeqNum ` set ls. dc_sends (sp_congestionCtrl sp) x < 4294967295"
  shows "\<exists>c' sp' ps. retransmit_each E t w d c now ls = Some c' \<and> live c' rb sb sp' \<and> transmitted c ps c'
     \<and> sent_nums sp' = sent_nums sp \<and> map sent_data (sp_packets sp') = map sent_data (sp_packets sp)
     \<and> map (\<lambda>p. (h_SeqNum (Header p), h_PacketType (Header p), Body p)) ps
         = map (\<lambda>l. (lp_SeqNum l, lp_PacketType l, lp_Data l)) ls"
  using assms
proof (induction ls arbitrary: c sp)
  case Nil
  then show ?case using transmitted_refl [of c] by auto
next
  case (Cons l ls)
  let ?p = "Build (WithSelectiveAck (rb_SelectiveAck (e_pending E) rb) (WithAckNum (rb_AckNum rb)
      (WithTsDiffMicros d (WithPayload (lp_Data l)
        (NewPacketBuilder (lp_PacketType l) (cid_Send (c_cid c)) (NowMicro t) w (lp_SeqNum l))))))"
  have p: "h_SeqNum (Header ?p) = lp_SeqNum l" "h_PacketType (Header ?p) = lp_PacketType l" "Body ?p = lp_Data l"
    by (simp_all add: Build_def builder_defs)
  have "h_SeqNum (Header ?p) \<in> sent_nums sp"
    "dc_sends (sp_congestionCtrl sp) (h_SeqNum (Header ?p)) < 4294967295"
    using Cons.prems unfolding p by auto
  from transmit_again [OF Cons.prems(1,2) this, of now] obtain c1 sp1 where
    c1: "transmit E c ?p now = Some c1" "live c1 rb sb sp1" "transmitted c [?p] c1" "sent_nums sp1 = sent_nums sp"
      "map sent_data (sp_packets sp1) = map sent_data (sp_packets sp)"
      "dc_sends (sp_congestionCtrl sp1) = (dc_sends (sp_congestionCtrl sp))
          (lp_SeqNum l := Suc (dc_sends (sp_congestionCtrl sp) (lp_SeqNum l)))"
    unfolding p by blast
  obtain c' sp' ps where ih: "retransmit_each E t w d c1 now ls = Some c'" "live c' rb sb sp'" "transmitted c1 ps c'"
    "sent_nums sp' = sent_nums sp1" "map sent_data (sp_packets sp') = map sent_data (sp_packets sp1)"
    "map (\<lambda>p. (h_SeqNum (Header p), h_PacketType (Header p), Body p)) ps
         = map (\<lambda>l. (lp_SeqNum l, lp_PacketType l, lp_Data l)) ls"
  proof -
    have d: "distinct (map lp_SeqNum ls)" "lp_SeqNum l \<notin> lp_SeqNum ` set ls" using Cons.prems(3) by auto
    have n: "lp_SeqNum ` set ls \<subseteq> sent_nums sp1" using Cons.prems(4) by (auto simp: c1(4))
    have "dc_sends (sp_congestionCtrl sp1) x < 4294967295" if "x \<in> lp_SeqNum ` set ls" for x
    proof -
      have "x \<noteq> lp_SeqNum l" using d(2) that by blast
      then show ?thesis using Cons.prems(5) that unfolding c1(6) by auto
    qed
    then have "\<forall>x \<in> lp_SeqNum ` set ls. dc_sends (sp_congestionCtrl sp1) x < 4294967295" by blast
    from Cons.IH [OF c1(2) Cons.prems(2) d(1) n this] that show thesis by blast
  qed
  have "RecvBuf (c_state c) = Some rb" using Cons.prems(1) by (simp add: conn_live_def)
  then have "retransmit_each E t w d c now (l # ls) = Some c'" using c1(1) ih(1) by simp
  moreover have "map (\<lambda>p. (h_SeqNum (Header p), h_PacketType (Header p), Body p)) (?p # ps)
         = map (\<lambda>l. (lp_SeqNum l, lp_PacketType l, lp_Data l)) (l # ls)" using ih(6) p by simp
  moreover have "transmitted c (?p # ps) c'" using transmitted_trans [OF c1(3) ih(3)] by simp
  moreover have "sent_nums sp' = sent_nums sp" "map sent_data (sp_packets sp') = map sent_data (sp_packets sp)"
    using ih(4,5) c1(4,5) by simp_all
  ultimately show ?case using ih(2) by blast
qed

end

end
