(* ===== verification/Connection_Handlers.thy ===== *)
theory Connection_Handlers
  imports Connection_Inv
begin

text \<open>
  The handlers that move data: they keep a connected end well formed and do not panic, as long as
  the sequence numbers are not used up and no packet has been sent \<open>2^32 - 1\<close> times. Each lemma also
  says where the bytes go.
\<close>

definition few_sends :: "('l, defaultController) sentPackets \<Rightarrow> bool" where
  "few_sends sp \<longleftrightarrow> (\<forall>x. dc_sends (sp_congestionCtrl sp) x < 4294967295)"

text \<open>The payloads the next call of \<open>processWrites\<close> will send.\<close>

definition new_payloads :: "('t, 'l) conn_env \<Rightarrow> ('t, 'l, 'p) connection \<Rightarrow> bytes list" where
  "new_payloads E c =
     (case (SentPackets (c_state c), SendBuf (c_state c)) of
        (Some sp, Some sb) \<Rightarrow>
          (case compose_payloads (cc_MaxPacketSize (c_config c))
                  (minUint32 (Window (e_ctrl E) sp) (c_peerRecvWindow c)) sb [] of
             Some (_, ps) \<Rightarrow> ps | None \<Rightarrow> [])
      | _ \<Rightarrow> [])"

definition seq_room :: "('t, 'l) conn_env \<Rightarrow> ('t, 'l, 'p) connection \<Rightarrow> bool" where
  "seq_room E c \<longleftrightarrow>
     (case SentPackets (c_state c) of
        Some sp \<Rightarrow> length (sp_packets sp) + length (new_payloads E c) \<le> 65533 | None \<Rightarrow> True)"

text \<open>The clock reading of a packet is not before the packets it may acknowledge, and not years after.\<close>

definition clock_fair :: "('l, defaultController) sentPackets \<Rightarrow> time \<Rightarrow> bool" where
  "clock_fair sp now \<longleftrightarrow> (\<forall>p \<in> set (sp_packets sp). 0 \<le> sent_rtt p now \<and> sent_rtt p now \<le> 2 ^ 58)"

lemma take_from_window:
  assumes "n \<le> unat (w :: u32)"
  shows "of_nat n \<le> w" and "unat (w - of_nat n) = unat w - n"
proof -
  have "unat (of_nat n :: u32) = n" using assms unat_lt_u32 [of w] by (simp add: unat_of_nat)
  moreover from this assms show le: "of_nat n \<le> w" by (simp add: word_le_nat_alt)
  ultimately show "unat (w - of_nat n) = unat w - n" by (simp add: unat_sub)
qed

context conn_trees
begin

lemma send_payloads_ok:
  assumes "live c rb sb sp" and "env E" and "seqNum = NextSeqNum sp" and "[] \<notin> set ps"
    and "sum_list (map length ps) \<le> unat (Window (e_ctrl E) sp)"
    and "length (sp_packets sp) + length ps \<le> 65533"
  shows "\<exists>c' sp' pkts. send_payloads E c seqNum w a sack now i ps = Some c' \<and> live c' rb sb sp'
     \<and> transmitted c pkts c' \<and> map Body pkts = ps \<and> (\<forall>p \<in> set pkts. h_PacketType (Header p) = st_data)
     \<and> map (\<lambda>p. h_SeqNum (Header p)) pkts
         = map (seq_at sp) [length (sp_packets sp)..<length (sp_packets sp) + length ps]
     \<and> sp_initSeqNum sp' = sp_initSeqNum sp
     \<and> map sent_data (sp_packets sp') = map sent_data (sp_packets sp) @ ps"
  using assms
proof (induction ps arbitrary: c sp seqNum i)
  case Nil
  then show ?case using transmitted_refl [of c] by auto
next
  case (Cons d ps)
  let ?n = "length (sp_packets sp)"
  let ?p = "Build (WithSelectiveAck sack (WithAckNum a (WithTsDiffMicros (tsDiffMicros c) (WithPayload d
      (NewPacketBuilder st_data (cid_Send (c_cid c)) (NowMicro (e_now E i)) w seqNum)))))"
  have p: "h_SeqNum (Header ?p) = NextSeqNum sp" "h_PacketType (Header ?p) = st_data" "Body ?p = d"
    using Cons.prems(3) by (simp_all add: Build_def builder_defs)
  have d: "length d \<le> unat (Window (e_ctrl E) sp)" "0 < length d" using Cons.prems(4,5) by auto
  note win = take_from_window [OF d(1)]
  have "0 < unat (Window (e_ctrl E) sp)" using d by linarith
  then have "0 < Window (e_ctrl E) sp" by (simp add: word_less_nat_alt)
  from transmit_new [OF Cons.prems(1,2) p(1) _ this, of now] obtain c1 sp1 where
    c1: "transmit E c ?p now = Some c1" "live c1 rb sb sp1" "transmitted c [?p] c1"
      "sp_initSeqNum sp1 = sp_initSeqNum sp" "map sent_data (sp_packets sp1) = map sent_data (sp_packets sp) @ [d]"
      "length (sp_packets sp1) = Suc ?n" "Window (e_ctrl E) sp1 = Window (e_ctrl E) sp - of_nat (length d)"
    using win(1) Cons.prems(6) unfolding p by auto
  have nxt: "seqNum + 1 = NextSeqNum sp1"
    by (simp add: Cons.prems(3) NextSeqNum_def c1(4,6))
  have sum: "sum_list (map length ps) \<le> unat (Window (e_ctrl E) sp1)"
    using Cons.prems(5) unfolding c1(7) win(2) by simp
  obtain c' sp' pkts where ih: "send_payloads E c1 (seqNum + 1) w a sack now (i + 1) ps = Some c'"
    "live c' rb sb sp'" "transmitted c1 pkts c'" "map Body pkts = ps"
    "\<forall>p \<in> set pkts. h_PacketType (Header p) = st_data"
    "map (\<lambda>p. h_SeqNum (Header p)) pkts = map (seq_at sp1) [Suc ?n..<Suc ?n + length ps]"
    "sp_initSeqNum sp' = sp_initSeqNum sp1" "map sent_data (sp_packets sp') = map sent_data (sp_packets sp1) @ ps"
  proof -
    have "[] \<notin> set ps" "length (sp_packets sp1) + length ps \<le> 65533" using Cons.prems(4,6) c1(6) by auto
    from Cons.IH [OF c1(2) Cons.prems(2) nxt this(1) sum this(2), of "i + 1", unfolded c1(6)] that
    show thesis by blast
  qed
  have "send_payloads E c seqNum w a sack now i (d # ps) = Some c'" using c1(1) ih(1) by simp
  moreover have "transmitted c (?p # pkts) c'" using transmitted_trans [OF c1(3) ih(3)] by simp
  moreover have "[?n..<?n + length (d # ps)] = ?n # [Suc ?n..<Suc ?n + length ps]"
    by (subst upt_conv_Cons) (simp_all del: upt_Suc)
  then have "map (\<lambda>p. h_SeqNum (Header p)) (?p # pkts) = map (seq_at sp) [?n..<?n + length (d # ps)]"
    using ih(6) p(1) by (simp add: c1(4) NextSeqNum_eq del: upt_Suc)
  moreover have "map Body (?p # pkts) = d # ps" "\<forall>q \<in> set (?p # pkts). h_PacketType (Header q) = st_data"
    "sp_initSeqNum sp' = sp_initSeqNum sp"
    "map sent_data (sp_packets sp') = map sent_data (sp_packets sp) @ (d # ps)"
    using ih(4,5,7,8) p(2,3) c1(4,5) by simp_all
  ultimately show ?case using ih(2)
    by (intro exI [of _ c'] exI [of _ sp'] exI [of _ "?p # pkts"] conjI)
qed

lemma retransmitLostPackets_ok:
  assumes "live c rb sb sp" and "env E" and "few_sends sp"
  shows "\<exists>c' sp' ps. retransmitLostPackets E c now = Some c' \<and> transmitted c ps c'
     \<and> live c' rb sb sp' \<and> sent_nums sp' = sent_nums sp
     \<and> map sent_data (sp_packets sp') = map sent_data (sp_packets sp)"
proof (cases "stateType (c_state c) = ConnConnected \<and> HasLostPackets BL sp")
  case True
  have sp: "sp_inv BL invarL dc_counts dc_sends sp" "SentPackets (c_state c) = Some sp"
    "RecvBuf (c_state c) = Some rb" using assms(1) by (auto simp: conn_live_def)
  obtain ls where ls: "LostPackets BL sp = Some ls" "distinct (map lp_SeqNum ls)"
    "lp_SeqNum ` set ls \<subseteq> sent_nums sp" using LostPackets_ok [OF sp(1)] by blast
  have "\<forall>x \<in> lp_SeqNum ` set ls. dc_sends (sp_congestionCtrl sp) x < 4294967295"
    using assms(3) by (simp add: few_sends_def)
  from retransmit_each_ok [OF assms(1,2) ls(2,3) this, of "e_now E 0"
      "word_of_int (rb_Available (e_pending E) rb)" "tsDiffMicros c" now] show ?thesis
    using True sp(2,3) ls(1) assms(2) by (auto simp: retransmitLostPackets_def)
next
  case False
  then have "retransmitLostPackets E c now = Some c"
    using assms(1,2) by (auto simp: retransmitLostPackets_def conn_live_def)
  then show ?thesis using assms(1) transmitted_refl [of c] by blast
qed

section \<open>Writing\<close>

lemma live_update:
  assumes "live c rb sb sp" and "sb_inv sb'"
  shows "live (set_state (SendBuf_update (\<lambda>_. Some sb')) (c\<lparr>c_pendingWrites := ws, c_results := rs, c_writable := n\<rparr>))
           rb sb' sp"
  using assms by (auto simp: conn_live_def outstanding_def)

lemma processWrites_connected:
  assumes l: "live c rb sb sp" and E: "env E" and st: "stateType (c_state c) = ConnConnected"
    and room: "length (sp_packets sp) + length (new_payloads E c) \<le> 65533"
  shows "\<exists>c' sb' sp' pkts k. processWrites E c now = Some c' \<and> live c' rb sb' sp'
     \<and> transmitted (set_state (SendBuf_update (\<lambda>_. Some sb')) (c\<lparr>c_pendingWrites := c_pendingWrites c',
          c_results := c_results c @ map answered (take k (c_pendingWrites c)), c_writable := c_writable c'\<rparr>)) pkts c'
     \<and> same_writes (drop k (c_pendingWrites c)) (c_pendingWrites c')
     \<and> (c_pendingWrites c' = [] \<or> sb_Available sb' = 0) \<and> (c_writable c \<le> 3 \<longrightarrow> c_writable c' \<le> 3)
     \<and> sb_size sb' = sb_size sb \<and> map Body pkts = new_payloads E c
     \<and> sp_initSeqNum sp' = sp_initSeqNum sp
     \<and> map sent_data (sp_packets sp') = map sent_data (sp_packets sp) @ new_payloads E c
     \<and> sb_contents sb @ concat (map qw_data (c_pendingWrites c))
         = concat (new_payloads E c) @ sb_contents sb' @ concat (map qw_data (c_pendingWrites c'))
     \<and> (\<forall>p \<in> set pkts. h_PacketType (Header p) = st_data)
     \<and> map (\<lambda>p. h_SeqNum (Header p)) pkts
         = map (seq_at sp) [length (sp_packets sp)..<length (sp_packets sp) + length (new_payloads E c)]
     \<and> sum_list (map length (new_payloads E c)) \<le> unat (min (Window (e_ctrl E) sp) (c_peerRecvWindow c))"
proof -
  let ?w = "min (Window (e_ctrl E) sp) (c_peerRecvWindow c)"
  have parts: "SentPackets (c_state c) = Some sp" "SendBuf (c_state c) = Some sb" "sb_inv sb"
    "RecvBuf (c_state c) = Some rb" using l by (auto simp: conn_live_def)
  obtain sb1 ps where ps: "compose_payloads (cc_MaxPacketSize (c_config c)) ?w sb [] = Some (sb1, ps)" "sb_inv sb1"
    "sb_size sb1 = sb_size sb" "sb_contents sb = concat ps @ sb_contents sb1" "[] \<notin> set ps"
    "sum_list (map length ps) \<le> unat ?w" using compose_payloads_ok [OF parts(3)] by fastforce
  have new: "new_payloads E c = ps" using ps(1) parts by (simp add: new_payloads_def)
  obtain sb2 ws k wr where ws: "write_pending sb1 (c_pendingWrites c) (c_results c) (c_writable c)
      = Some (sb2, ws, c_results c @ map answered (take k (c_pendingWrites c)), wr)" "sb_inv sb2"
    "sb_size sb2 = sb_size sb1" "same_writes (drop k (c_pendingWrites c)) ws"
    "sb_contents sb1 @ concat (map qw_data (c_pendingWrites c)) = sb_contents sb2 @ concat (map qw_data ws)"
    "ws = [] \<or> sb_Available sb2 = 0" "c_writable c \<le> 3 \<longrightarrow> wr \<le> 3"
    using write_pending_ok [OF ps(2)] by blast
  let ?c = "set_state (SendBuf_update (\<lambda>_. Some sb2)) (c\<lparr>c_pendingWrites := ws,
      c_results := c_results c @ map answered (take k (c_pendingWrites c)), c_writable := wr\<rparr>)"
  have live: "live ?c rb sb2 sp" by (rule live_update [OF l ws(2)])
  have sum: "sum_list (map length ps) \<le> unat (Window (e_ctrl E) sp)"
    using ps(6) by (simp add: unat_min_u32)
  obtain c' sp' pkts where c': "send_payloads E ?c (NextSeqNum sp) (word_of_int (rb_Available (e_pending E) rb))
      (rb_AckNum rb) (rb_SelectiveAck (e_pending E) rb) now 0 ps = Some c'" "live c' rb sb2 sp'"
    "transmitted ?c pkts c'" "map Body pkts = ps" "sp_initSeqNum sp' = sp_initSeqNum sp"
    "map sent_data (sp_packets sp') = map sent_data (sp_packets sp) @ ps"
    "\<forall>p \<in> set pkts. h_PacketType (Header p) = st_data"
    "map (\<lambda>p. h_SeqNum (Header p)) pkts = map (seq_at sp) [length (sp_packets sp)..<length (sp_packets sp) + length ps]"
    using send_payloads_ok [OF live E refl ps(5) sum room [unfolded new], of
        "word_of_int (rb_Available (e_pending E) rb)" "rb_AckNum rb" "rb_SelectiveAck (e_pending E) rb" now 0]
    by blast
  have fr: "c_pendingWrites c' = ws" "c_writable c' = wr"
    using transmitted_frame(15,16) [OF c'(3)] by simp_all
  have "processWrites E c now = Some c'"
    using st parts ps(1) ws(1) c'(1) by (simp add: processWrites_def)
  then show ?thesis
    using c'(2-8) ws(3-7) ps(3,4,6) unfolding new
    by (intro exI [of _ c'] exI [of _ sb2] exI [of _ sp'] exI [of _ pkts] exI [of _ k] conjI)
      (simp_all add: fr)
qed

section \<open>Reading\<close>

lemma eof_connected:
  assumes "live c rb sb sp"
  shows "\<exists>b. conn_eof c = Some b"
  using assms by (cases "stateType (c_state c)")
    (auto simp: conn_eof_def conn_live_def split: option.splits)

lemma processReads_connected:
  assumes l: "live c rb sb sp" and E: "env E" and st: "stateType (c_state c) = ConnConnected"
  shows "\<exists>rb' outs eof. conn_eof c = Some eof
     \<and> processReads E c = Some (set_state (RecvBuf_update (\<lambda>_. Some rb')) (c\<lparr>c_reads := c_reads c @ outs @
          (if eof then [\<lparr>res_Err = Some EOF, res_Len = 0, res_Data = []\<rparr>] else [])\<rparr>))
     \<and> rb_inv BP invarP rb' \<and> rb_initSeqNum rb' = rb_initSeqNum rb \<and> rb_consumed rb' = rb_consumed rb
     \<and> (cc_MaxPacketSize (c_config c) \<noteq> 0 \<longrightarrow> rb_offset rb' = 0)
     \<and> (\<forall>r \<in> set outs. res_Err r = None \<and> 0 < res_Len r)
     \<and> (\<forall>chunk del. rb_stream BP chunk del rb \<longrightarrow> rb_stream BP chunk (del @ delivered outs) rb')"
proof -
  have rb: "RecvBuf (c_state c) = Some rb" "rb_inv BP invarP rb" using l by (auto simp: conn_live_def)
  let ?m = "unat (cc_MaxPacketSize (c_config c))"
  obtain rb' outs where r: "read_chunks BP ?m rb (c_reads c) = Some (rb', c_reads c @ outs)"
    "rb_inv BP invarP rb'" "rb_initSeqNum rb' = rb_initSeqNum rb" "rb_consumed rb' = rb_consumed rb"
    "0 < ?m \<longrightarrow> rb_offset rb' = 0" "\<forall>r \<in> set outs. res_Err r = None \<and> 0 < res_Len r"
    "\<forall>chunk del. rb_stream BP chunk del rb \<longrightarrow> rb_stream BP chunk (del @ delivered outs) rb'"
    using pend.read_chunks_ok [OF rb(2), of ?m "c_reads c"] by (elim exE conjE) (rule that)
  obtain b where b: "conn_eof c = Some b" using eof_connected [OF l] by blast
  let ?c = "set_state (RecvBuf_update (\<lambda>_. Some rb')) (c\<lparr>c_reads := c_reads c @ outs\<rparr>)"
  have ack: "rb_AckNum rb' = rb_AckNum rb" using r(3,4) by (simp add: rb_AckNum_def)
  have "conn_eof ?c = Some b"
    using b st rb(1) ack by (auto simp: conn_eof_def split: option.splits)
  then have "processReads E c = Some (set_state (RecvBuf_update (\<lambda>_. Some rb')) (c\<lparr>c_reads := c_reads c @ outs @
          (if b then [\<lparr>res_Err = Some EOF, res_Len = 0, res_Data = []\<rparr>] else [])\<rparr>))"
    using st rb(1) r(1) E by (simp add: processReads_def set_state_def)
  moreover have "cc_MaxPacketSize (c_config c) \<noteq> 0 \<longrightarrow> rb_offset rb' = 0"
    using r(5) by (simp add: unat_gt_0)
  ultimately show ?thesis
    using b r(2-4,6,7) by (intro exI [of _ rb'] exI [of _ outs] exI [of _ b] conjI)
qed

lemma live_reads:
  assumes "live c rb sb sp" and "rb_inv BP invarP rb'"
  shows "live (set_state (RecvBuf_update (\<lambda>_. Some rb')) (c\<lparr>c_reads := rs\<rparr>)) rb' sb sp"
  using assms by (auto simp: conn_live_def outstanding_def)

section \<open>Acknowledgements\<close>

lemma processAck_connected:
  assumes l: "live c rb sb sp" and E: "env E" and st: "stateType (c_state c) = ConnConnected"
    and fair: "clock_fair sp now" and d: "0 \<le> delay" "delay < 4294967296000"
  shows "\<exists>c' e. processAck E c x sack delay now = Some (c', e)
     \<and> (\<exists>sp'. live c' rb sb sp' \<and> sent_nums sp' = sent_nums sp
          \<and> dc_sends (sp_congestionCtrl sp') = dc_sends (sp_congestionCtrl sp)
          \<and> map sent_data (sp_packets sp') = map sent_data (sp_packets sp))
     \<and> c' = set_state (\<lambda>s. s\<lparr>SentPackets := SentPackets (c_state c'), stateType := stateType (c_state c'),
              st_Err := st_Err (c_state c')\<rparr>) (c\<lparr>c_unacked := c_unacked c'\<rparr>)
     \<and> stateType (c_state c') \<noteq> ConnConnecting"
proof -
  have parts: "SentPackets (c_state c) = Some sp" "sp_inv BL invarL dc_counts dc_sends sp"
    "dc_timed (sp_congestionCtrl sp)" "tw_wf (c_unacked c)" using l by (auto simp: conn_live_def)
  obtain sp' r where sp': "onAck (e_lost E) (e_ctrl E) sp x sack delay now = Some (sp', r)"
    "sp_inv BL invarL dc_counts dc_sends sp'" "sp_initSeqNum sp' = sp_initSeqNum sp"
    "length (sp_packets sp') = length (sp_packets sp)"
    "map sent_data (sp_packets sp') = map sent_data (sp_packets sp)"
    using send_side.onAck_total [OF sender parts(2), of "e_ackClock E" x sack delay now] E by auto
  have "fair_acks (ack_in (2 ^ 58)) delay now sp"
    using fair d by (auto simp: fair_acks_def clock_fair_def ack_in_def)
  then have t: "dc_timed (sp_congestionCtrl sp')"
    using ledbat_timers.onAck_kept [OF sp'(1)] parts(3) by (simp add: sp_kept_def)
  have "dc_sends (sp_congestionCtrl sp') = dc_sends (sp_congestionCtrl sp)"
    using ledbat_sends.onAck_kept [OF sp'(1)] by (simp add: sp_kept_def fair_acks_def)
  moreover have nums: "sent_nums sp' = sent_nums sp" by (simp add: sent_nums_def sp'(3,4))
  moreover have live: "live (set_state f (c\<lparr>c_unacked := w\<rparr>)) rb sb sp'"
    if "tw_wf w" "tw_stopped w = tw_stopped (c_unacked c)" "wheel_packets w \<subseteq> wheel_packets (c_unacked c)"
      "SentPackets (f (c_state c)) = Some sp'" "RecvBuf (f (c_state c)) = RecvBuf (c_state c)"
      "SendBuf (f (c_state c)) = SendBuf (c_state c)" for f w
    using l that sp'(2) t unfolding conn_live_def outstanding_def nums by auto
  ultimately have keep: "\<exists>sp''. live (set_state f (c\<lparr>c_unacked := w\<rparr>)) rb sb sp'' \<and> sent_nums sp'' = sent_nums sp
       \<and> dc_sends (sp_congestionCtrl sp'') = dc_sends (sp_congestionCtrl sp)
       \<and> map sent_data (sp_packets sp'') = map sent_data (sp_packets sp)"
    if "tw_wf w" "tw_stopped w = tw_stopped (c_unacked c)" "wheel_packets w \<subseteq> wheel_packets (c_unacked c)"
      "SentPackets (f (c_state c)) = Some sp'" "RecvBuf (f (c_state c)) = RecvBuf (c_state c)"
      "SendBuf (f (c_state c)) = SendBuf (c_state c)" for f w
    using that sp'(5) by blast
  show ?thesis
  proof (cases r)
    case (Inl e)
    define f where "f = (\<lambda>s :: ('t, 'l) ConnState. if e = ErrInvalidAckNum
        then c_state (reset e (set_state (SentPackets_update (\<lambda>_. Some sp')) c)) else s\<lparr>SentPackets := Some sp'\<rparr>)"
    let ?c = "set_state f (c\<lparr>c_unacked := c_unacked c\<rparr>)"
    have "processAck E c x sack delay now = Some (?c, Some e)"
      using st parts(1) sp'(1) Inl by (simp add: processAck_def f_def reset_def set_state_def)
    moreover have "?c = set_state (\<lambda>s. s\<lparr>SentPackets := SentPackets (c_state ?c),
        stateType := stateType (c_state ?c), st_Err := st_Err (c_state ?c)\<rparr>) (c\<lparr>c_unacked := c_unacked ?c\<rparr>)"
      by (simp add: f_def reset_def set_state_def)
    moreover have "stateType (c_state ?c) \<noteq> ConnConnecting" using st by (simp add: f_def reset_def)
    ultimately show ?thesis using keep [of "c_unacked c" f] parts(4) by (auto simp: f_def reset_def)
  next
    case (Inr q)
    obtain full sel where q: "q = (full, sel)" by fastforce
    let ?w = "fold tw_remove sel (tw_retain (Contains full) (c_unacked c))"
    let ?c = "set_state (SentPackets_update (\<lambda>_. Some sp')) (c\<lparr>c_unacked := ?w\<rparr>)"
    have w: "tw_wf ?w" "tw_stopped ?w = tw_stopped (c_unacked c)" "wheel_packets ?w \<subseteq> wheel_packets (c_unacked c)"
      using wheel_retain [OF parts(4), of "Contains full"]
        wheel_remove_all [OF wheel_retain(1) [OF parts(4), of "Contains full"], of sel] by auto
    have "processAck E c x sack delay now = Some (?c, None)"
      using st parts(1) sp'(1) Inr q by (simp add: processAck_def set_state_def)
    moreover have "?c = set_state (\<lambda>s. s\<lparr>SentPackets := SentPackets (c_state ?c),
        stateType := stateType (c_state ?c), st_Err := st_Err (c_state ?c)\<rparr>) (c\<lparr>c_unacked := c_unacked ?c\<rparr>)"
      by (simp add: set_state_def)
    ultimately show ?thesis
      using keep [OF w, of "SentPackets_update (\<lambda>_. Some sp')"] st by auto
  qed
qed

end

end
