(* ===== verification/Connection_Events.thy ===== *)
theory Connection_Events
  imports Connection_Handlers
begin

text \<open>
  Every handler of the event loop keeps the invariant \<open>conn_inv\<close> and does not panic. What a handler
  needs beyond the invariant is a condition on the moment: \<open>calm\<close> (no packet has been sent
  \<open>2^32 - 1\<close> times, the clock is sane), \<open>seq_room\<close> (sequence numbers are left for the payloads to send),
  and \<open>fin_fits\<close> for a FIN.
\<close>

definition calm :: "time \<Rightarrow> ('t, 'l, 'p) connection \<Rightarrow> bool" where
  "calm now c \<longleftrightarrow> (stateType (c_state c) = ConnConnected \<longrightarrow>
     (\<forall>sp. SentPackets (c_state c) = Some sp \<longrightarrow> few_sends sp \<and> clock_fair sp now))"

definition fin_fits :: "('t, 'l) conn_env \<Rightarrow> ('t, 'l, 'p) connection \<Rightarrow> bool" where
  "fin_fits E c \<longleftrightarrow> (stateType (c_state c) = ConnConnected \<longrightarrow>
     (\<forall>sp. SentPackets (c_state c) = Some sp \<longrightarrow> 0 < Window (e_ctrl E) sp \<and> length (sp_packets sp) < 65533))"

text \<open>\<open>c'\<close> has the sent packets of \<open>c\<close>, and is connected only if \<open>c\<close> is.\<close>

definition same_sent :: "('t, 'l, 'p) connection \<Rightarrow> ('t, 'l, 'p) connection \<Rightarrow> bool" where
  "same_sent c c' \<longleftrightarrow> SentPackets (c_state c') = SentPackets (c_state c)
     \<and> (stateType (c_state c') = ConnConnected \<longrightarrow> stateType (c_state c) = ConnConnected)"

lemma same_sent_refl: "same_sent c c"
  by (simp add: same_sent_def)

lemma calm_same_sent: "\<lbrakk> calm now c; same_sent c c' \<rbrakk> \<Longrightarrow> calm now c'"
  by (auto simp: calm_def same_sent_def)

lemma conn_live_fields [simp]:
  "conn_live BP P BL L (send_event ev c) = conn_live BP P BL L c"
  "conn_live BP P BL L (c\<lparr>c_synState := x\<rparr>) = conn_live BP P BL L c"
  "conn_live BP P BL L (c\<lparr>c_reads := rs\<rparr>) = conn_live BP P BL L c"
  "conn_live BP P BL L (c\<lparr>c_results := res\<rparr>) = conn_live BP P BL L c"
  "conn_live BP P BL L (c\<lparr>c_pendingWrites := ws\<rparr>) = conn_live BP P BL L c"
  "conn_live BP P BL L (c\<lparr>c_peerRecvWindow := w\<rparr>) = conn_live BP P BL L c"
  "conn_live BP P BL L (c\<lparr>c_peerTsDiff := d\<rparr>) = conn_live BP P BL L c"
  "conn_live BP P BL L (c\<lparr>c_latestTimeout := t\<rparr>) = conn_live BP P BL L c"
  "conn_live BP P BL L (c\<lparr>c_readable := n\<rparr>) = conn_live BP P BL L c"
  "conn_live BP P BL L (c\<lparr>c_writable := n\<rparr>) = conn_live BP P BL L c"
  by (simp_all add: conn_live_def outstanding_def fun_eq_iff)

lemma conn_inv_fields [simp]:
  "conn_inv BP P BL L (send_event ev c) = conn_inv BP P BL L c"
  "conn_inv BP P BL L (c\<lparr>c_synState := x\<rparr>) = conn_inv BP P BL L c"
  "conn_inv BP P BL L (c\<lparr>c_reads := rs\<rparr>) = conn_inv BP P BL L c"
  "conn_inv BP P BL L (c\<lparr>c_results := res\<rparr>) = conn_inv BP P BL L c"
  "conn_inv BP P BL L (c\<lparr>c_pendingWrites := ws\<rparr>) = conn_inv BP P BL L c"
  "conn_inv BP P BL L (c\<lparr>c_peerRecvWindow := w\<rparr>) = conn_inv BP P BL L c"
  "conn_inv BP P BL L (c\<lparr>c_peerTsDiff := d\<rparr>) = conn_inv BP P BL L c"
  "conn_inv BP P BL L (c\<lparr>c_latestTimeout := t\<rparr>) = conn_inv BP P BL L c"
  by (simp_all add: conn_inv_def outstanding_def)

lemma conn_inv_tokens:
  "\<lbrakk> conn_inv BP P BL L c; n \<le> 3 \<rbrakk> \<Longrightarrow> conn_inv BP P BL L (c\<lparr>c_readable := n\<rparr>)"
  "\<lbrakk> conn_inv BP P BL L c; n \<le> 3 \<rbrakk> \<Longrightarrow> conn_inv BP P BL L (c\<lparr>c_writable := n\<rparr>)"
  by (simp_all add: conn_inv_def outstanding_def)

lemma conn_invD:
  assumes "conn_inv BP P BL L c"
  shows "conn_config_ok (c_config c)" "tw_wf (c_unacked c)" "\<not> tw_stopped (c_unacked c)"
    "c_readable c \<le> 3" "c_writable c \<le> 3"
  using assms by (auto simp: conn_inv_def)

lemma conn_inv_closed:
  assumes "conn_inv BP P BL L c" and "stateType (f (c_state c)) = ConnClosed"
  shows "conn_inv BP P BL L (set_state f c)"
  using assms by (auto simp: conn_inv_def)

lemma conn_live_wheel:
  "conn_live BP P BL L c rb sb sp \<Longrightarrow> tw_wf (c_unacked c) \<and> \<not> tw_stopped (c_unacked c)"
  by (simp add: conn_live_def)

lemma conn_inv_connected:
  "\<lbrakk> stateType (c_state c) = ConnConnected; conn_live BP P BL L c rb sb sp; conn_config_ok (c_config c);
     c_readable c \<le> 3; c_writable c \<le> 3 \<rbrakk> \<Longrightarrow> conn_inv BP P BL L c"
  using conn_live_wheel [of BP P BL L c rb sb sp] by (auto simp: conn_inv_def)

lemma reset_closes: "stateType (c_state (reset e c)) = ConnClosed"
  by (simp add: reset_def)

lemma reset_inv: "conn_inv BP P BL L c \<Longrightarrow> conn_inv BP P BL L (reset e c)"
  by (simp add: reset_def conn_inv_closed)

lemma reset_same_sent: "same_sent c (reset e c)"
  by (simp add: same_sent_def reset_def)

context conn_trees
begin

lemma cinv_live: "\<lbrakk> cinv c; stateType (c_state c) = ConnConnected \<rbrakk> \<Longrightarrow> \<exists>rb sb sp. live c rb sb sp"
  by (auto simp: conn_inv_def)

section \<open>Handlers of packets\<close>

lemma onSyn_ok: "cinv c \<Longrightarrow> cinv (onSyn c n) \<and> same_sent c (onSyn c n)"
  using reset_inv [of BP invarP BL invarL c] reset_same_sent [of c] same_sent_refl [of c]
  by (auto simp: onSyn_def Let_def split: option.splits)

lemma onReset_ok: "cinv c \<Longrightarrow> cinv (onReset c) \<and> same_sent c (onReset c)"
  using reset_inv [of BP invarP BL invarL c] reset_same_sent [of c] same_sent_refl [of c]
  by (auto simp: onReset_def)

lemma new_sent_ok:
  assumes "conn_config_ok config"
  shows "sp_inv BL invarL dc_counts dc_sends (newSentPackets BL n (newDefaultController (fromConnConfig config)))"
    and "dc_timed (newDefaultController (fromConnConfig config))"
    and "few_sends (newSentPackets BL n (newDefaultController (fromConnConfig config)))"
    and "clock_fair (newSentPackets BL n (newDefaultController (fromConnConfig config))) now"
proof -
  show "sp_inv BL invarL dc_counts dc_sends (newSentPackets BL n (newDefaultController (fromConnConfig config)))"
    by (rule send_side.new_inv [OF sender]) (simp_all add: dc_counts_def newDefaultController_def dc_sends_def)
  show "dc_timed (newDefaultController (fromConnConfig config))"
    using assms timer_inv_new [of "fromConnConfig config" "2 ^ 58"] by (auto simp: dc_timed_def conn_config_ok_def)
qed (simp_all add: few_sends_def clock_fair_def newSentPackets_def newDefaultController_def dc_sends_def)

lemma become_connected:
  assumes base: "conn_config_ok (c_config c)" "tw_wf (c_unacked c)" "\<not> tw_stopped (c_unacked c)"
      "c_readable c \<le> 3" "c_writable c \<le> 3"
    and syn: "\<forall>p \<in> outstanding c. is_syn p"
  shows "cinv (set_state (\<lambda>s. s\<lparr>connectedCh := ch, stateType := ConnConnected,
      RecvBuf := Some (newReceiveBuffer BP (nat (cc_BufferSize (c_config c))) m),
      SendBuf := Some (newSendBuffer (cc_BufferSize (c_config c))),
      SentPackets := Some (newSentPackets BL n (newDefaultController (fromConnConfig (c_config c))))\<rparr>) c)"
proof -
  note new = new_sent_ok [OF base(1)]
  have "0 \<le> cc_BufferSize (c_config c)" using base(1) by (simp add: conn_config_ok_def)
  then have "sb_inv (newSendBuffer (cc_BufferSize (c_config c)))" by (rule newSendBuffer_inv)
  then have "live (set_state (\<lambda>s. s\<lparr>connectedCh := ch, stateType := ConnConnected,
      RecvBuf := Some (newReceiveBuffer BP (nat (cc_BufferSize (c_config c))) m),
      SendBuf := Some (newSendBuffer (cc_BufferSize (c_config c))),
      SentPackets := Some (newSentPackets BL n (newDefaultController (fromConnConfig (c_config c))))\<rparr>) c)
      (newReceiveBuffer BP (nat (cc_BufferSize (c_config c))) m) (newSendBuffer (cc_BufferSize (c_config c)))
      (newSentPackets BL n (newDefaultController (fromConnConfig (c_config c))))"
    using base(2,3) syn new(1,2) pend.new_inv(1)
    by (simp add: conn_live_def outstanding_def newSentPackets_def)
  then show ?thesis using base by (intro conn_inv_connected) simp_all
qed

lemma onState_ok:
  assumes "cinv c" and "env E" and "calm now c"
  shows "\<exists>c'. onState E c n a = Some c' \<and> cinv c' \<and> calm now c'"
proof (cases "stateType (c_state c) = ConnConnecting \<and> ep_Type (c_endpoint c) = Initiator
    \<and> a = ep_SynNum (c_endpoint c)")
  case True
  then obtain ch where ch: "connectedCh (c_state c) = Some ch" "\<not> ch_closed ch" "\<forall>p \<in> outstanding c. is_syn p"
    using assms(1) by (auto simp: conn_inv_def)
  note ok = conn_invD(1) [OF assms(1)]
  then have sz: "0 \<le> cc_BufferSize (c_config c)" by (simp add: conn_config_ok_def)
  let ?c = "set_state (\<lambda>s. s\<lparr>connectedCh := Some (ch\<lparr>ch_closed := True\<rparr>), stateType := ConnConnected,
      RecvBuf := Some (newReceiveBuffer BP (nat (cc_BufferSize (c_config c))) (n - 1)),
      SendBuf := Some (newSendBuffer (cc_BufferSize (c_config c))),
      SentPackets := Some (newSentPackets BL (ep_SynNum (c_endpoint c))
        (newDefaultController (fromConnConfig (c_config c))))\<rparr>) c"
  have "onState E c n a = Some ?c"
    using True ch(1,2) sz assms(2) by (simp add: onState_def make_recv_buffer_def ch_close_def)
  moreover have "calm now ?c" using new_sent_ok(3,4) [OF ok] by (simp add: calm_def)
  ultimately show ?thesis using become_connected [OF conn_invD [OF assms(1)] ch(3)] by blast
next
  case False
  then show ?thesis using assms by (auto simp: onState_def)
qed

lemma recv_write:
  assumes "cinv c" and "stateType (c_state c) = ConnConnected"
  shows "\<exists>rb rb' e. RecvBuf (c_state c) = Some rb \<and> rb_Write BP rb data n = Some (rb', e)
     \<and> cinv (set_state (\<lambda>s. s\<lparr>RecvBuf := Some rb', closing := cl\<rparr>) c)"
proof -
  obtain rb sb sp where l: "live c rb sb sp" using cinv_live [OF assms] by blast
  then have rb: "RecvBuf (c_state c) = Some rb" "rb_inv BP invarP rb" by (auto simp: conn_live_def)
  obtain rb' e where w: "rb_Write BP rb data n = Some (rb', e)" "rb_inv BP invarP rb'"
    using pend.Write_ok [OF rb(2), of data n] by blast
  have "live (set_state (\<lambda>s. s\<lparr>RecvBuf := Some rb', closing := cl\<rparr>) c) rb' sb sp"
    using l w(2) by (simp add: conn_live_def outstanding_def)
  then have "cinv (set_state (\<lambda>s. s\<lparr>RecvBuf := Some rb', closing := cl\<rparr>) c)"
    using conn_invD [OF assms(1)] assms(2) by (intro conn_inv_connected) simp_all
  with rb(1) w(1) show ?thesis by blast
qed

lemma set_recv_closing:
  "set_state (RecvBuf_update (\<lambda>_. x)) (set_state (closing_update (\<lambda>_. y)) c)
     = set_state (\<lambda>s. s\<lparr>RecvBuf := x, closing := y\<rparr>) c"
  "set_state (RecvBuf_update (\<lambda>_. x)) c = set_state (\<lambda>s. s\<lparr>RecvBuf := x, closing := closing (c_state c)\<rparr>) c"
  by (simp_all add: set_state_def)

lemma onData_ok:
  assumes "cinv c" and "env E"
  shows "\<exists>c' e. onData E c n data = Some (c', e) \<and> cinv c' \<and> same_sent c c'"
proof (cases "data \<noteq> [] \<and> stateType (c_state c) = ConnConnected")
  case True
  then obtain rb rb' e where w: "RecvBuf (c_state c) = Some rb" "rb_Write BP rb data n = Some (rb', e)"
    "cinv (set_state (\<lambda>s. s\<lparr>RecvBuf := Some rb', closing := closing (c_state c)\<rparr>) c)"
    using recv_write [OF assms(1), of data n "closing (c_state c)"] by blast
  have "cinv (set_state (\<lambda>s. s\<lparr>stateType := ConnClosed, st_Err := Some ErrInvalidSeqNum\<rparr>) c)"
    using assms(1) by (intro conn_inv_closed) simp_all
  with True w assms show ?thesis
    by (auto simp: onData_def set_recv_closing(2) same_sent_def split: option.splits)
next
  case False
  then have "onData E c n data = Some (if data = [] then reset ErrEmptyDataPayload c else c,
      if data \<noteq> [] \<and> stateType (c_state c) = ConnConnecting \<and> ep_Type (c_endpoint c) = Acceptor
      then Some (Errorf ''unreachable: connection should be marked established'') else None)"
    by (cases "stateType (c_state c)") (auto simp: onData_def reset_closes)
  then show ?thesis using assms(1) reset_inv [OF assms(1)] reset_same_sent [of c] same_sent_refl [of c] by auto
qed

lemma onFin_ok:
  assumes "cinv c" and "env E"
  shows "\<exists>c' e. onFin E c n data = Some (c', e) \<and> cinv c' \<and> same_sent c c'"
proof (cases "stateType (c_state c) = ConnConnected")
  case True
  have w: "\<exists>rb rb' e. RecvBuf (c_state c) = Some rb \<and> rb_Write BP rb data n = Some (rb', e)
     \<and> (\<forall>cl. cinv (set_state (\<lambda>s. s\<lparr>RecvBuf := Some rb', closing := cl\<rparr>) c))"
    using recv_write [OF assms(1) True, of data n] by (metis option.inject prod.inject)
  then obtain rb rb' e where w: "RecvBuf (c_state c) = Some rb" "rb_Write BP rb data n = Some (rb', e)"
    "\<And>cl. cinv (set_state (\<lambda>s. s\<lparr>RecvBuf := Some rb', closing := cl\<rparr>) c)" by blast
  show ?thesis
  proof (cases "closing (c_state c)")
    case None
    have "onFin E c n data = Some (set_state (\<lambda>s. s\<lparr>RecvBuf := Some rb', closing :=
        (if e = None then Some \<lparr>LocalFin = None, RemoteFin = Some n\<rparr> else None)\<rparr>) c, e)"
      using None True w(1,2) assms(2) by (cases e) (simp_all add: onFin_def set_state_def)
    then show ?thesis using w(3) True by (auto simp: same_sent_def)
  next
    case (Some cl)
    with w True assms reset_inv [OF assms(1)] reset_same_sent [of c] same_sent_refl [of c] show ?thesis
      by (auto simp: onFin_def set_recv_closing(1) same_sent_def split: option.splits)
  qed
qed (use assms same_sent_refl [of c] in \<open>auto simp: onFin_def\<close>)

lemma dispatch_ok:
  assumes "cinv c" and "env E" and "calm now c"
  shows "\<exists>c'. dispatch_packet E c pkt = Some c' \<and> cinv c' \<and> calm now c'"
  using onSyn_ok [OF assms(1), of "h_SeqNum (Header pkt)"] onReset_ok [OF assms(1)]
    onState_ok [OF assms, of "h_SeqNum (Header pkt)" "h_AckNum (Header pkt)"]
    onData_ok [OF assms(1,2), of "h_SeqNum (Header pkt)" "Body pkt"]
    onFin_ok [OF assms(1,2), of "h_SeqNum (Header pkt)" "Body pkt"]
    calm_same_sent [OF assms(3)] assms
  by (auto simp: dispatch_packet_def Let_def)

lemma processAck_ok:
  assumes "cinv c" and "env E" and "calm now c" and "0 \<le> delay" "delay < 4294967296000"
  shows "\<exists>c' e. processAck E c x sack delay now = Some (c', e) \<and> cinv c'
     \<and> (\<forall>sp. stateType (c_state c') = ConnConnected \<longrightarrow> SentPackets (c_state c') = Some sp \<longrightarrow> few_sends sp)"
proof (cases "stateType (c_state c) = ConnConnected")
  case True
  obtain rb sb sp where l: "live c rb sb sp" using cinv_live [OF assms(1) True] by blast
  then have sp: "few_sends sp" "clock_fair sp now" using assms(3) True by (auto simp: calm_def conn_live_def)
  obtain c' e sp' where c': "processAck E c x sack delay now = Some (c', e)" "live c' rb sb sp'"
    "dc_sends (sp_congestionCtrl sp') = dc_sends (sp_congestionCtrl sp)"
    "c' = set_state (\<lambda>s. s\<lparr>SentPackets := SentPackets (c_state c'), stateType := stateType (c_state c'),
        st_Err := st_Err (c_state c')\<rparr>) (c\<lparr>c_unacked := c_unacked c'\<rparr>)"
    "stateType (c_state c') \<noteq> ConnConnecting"
    using processAck_connected [OF l assms(2) True sp(2) assms(4,5), of x sack] by blast
  have fr: "c_config c' = c_config c" "c_readable c' = c_readable c" "c_writable c' = c_writable c"
    by (subst c'(4), simp)+
  have "few_sends sp'" using sp(1) c'(3) by (simp add: few_sends_def)
  moreover have "SentPackets (c_state c') = Some sp'" using c'(2) by (simp add: conn_live_def)
  moreover have "cinv c'"
    using conn_invD [OF assms(1)] fr c'(2,5) conn_live_wheel [OF c'(2)] by (auto simp: conn_inv_def)
  ultimately show ?thesis using c'(1) by auto
next
  case False
  then show ?thesis using assms(1) by (auto simp: processAck_def)
qed

lemma cinv_transmitted:
  assumes "cinv c" and "stateType (c_state c) = ConnConnected" and "transmitted c ps c'" and "live c' rb sb sp"
  shows "cinv c'"
  using conn_invD [OF assms(1)] assms(2,4) transmitted_frame [OF assms(3)]
  by (intro conn_inv_connected) simp_all

lemma retransmit_ok:
  assumes "cinv c" and "env E"
    and "\<forall>sp. stateType (c_state c) = ConnConnected \<longrightarrow> SentPackets (c_state c) = Some sp \<longrightarrow> few_sends sp"
  shows "\<exists>c'. retransmitLostPackets E c now = Some c' \<and> cinv c'"
proof (cases "stateType (c_state c) = ConnConnected")
  case True
  obtain rb sb sp where l: "live c rb sb sp" using cinv_live [OF assms(1) True] by blast
  then have "few_sends sp" using assms(3) True by (auto simp: conn_live_def)
  then obtain c' sp' ps where "retransmitLostPackets E c now = Some c'" "transmitted c ps c'" "live c' rb sb sp'"
    using retransmitLostPackets_ok [OF l assms(2)] by blast
  with cinv_transmitted [OF assms(1) True] show ?thesis by blast
next
  case False
  then show ?thesis using assms(1) by (simp add: retransmitLostPackets_def)
qed

lemma statePacket_ok:
  assumes "cinv c"
  shows "\<exists>p. statePacket E c = Some p"
proof (cases "stateType (c_state c)")
  case ConnConnected
  then show ?thesis
    using cinv_live [OF assms ConnConnected] by (auto simp: statePacket_def conn_live_def)
qed (simp_all add: statePacket_def)

lemma answer_ok:
  assumes "cinv c"
  shows "\<exists>c'. answer_packet E c pkt = Some c' \<and> cinv c'"
  using statePacket_ok [OF assms, of E] assms by (auto simp: answer_packet_def Let_def split: option.splits)

lemma closed_with_nil_inv: "cinv c \<Longrightarrow> cinv (closed_with_nil c)"
  by (simp add: closed_with_nil_def conn_inv_closed)

lemma processReads_ok:
  assumes "cinv c" and "env E"
  shows "\<exists>c'. processReads E c = Some c' \<and> cinv c'"
proof (cases "stateType (c_state c)")
  case ConnConnected
  obtain rb sb sp where l: "live c rb sb sp" using cinv_live [OF assms(1) ConnConnected] by blast
  obtain rb' rs where r: "processReads E c = Some (set_state (RecvBuf_update (\<lambda>_. Some rb')) (c\<lparr>c_reads := rs\<rparr>))"
    "rb_inv BP invarP rb'" using processReads_connected [OF l assms(2) ConnConnected] by blast
  have "cinv (set_state (RecvBuf_update (\<lambda>_. Some rb')) (c\<lparr>c_reads := rs\<rparr>))"
    using live_reads [OF l r(2)] conn_invD [OF assms(1)] ConnConnected by (intro conn_inv_connected) simp_all
  with r(1) show ?thesis by blast
qed (use assms(1) in \<open>simp_all add: processReads_def\<close>)

lemma close_checks_ok:
  assumes "cinv c" and "env E"
  shows "\<exists>c'. close_checks E c = Some c' \<and> cinv c'"
proof -
  let ?one = "\<lambda>c. case local_fin c of
      Some fin \<Rightarrow> do {
        sp \<leftarrow> SentPackets (c_state c);
        let (lastAckNum, isNone) = LastAckNum sp;
        Some (if \<not> isNone \<and> lastAckNum = fin then closed_with_nil c else c)
      }
    | None \<Rightarrow> Some c"
  let ?two = "\<lambda>c. case remote_fin c of
      Some fin \<Rightarrow> do {
        sp \<leftarrow> SentPackets (c_state c);
        rb \<leftarrow> RecvBuf (c_state c);
        (if \<not> HasUnackedPackets sp \<and> rb_AckNum rb = fin
         then map_option closed_with_nil (processReads E c) else Some c)
      }
    | None \<Rightarrow> Some c"
  have one: "\<exists>c'. ?one c = Some c' \<and> cinv c'" if "cinv c" for c
    using that closed_with_nil_inv [OF that] cinv_live [OF that]
    by (auto simp: local_fin_def conn_live_def Let_def split: option.splits if_splits prod.splits)
  have two: "\<exists>c'. ?two c = Some c' \<and> cinv c'" if "cinv c" for c
    using that closed_with_nil_inv cinv_live [OF that] processReads_ok [OF that assms(2)]
    by (auto simp: remote_fin_def conn_live_def split: option.splits if_splits)
  obtain c1 where c1: "?one c = Some c1" "cinv c1" using one [OF assms(1)] by blast
  obtain c2 where c2: "?two c1 = Some c2" "cinv c2" using two [OF c1(2)] by blast
  show ?thesis unfolding close_checks_def c1(1) using c2 closed_with_nil_inv [OF c2(2)] by simp
qed

lemma onPacket_ok:
  assumes "cinv c" and "env E" and "calm now c"
  shows "\<exists>c'. onPacket E c pkt now = Some c' \<and> cinv c'"
proof -
  let ?ty = "h_PacketType (Header pkt)"
  define c0 where "c0 = c\<lparr>c_peerRecvWindow := h_WndSize (Header pkt), c_peerTsDiff :=
      (let d = 1000 * (UnixMicro (e_now E 0) - uint (h_TimestampDiff (Header pkt)))
       in if d > cc_MaxIdleTimeout (c_config c) then 1000000000 else d)\<rparr>"
  have c0: "cinv c0" "calm now c0" using assms(1,3) by (simp_all add: c0_def calm_def)
  obtain c1 where c1: "dispatch_packet E c0 pkt = Some c1" "cinv c1" "calm now c1"
    using dispatch_ok [OF c0(1) assms(2) c0(2)] by blast
  have delay: "0 \<le> uint (h_TimestampDiff (Header pkt)) * 1000" "uint (h_TimestampDiff (Header pkt)) * 1000 < 4294967296000"
    using uint_u32_bounds [of "h_TimestampDiff (Header pkt)"] by simp_all
  obtain c2 where c2: "(if ?ty = st_state \<or> ?ty = st_data \<or> ?ty = st_fin
      then map_option fst (processAck E c1 (h_AckNum (Header pkt)) (Eack pkt)
             (uint (h_TimestampDiff (Header pkt)) * 1000) now)
      else Some c1) = Some c2" "cinv c2"
    "\<forall>sp. stateType (c_state c2) = ConnConnected \<longrightarrow> SentPackets (c_state c2) = Some sp \<longrightarrow> few_sends sp"
  proof (cases "?ty = st_state \<or> ?ty = st_data \<or> ?ty = st_fin")
    case True
    then show ?thesis
      using processAck_ok [OF c1(2) assms(2) c1(3) delay, of "h_AckNum (Header pkt)" "Eack pkt"] that by auto
  next
    case False
    then show ?thesis using that c1(2,3) by (auto simp: calm_def)
  qed
  have E: "env (later k E)" for k using assms(2) by simp
  obtain c3 where c3: "retransmitLostPackets (later 1 E) c2 now = Some c3" "cinv c3"
    using retransmit_ok [OF c2(2) E c2(3)] by blast
  obtain c4 where c4: "answer_packet (later 2 E) c3 pkt = Some c4" "cinv c4" using answer_ok [OF c3(2)] by blast
  define c5 where "c5 = (if ?ty = st_state then c4\<lparr>c_writable := notify_token (c_writable c4)\<rparr> else c4)"
  have c5: "cinv c5"
    using conn_inv_tokens(2) [OF c4(2)] c4(2) notify_token_le [OF conn_invD(5) [OF c4(2)]] by (simp add: c5_def)
  define c6 where "c6 = (if length (Body pkt) > 0 \<or> ?ty = st_fin
      then c5\<lparr>c_readable := notify_token (c_readable c5)\<rparr> else c5)"
  have c6: "cinv c6"
    using conn_inv_tokens(1) [OF c5] c5 notify_token_le [OF conn_invD(4) [OF c5]] by (simp add: c6_def)
  obtain c7 where c7: "close_checks E c6 = Some c7" "cinv c7" using close_checks_ok [OF c6 assms(2)] by blast
  have "onPacket E c pkt now = Some c7"
    unfolding onPacket_def Let_def c0_def [unfolded Let_def, symmetric] c1(1) Option.bind_lunit c2(1) c3(1) c4(1)
      c5_def [symmetric] c6_def [symmetric] by (rule c7(1))
  with c7(2) show ?thesis by blast
qed

section \<open>Writes, timeouts, shutdown\<close>

lemma processWrites_ok:
  assumes "cinv c" and "env E" and "seq_room E c"
  shows "\<exists>c'. processWrites E c now = Some c' \<and> cinv c'"
proof (cases "stateType (c_state c)")
  case ConnConnected
  obtain rb sb sp where l: "live c rb sb sp" using cinv_live [OF assms(1) ConnConnected] by blast
  then have "length (sp_packets sp) + length (new_payloads E c) \<le> 65533"
    using assms(3) by (simp add: seq_room_def conn_live_def)
  from processWrites_connected [OF l assms(2) ConnConnected this, of now] obtain c' sb' sp' pkts c1 where
    c': "processWrites E c now = Some c'" "live c' rb sb' sp'" "transmitted c1 pkts c'"
      "stateType (c_state c1) = stateType (c_state c)" "c_config c1 = c_config c" "c_readable c1 = c_readable c"
      "c_writable c \<le> 3 \<longrightarrow> c_writable c' \<le> 3"
    by (elim exE conjE) (rule that, assumption+, simp_all)
  have "cinv c'"
    using conn_invD [OF assms(1)] c'(2,4-7) ConnConnected transmitted_frame [OF c'(3)]
    by (intro conn_inv_connected) simp_all
  with c'(1) show ?thesis by blast
qed (use assms(1) in \<open>simp_all add: processWrites_def\<close>)

lemma onWrite_ok:
  assumes "cinv c" and "env E" and "seq_room (later 1 E) c"
  shows "\<exists>c'. onWrite E c w = Some c' \<and> cinv c'"
proof -
  let ?w = "w\<lparr>qw_written := 0\<rparr>"
  define c1 where "c1 = (case stateType (c_state c) of
      ConnConnecting \<Rightarrow> c\<lparr>c_pendingWrites := c_pendingWrites c @ [?w]\<rparr>
    | ConnConnected \<Rightarrow>
        (case closing (c_state c) of
           Some cl \<Rightarrow> if LocalFin cl = None \<and> RemoteFin cl \<noteq> None
             then c\<lparr>c_pendingWrites := c_pendingWrites c @ [?w]\<rparr>
             else c\<lparr>c_results := c_results c @ [(qw_resultCh ?w, \<lparr>res_Err = None, res_Len = 0, res_Data = []\<rparr>)]\<rparr>
         | None \<Rightarrow> c\<lparr>c_pendingWrites := c_pendingWrites c @ [?w]\<rparr>)
    | ConnClosed \<Rightarrow> c\<lparr>c_results := c_results c
        @ [(qw_resultCh ?w, \<lparr>res_Err = st_Err (c_state c), res_Len = 0, res_Data = []\<rparr>)]\<rparr>)"
  have c1: "cinv c1" "c_state c1 = c_state c" "c_config c1 = c_config c" "c_peerRecvWindow c1 = c_peerRecvWindow c"
    using assms(1) by (simp_all add: c1_def split: ConnStateType.splits option.splits)
  have "new_payloads (later 1 E) c1 = new_payloads (later 1 E) c" unfolding new_payloads_def c1(2-4) ..
  with assms(3) have "seq_room (later 1 E) c1" unfolding seq_room_def c1(2) by (simp only:)
  then obtain c2 where c2: "processWrites (later 1 E) c1 (e_now E 0) = Some c2" "cinv c2"
    using processWrites_ok [OF c1(1), of "later 1 E"] assms(2) by auto
  have "onWrite E c w = Some (c2\<lparr>c_writable := notify_token (c_writable c2)\<rparr>)"
    using c2(1) unfolding onWrite_def Let_def c1_def by simp
  then show ?thesis
    using conn_inv_tokens(2) [OF c2(2)] notify_token_le [OF conn_invD(5) [OF c2(2)]] by blast
qed

lemma onTimeout_connecting:
  assumes c: "cinv c" and st: "stateType (c_state c) = ConnConnecting" and p: "is_syn pkt"
  shows "\<exists>c'. onTimeout E c pkt now = Some c' \<and> cinv c'"
proof -
  let ?n = "ep_Attempts (c_endpoint c)"
  obtain ch where ch: "connectedCh (c_state c) = Some ch" "\<not> ch_closed ch" "0 \<le> ?n"
    "ep_Type (c_endpoint c) = Initiator" "\<forall>p \<in> outstanding c. is_syn p"
    using c st by (auto simp: conn_inv_def)
  show ?thesis
  proof (cases "cc_MaxConnAttempts (c_config c) \<le> ?n")
    case True
    then show ?thesis using st ch c by (auto simp: onTimeout_def ch_send_def intro!: conn_inv_closed)
  next
    case False
    let ?d = "cc_InitialTimeout (c_config c) * backoff_factor (?n + 1)"
    have "0 \<le> wrap64 ?d" using ch(3) False by (intro backoff_delay(1) [OF conn_invD(1) [OF c]]) simp_all
    then obtain w where w: "tw_put (c_unacked c) (ep_SynNum (c_endpoint c)) pkt (wrap64 ?d) = Some w"
      "tw_wf w" "tw_stopped w = tw_stopped (c_unacked c)" "wheel_packets w \<subseteq> insert pkt (wheel_packets (c_unacked c))"
      using wheel_put [OF conn_invD(2) [OF c], of "wrap64 ?d" "ep_SynNum (c_endpoint c)" pkt] by auto
    show ?thesis
      using st ch False w p conn_invD [OF c] by (auto simp: onTimeout_def conn_inv_def outstanding_def Let_def)
  qed
qed

lemma OnTimeout_live:
  assumes "live c rb sb sp"
  shows "live (set_state (SentPackets_update (\<lambda>_. Some (sp_OnTimeout (e_ctrl E) sp))) (c\<lparr>c_latestTimeout := t\<rparr>))
           rb sb (sp_OnTimeout (e_ctrl E) sp)"
    and "dc_sends (sp_congestionCtrl (sp_OnTimeout (e_ctrl E) sp)) = dc_sends (sp_congestionCtrl sp)"
    and "sent_nums (sp_OnTimeout (e_ctrl E) sp) = sent_nums sp"
proof -
  have sp: "sp_inv BL invarL dc_counts dc_sends sp" "dc_timed (sp_congestionCtrl sp)"
    using assms by (auto simp: conn_live_def)
  show n: "sent_nums (sp_OnTimeout (e_ctrl E) sp) = sent_nums sp" by (simp add: sent_nums_def sp_OnTimeout_def)
  show "dc_sends (sp_congestionCtrl (sp_OnTimeout (e_ctrl E) sp)) = dc_sends (sp_congestionCtrl sp)"
    using ledbat.timeout_sent [of "sp_congestionCtrl sp" "e_ackClock E"] sp(1) by (simp add: sp_OnTimeout_def sp_inv_def)
  show "live (set_state (SentPackets_update (\<lambda>_. Some (sp_OnTimeout (e_ctrl E) sp))) (c\<lparr>c_latestTimeout := t\<rparr>))
      rb sb (sp_OnTimeout (e_ctrl E) sp)"
    using assms send_side.OnTimeout_inv [OF sender sp(1), of "e_ackClock E"]
      ledbat_timers.sp_OnTimeout_timed [OF sp(2), of "e_ackClock E"]
    by (simp add: conn_live_def outstanding_def n)
qed

lemma onTimeout_connected:
  assumes l: "live c rb sb sp" and E: "env E" and st: "stateType (c_state c) = ConnConnected"
    and few: "few_sends sp" and p: "\<not> is_syn pkt" "h_SeqNum (Header pkt) \<in> sent_nums sp"
  shows "\<exists>c' sp'. onTimeout E c pkt now = Some c' \<and> live c' rb sb sp' \<and> stateType (c_state c') = ConnConnected
     \<and> c_config c' = c_config c \<and> c_readable c' = c_readable c \<and> c_writable c' = c_writable c
     \<and> sent_nums sp' = sent_nums sp"
proof -
  have parts: "SentPackets (c_state c) = Some sp" "RecvBuf (c_state c) = Some rb" using l by (auto simp: conn_live_def)
  define c1 where "c1 = (if (case c_latestTimeout c of
        Some t \<Rightarrow> e_now E 0 - t > sp_Timeout (e_ctrl E) sp | None \<Rightarrow> True)
      then set_state (SentPackets_update (\<lambda>_. Some (sp_OnTimeout (e_ctrl E) sp)))
             (c\<lparr>c_latestTimeout := Some (e_now E 1)\<rparr>) else c)"
  obtain sp1 where sp1: "live c1 rb sb sp1" "few_sends sp1" "sent_nums sp1 = sent_nums sp"
  proof (cases "c1 = c")
    case True
    with l few show ?thesis by (intro that) simp_all
  next
    case False
    then have "c1 = set_state (SentPackets_update (\<lambda>_. Some (sp_OnTimeout (e_ctrl E) sp)))
      (c\<lparr>c_latestTimeout := Some (e_now E 1)\<rparr>)" unfolding c1_def by presburger
    then show ?thesis using OnTimeout_live [OF l, of E] few
      by (intro that [of "sp_OnTimeout (e_ctrl E) sp"]) (simp_all add: few_sends_def)
  qed
  have fr: "RecvBuf (c_state c1) = Some rb" "stateType (c_state c1) = ConnConnected" "c_config c1 = c_config c"
    "c_readable c1 = c_readable c" "c_writable c1 = c_writable c" "c_peerTsDiff c1 = c_peerTsDiff c"
    using parts st by (simp_all add: c1_def)
  let ?p = "\<lparr>Header = \<lparr>h_PacketType = h_PacketType (Header pkt), h_Version = h_Version (Header pkt),
      h_Extension = h_Extension (Header pkt), h_ConnectionId = h_ConnectionId (Header pkt),
      h_Timestamp = UnixMicro (e_now E 2), h_TimestampDiff = tsDiffMicros c1,
      h_WndSize = word_of_int (rb_Available (e_pending E) rb), h_SeqNum = h_SeqNum (Header pkt),
      h_AckNum = rb_AckNum rb\<rparr>, Eack = rb_SelectiveAck (e_pending E) rb, Body = Body pkt\<rparr>"
  have "h_SeqNum (Header ?p) \<in> sent_nums sp1" "dc_sends (sp_congestionCtrl sp1) (h_SeqNum (Header ?p)) < 4294967295"
    using p(2) sp1(2,3) by (simp_all add: few_sends_def)
  from transmit_again [OF sp1(1) E this, of now] obtain c' sp' where
    c': "transmit E c1 ?p now = Some c'" "live c' rb sb sp'" "transmitted c1 [?p] c'" "sent_nums sp' = sent_nums sp1"
    by blast
  have "onTimeout E c pkt now = Some c'"
    using st p(1) parts fr(1) c'(1) unfolding onTimeout_def by (simp add: c1_def [symmetric])
  with c'(2,4) sp1(3) fr transmitted_frame [OF c'(3)] show ?thesis by auto
qed

lemma live_fewer_timers:
  assumes "live c rb sb sp" and "set chs \<subseteq> set (c_unackTimeoutCh c)"
  shows "live (c\<lparr>c_unackTimeoutCh := chs\<rparr>) rb sb sp"
  using assms by (auto simp: conn_live_def outstanding_def)

lemma cinv_fewer_timers:
  assumes "cinv c" and "set chs \<subseteq> set (c_unackTimeoutCh c)"
  shows "cinv (c\<lparr>c_unackTimeoutCh := chs\<rparr>)"
  using assms live_fewer_timers [OF _ assms(2)] by (fastforce simp: conn_inv_def outstanding_def)

lemma onTimeout_ok:
  assumes c: "cinv c" and E: "env E" and p: "pkt \<in> outstanding c"
    and few: "\<And>sp. SentPackets (c_state c) = Some sp \<Longrightarrow> few_sends sp"
    and sub: "set chs \<subseteq> set (c_unackTimeoutCh c)"
  shows "\<exists>c'. onTimeout E (c\<lparr>c_unackTimeoutCh := chs\<rparr>) pkt now = Some c' \<and> cinv c'"
proof -
  let ?c = "c\<lparr>c_unackTimeoutCh := chs\<rparr>"
  have c': "cinv ?c" by (rule cinv_fewer_timers [OF c sub])
  show ?thesis
  proof (cases "stateType (c_state c)")
    case ConnConnecting
    moreover from this c p have "is_syn pkt" by (simp add: conn_inv_def)
    ultimately show ?thesis using onTimeout_connecting [OF c', of pkt E now] by simp
  next
    case ConnConnected
    show ?thesis
    proof (cases "is_syn pkt")
      case True
      with ConnConnected c' show ?thesis by (simp add: onTimeout_def)
    next
      case False
      from ConnConnected obtain rb sb sp where l: "live c rb sb sp" using cinv_live [OF c] by blast
      then have "live ?c rb sb sp" by (rule live_fewer_timers [OF _ sub])
      moreover have "few_sends sp" using few l by (simp add: conn_live_def)
      moreover have "h_SeqNum (Header pkt) \<in> sent_nums sp" using l p False by (auto simp: conn_live_def)
      ultimately obtain c'' sp' where r: "onTimeout E ?c pkt now = Some c''" "live c'' rb sb sp'"
        "stateType (c_state c'') = ConnConnected" "c_config c'' = c_config c"
        "c_readable c'' = c_readable c" "c_writable c'' = c_writable c"
        using onTimeout_connected [of ?c rb sb sp E pkt now] E ConnConnected False by auto
      have "cinv c''" using conn_invD [OF c] r by (intro conn_inv_connected [OF r(3,2)]) simp_all
      with r(1) show ?thesis by blast
    qed
  next
    case ConnClosed
    with c' show ?thesis by (simp add: onTimeout_def)
  qed
qed

end

end
