(* ===== verification/Connection_Moves.thy ===== *)
theory Connection_Moves
  imports Connection_Loops "HOL-Library.Sublist"
begin

text \<open>
  How a connection can move, for every handler and every turn of its event loop, without any
  assumption on its state: towards closed, with its outputs only growing and its FINs fixed once known.
\<close>

fun state_rank :: "ConnStateType \<Rightarrow> nat" where
  "state_rank ConnConnecting = 0"
| "state_rank ConnConnected = 1"
| "state_rank ConnClosed = 2"

definition fin_kept ::
  "(ClosingRecord \<Rightarrow> u16 option) \<Rightarrow> ('t, 'l, 'p) connection \<Rightarrow> ('t, 'l, 'p) connection \<Rightarrow> bool" where
  "fin_kept f c c' \<longleftrightarrow> (\<forall>n. Option.bind (closing (c_state c)) f = Some n
     \<longrightarrow> Option.bind (closing (c_state c')) f = Some n)"

definition moves :: "('t, 'l, 'p) connection \<Rightarrow> ('t, 'l, 'p) connection \<Rightarrow> bool" where
  "moves c c' \<longleftrightarrow> state_rank (stateType (c_state c)) \<le> state_rank (stateType (c_state c'))
     \<and> fin_kept LocalFin c c' \<and> fin_kept RemoteFin c c'
     \<and> c_cid c' = c_cid c \<and> c_config c' = c_config c
     \<and> prefix (c_socketEvents c) (c_socketEvents c') \<and> prefix (c_reads c) (c_reads c')
     \<and> prefix (c_results c) (c_results c')"

lemma moves_refl [simp, intro]: "moves c c"
  by (simp add: moves_def fin_kept_def)

lemma moves_trans [trans]: "\<lbrakk> moves c c'; moves c' c'' \<rbrakk> \<Longrightarrow> moves c c''"
  unfolding moves_def fin_kept_def by (auto elim: prefix_order.trans)

text \<open>A connection that keeps its closing record and adds to its outputs moves, if it keeps its state or is closed.\<close>

lemma moves_same:
  "\<lbrakk> stateType (c_state c') = stateType (c_state c) \<or> stateType (c_state c') = ConnClosed; closing (c_state c') = closing (c_state c);
     c_cid c' = c_cid c; c_config c' = c_config c; prefix (c_socketEvents c) (c_socketEvents c');
     prefix (c_reads c) (c_reads c'); prefix (c_results c) (c_results c') \<rbrakk> \<Longrightarrow> moves c c'"
  by (cases "stateType (c_state c)") (auto simp: moves_def fin_kept_def)

text \<open>The rules for a computation whose result \<open>x\<close> carries the connection \<open>g x\<close>.\<close>

definition leads :: "('a \<Rightarrow> ('t, 'l, 'p) connection) \<Rightarrow> ('t, 'l, 'p) connection \<Rightarrow> 'a go \<Rightarrow> bool" where
  "leads g c m \<longleftrightarrow> (\<forall>x. m = Some x \<longrightarrow> moves c (g x))"

lemma leadsD: "leads g c m \<Longrightarrow> m = Some x \<Longrightarrow> moves c (g x)"
  by (simp add: leads_def)

lemma leads_Some: "moves c (g x) \<Longrightarrow> leads g c (Some x)"
  by (simp add: leads_def)

lemma leads_bind: "(\<And>x. m = Some x \<Longrightarrow> leads g c (f x)) \<Longrightarrow> leads g c (m \<bind> f)"
  by (auto simp: leads_def bind_eq_Some_conv)

lemma leads_step: "\<lbrakk> leads h c m; \<And>x. leads g (h x) (f x) \<rbrakk> \<Longrightarrow> leads g c (m \<bind> f)"
  unfolding leads_def bind_eq_Some_conv by (blast intro: moves_trans)

lemma leads_then: "\<lbrakk> leads id c m; \<And>x. leads g x (f x) \<rbrakk> \<Longrightarrow> leads g c (m \<bind> f)"
  using leads_step [of id c m g f] by simp

lemma leads_map: "leads (g \<circ> f) c m \<Longrightarrow> leads g c (map_option f m)"
  by (auto simp: leads_def)

lemma leads_if: "\<lbrakk> b \<Longrightarrow> leads g c m; \<not> b \<Longrightarrow> leads g c m' \<rbrakk> \<Longrightarrow> leads g c (if b then m else m')"
  by simp

lemma leads_option:
  "\<lbrakk> leads g c m; \<And>x. leads g c (f x) \<rbrakk> \<Longrightarrow> leads g c (case v of None \<Rightarrow> m | Some x \<Rightarrow> f x)"
  by (cases v) simp_all

lemma reset_simps [simp]:
  "stateType (c_state (reset e c)) = ConnClosed" "closing (c_state (reset e c)) = closing (c_state c)"
  "c_cid (reset e c) = c_cid c" "c_config (reset e c) = c_config c" "c_reads (reset e c) = c_reads c"
  "c_socketEvents (reset e c) = c_socketEvents c" "c_results (reset e c) = c_results c"
  by (simp_all add: reset_def)

lemma reset_moves: "moves c (reset e c)"
  by (rule moves_same) simp_all

lemma transmit_moves: "transmit E c p now = Some c' \<Longrightarrow> moves c c'"
  by (auto simp: transmit_def Let_def bind_eq_Some_conv split: if_splits intro!: moves_same)

lemma retransmit_each_moves:
  "retransmit_each E t w d c now ls = Some c' \<Longrightarrow> moves c c'"
  by (induction ls arbitrary: c) (auto simp: bind_eq_Some_conv Let_def dest!: transmit_moves intro: moves_trans)

lemma retransmitLostPackets_moves: "retransmitLostPackets E c now = Some c' \<Longrightarrow> moves c c'"
  by (auto simp: retransmitLostPackets_def bind_eq_Some_conv split: if_splits dest: retransmit_each_moves)

lemma send_payloads_moves:
  "send_payloads E c n w a sack now i ps = Some c' \<Longrightarrow> moves c c'"
  by (induction ps arbitrary: c n i) (auto simp: bind_eq_Some_conv Let_def dest!: transmit_moves intro: moves_trans)

lemma write_pending_results:
  "write_pending sb ws rs wr = Some (sb', ws', rs', wr') \<Longrightarrow> prefix rs rs'"
proof (induction sb ws rs wr rule: write_pending.induct)
  case (2 sb w ws rs wr)
  show ?case
  proof (cases "sb_Available sb \<le> 0")
    case False
    show ?thesis
    proof (cases "int (length (qw_data w)) \<le> sb_Available sb")
      case True
      obtain sb1 n where w: "sb_Write sb (qw_data w) = Some (sb1, n)"
        using 2(3) False True by (cases "sb_Write sb (qw_data w)") (auto simp: write_pending.simps(2))
      have "write_pending sb1 ws (rs @ [(qw_resultCh w, \<lparr>res_Err = None,
          res_Len = int (length (qw_data w)) + qw_written w, res_Data = []\<rparr>)]) (notify_token wr) = Some (sb', ws', rs', wr')"
        using 2(3) False True w by (simp add: write_pending.simps(2))
      from 2(1) [OF refl False True w refl this] show ?thesis by (rule append_prefixD)
    next
      case gt: False
      let ?d = "take (nat (sb_Available sb)) (qw_data w)"
      obtain sb1 n where w: "sb_Write sb ?d = Some (sb1, n)"
        using 2(3) False gt by (cases "sb_Write sb ?d") (auto simp: write_pending.simps(2))
      have "write_pending sb1 (w\<lparr>qw_data := drop (nat (sb_Available sb)) (qw_data w),
          qw_written := qw_written w + sb_Available sb\<rparr> # ws) rs (notify_token wr) = Some (sb', ws', rs', wr')"
        using 2(3) False gt w by (subst (asm) write_pending.simps(2)) (simp add: Let_def)
      from 2(2) [OF refl False gt w refl this] show ?thesis .
    qed
  qed (use 2(3) in \<open>simp add: write_pending.simps(2)\<close>)
qed (simp add: write_pending.simps(1))

lemma processWrites_moves:
  assumes "processWrites E c now = Some c'"
  shows "moves c c'"
proof (cases "stateType (c_state c)")
  case ConnConnected
  then obtain sb ws rs wr n w a sack ps where
    r: "prefix (c_results c) rs" "send_payloads E (set_state (SendBuf_update (\<lambda>_. Some sb))
        (c\<lparr>c_pendingWrites := ws, c_results := rs, c_writable := wr\<rparr>)) n w a sack now 0 ps = Some c'"
    using assms by (auto simp: processWrites_def bind_eq_Some_conv Let_def dest: write_pending_results)
  have "moves c (set_state (SendBuf_update (\<lambda>_. Some sb))
        (c\<lparr>c_pendingWrites := ws, c_results := rs, c_writable := wr\<rparr>))" by (rule moves_same) (simp_all add: r(1))
  with send_payloads_moves [OF r(2)] show ?thesis by (rule moves_trans [rotated])
qed (use assms in \<open>auto simp: processWrites_def Let_def intro!: moves_same\<close>)

lemma onWrite_moves:
  assumes "onWrite E c w = Some c'"
  shows "moves c c'"
proof -
  let ?w = "w\<lparr>qw_written := 0\<rparr>"
  define c1 where "c1 = (case stateType (c_state c) of
      ConnConnecting \<Rightarrow> c\<lparr>c_pendingWrites := c_pendingWrites c @ [?w]\<rparr>
    | ConnConnected \<Rightarrow>
        (case closing (c_state c) of
           Some cl \<Rightarrow> if LocalFin cl = None \<and> RemoteFin cl \<noteq> None
             then c\<lparr>c_pendingWrites := c_pendingWrites c @ [?w]\<rparr>
             else c\<lparr>c_results := c_results c @ [(qw_resultCh ?w, \<lparr>res_Err = None, res_Len = 0, res_Data = []\<rparr>)]\<rparr>
         | None \<Rightarrow> c\<lparr>c_pendingWrites := c_pendingWrites c @ [?w]\<rparr>)
    | ConnClosed \<Rightarrow> c\<lparr>c_results := c_results c
        @ [(qw_resultCh ?w, \<lparr>res_Err = st_Err (c_state c), res_Len = 0, res_Data = []\<rparr>)]\<rparr>)"
  obtain c2 where c: "processWrites (later 1 E) c1 (e_now E 0) = Some c2"
    "c' = c2\<lparr>c_writable := notify_token (c_writable c2)\<rparr>"
    using assms unfolding onWrite_def Let_def c1_def [symmetric] by (auto simp: bind_eq_Some_conv)
  have "moves c c1" unfolding c1_def
    by (rule moves_same) (simp_all split: ConnStateType.splits option.splits)
  also have "moves c1 c2" by (rule processWrites_moves [OF c(1)])
  also have "moves c2 c'" unfolding c(2) by (rule moves_same) simp_all
  finally show ?thesis .
qed

lemma read_chunks_prefix:
  "read_chunks B m rb rs = Some (rb', rs') \<Longrightarrow> prefix rs rs'"
proof (induction B m rb rs rule: read_chunks.induct)
  case (1 B m rb rs)
  show ?case using 1(2) by (subst (asm) read_chunks.simps)
    (auto split: if_splits option.splits dest!: 1(1) append_prefixD)
qed

lemma processReads_moves:
  assumes "processReads E c = Some c'"
  shows "moves c c'"
proof (cases "stateType (c_state c)")
  case ConnConnected
  have reads: "leads id c (case RecvBuf (c_state c) of None \<Rightarrow> Some c
      | Some rb \<Rightarrow> do {
          (rb, reads) \<leftarrow> read_chunks (e_pending E) (unat (cc_MaxPacketSize (c_config c))) rb (c_reads c);
          Some (set_state (RecvBuf_update (\<lambda>_. Some rb)) (c\<lparr>c_reads := reads\<rparr>))
        })"
    by (rule leads_option) (auto intro!: leads_Some leads_bind moves_same dest!: read_chunks_prefix)
  have eof: "moves c (if b then c\<lparr>c_reads := c_reads c @ rs\<rparr> else c)" for b rs and c :: "('a, 'b, 'c) connection"
    by (rule moves_same) simp_all
  have "leads id c (processReads E c)"
    unfolding processReads_def using ConnConnected
    by (simp, intro leads_step [where h = id, OF reads] leads_bind leads_Some) (simp add: eof)
  from leadsD [OF this assms] show ?thesis by simp
qed (use assms in \<open>auto simp: processReads_def intro!: moves_same\<close>)

section \<open>Packets and timeouts\<close>

lemma onSyn_moves: "moves c (onSyn c n)" and onReset_moves: "moves c (onReset c)"
  by (auto simp: onSyn_def onReset_def Let_def intro: reset_moves split: option.splits)

lemma onState_moves:
  "onState E c n a = Some c' \<Longrightarrow> moves c c'"
  by (auto simp: onState_def bind_eq_Some_conv Let_def moves_def fin_kept_def split: if_splits)

lemma onData_moves:
  assumes "onData E c n d = Some (c', e)"
  shows "moves c c'"
proof (cases "d = []")
  case True
  then have "c' = reset ErrEmptyDataPayload c" using assms by (simp add: onData_def)
  then show ?thesis by (simp add: reset_moves)
next
  case False
  then have "leads fst c (onData E c n d)"
    by (cases "stateType (c_state c)")
      (auto simp: onData_def Let_def intro!: leads_bind leads_if leads_Some moves_same split: option.splits)
  from leadsD [OF this assms] show ?thesis by simp
qed

lemma onFin_moves:
  assumes "onFin E c n d = Some (c', e)"
  shows "moves c c'"
proof (cases "\<exists>cl m. closing (c_state c) = Some cl \<and> RemoteFin cl = Some m")
  case True
  then show ?thesis using assms reset_moves [of c ErrInvalidFin] by (auto simp: onFin_def split: if_splits)
next
  case False
  then show ?thesis using assms unfolding onFin_def
    by (auto simp: bind_eq_Some_conv Let_def moves_def fin_kept_def split: if_splits option.splits)
qed

lemma dispatch_moves: "dispatch_packet E c p = Some c' \<Longrightarrow> moves c c'"
  unfolding dispatch_packet_def Let_def
  by (auto split: if_splits intro: onSyn_moves onReset_moves onState_moves onData_moves onFin_moves)

lemma processAck_moves:
  assumes "processAck E c a sack d now = Some (c', e)"
  shows "moves c c'"
proof -
  have "leads fst c (processAck E c a sack d now)"
    by (auto simp: processAck_def Let_def intro!: leads_bind leads_Some moves_same split: prod.splits sum.splits)
  from leadsD [OF this assms] show ?thesis by simp
qed

lemma statePacket_moves: "moves c (send_event ev (c\<lparr>c_synState := p\<rparr>))" "moves c (send_event ev c)"
  by (rule moves_same; simp)+

lemma answer_moves: "answer_packet E c p = Some c' \<Longrightarrow> moves c c'"
  unfolding answer_packet_def Let_def
  by (auto simp: bind_eq_Some_conv intro: statePacket_moves split: if_splits option.splits)

lemma closed_with_nil_moves: "moves c (closed_with_nil c)"
  by (rule moves_same) (simp_all add: closed_with_nil_def)

lemma close_checks_moves:
  assumes "close_checks E c = Some c'"
  shows "moves c c'"
proof -
  have reads: "leads id c (map_option closed_with_nil (processReads E c))" for c
    by (rule leads_map) (auto simp: leads_def intro: moves_trans [OF processReads_moves closed_with_nil_moves])
  have "leads id c (close_checks E c)"
    unfolding close_checks_def Let_def
    by (rule leads_step [where h = id], rule leads_option, rule leads_Some, simp, rule leads_bind,
        simp add: leads_Some closed_with_nil_moves split: prod.splits,
        rule leads_step [where h = id], rule leads_option, rule leads_Some, simp,
        intro leads_bind leads_if leads_Some) (simp_all add: reads leads_Some closed_with_nil_moves)
  from leadsD [OF this assms] show ?thesis by simp
qed

lemma onPacket_moves:
  assumes "onPacket E c p now = Some c'"
  shows "moves c c'"
proof -
  let ?ty = "h_PacketType (Header p)"
  define c0 where "c0 = c\<lparr>c_peerRecvWindow := h_WndSize (Header p), c_peerTsDiff :=
      (if 1000 * (UnixMicro (e_now E 0) - uint (h_TimestampDiff (Header p))) > cc_MaxIdleTimeout (c_config c)
       then 1000000000 else 1000 * (UnixMicro (e_now E 0) - uint (h_TimestampDiff (Header p))))\<rparr>"
  have parts: "leads id c (dispatch_packet E c p)"
    "leads id c (if b then map_option fst (processAck E c a sack d now) else Some c)"
    "leads id c (retransmitLostPackets E' c now)" "leads id c (answer_packet E' c p)" "leads id c (close_checks E c)"
    for c :: "('a, 'b, 'c) connection" and b a sack d E'
    by (auto simp: leads_def dispatch_moves retransmitLostPackets_moves answer_moves close_checks_moves
        intro: processAck_moves)
  have tokens: "moves c (if b then c\<lparr>c_writable := n\<rparr> else c)" "moves c (if b then c\<lparr>c_readable := n\<rparr> else c)"
    for c :: "('a, 'b, 'c) connection" and b n by (auto intro!: moves_same)
  have tail: "leads id c (close_checks E d)" if "moves c d" for c d :: "('a, 'b, 'c) connection"
    using that parts(5) [of d] unfolding leads_def by (blast intro: moves_trans)
  have "moves c c0" by (rule moves_same) (simp_all add: c0_def)
  also have "leads id c0 (onPacket E c p now)"
    unfolding onPacket_def Let_def c0_def [symmetric]
    by (rule leads_then [OF parts(1)], rule leads_then [OF parts(2)], rule leads_then [OF parts(3)],
        rule leads_then [OF parts(4)], rule tail, rule moves_trans [OF tokens])
  then have "moves c0 c'" using leadsD [OF _ assms, of id] by simp
  finally show ?thesis .
qed

lemma onTimeout_moves:
  assumes "onTimeout E c p now = Some c'"
  shows "moves c c'"
proof (cases "stateType (c_state c)")
  case ConnConnecting
  then have "leads id c (onTimeout E c p now)"
    by (auto simp: onTimeout_def Let_def intro!: leads_bind leads_if leads_Some moves_same)
  from leadsD [OF this assms] show ?thesis by simp
next
  case ConnConnected
  have *: "moves c (set_state (SentPackets_update (\<lambda>_. Some sp)) (c\<lparr>c_latestTimeout := t\<rparr>))" for sp t
    by (rule moves_same) simp_all
  have "leads id c (onTimeout E c p now)"
    using ConnConnected unfolding onTimeout_def Let_def
    by (auto simp: leads_def bind_eq_Some_conv split: if_splits dest!: transmit_moves intro: moves_trans [OF *])
  from leadsD [OF this assms] show ?thesis by simp
qed (use assms in \<open>simp add: onTimeout_def\<close>)

lemma send_fin_moves:
  "\<lbrakk> send_fin E c f = Some (c', n); \<And>n. moves c (f n c) \<rbrakk> \<Longrightarrow> moves c c'"
  by (auto simp: send_fin_def bind_eq_Some_conv Let_def intro: moves_trans [OF _ transmit_moves])

lemma transmit_closing: "transmit E c p now = Some c' \<Longrightarrow> closing (c_state c') = closing (c_state c)"
  by (auto simp: transmit_def Let_def bind_eq_Some_conv split: if_splits)

lemma send_fin_closing: "send_fin E c (\<lambda>_ c. c) = Some (c', n) \<Longrightarrow> closing (c_state c') = closing (c_state c)"
  by (auto simp: send_fin_def bind_eq_Some_conv Let_def dest: transmit_closing)

lemma closing_moves:
  assumes "\<And>cl n. closing (c_state c) = Some cl \<Longrightarrow> (LocalFin cl = Some n \<longrightarrow> LocalFin cl' = Some n)
      \<and> (RemoteFin cl = Some n \<longrightarrow> RemoteFin cl' = Some n)"
  shows "moves c (set_state (closing_update (\<lambda>_. Some cl')) c)"
  using assms by (auto simp: moves_def fin_kept_def bind_eq_Some_conv)

lemma shutdown_moves:
  assumes "shutdown_conn E c = Some c'"
  shows "moves c c'"
proof (cases "stateType (c_state c)")
  case ConnConnected
  show ?thesis
  proof (cases "closing (c_state c)")
    case None
    obtain c1 n where c1: "c' = set_state (closing_update (\<lambda>_. Some \<lparr>LocalFin = n, RemoteFin = None\<rparr>)) c1"
      "c1 = c \<or> (\<exists>m. send_fin E c (\<lambda>_ c. c) = Some (c1, m))"
      using assms ConnConnected None by (auto simp: shutdown_conn_def bind_eq_Some_conv split: if_splits)
    then have "moves c c1" "closing (c_state c1) = None"
      using None by (auto intro: send_fin_moves dest: send_fin_closing)
    note \<open>moves c c1\<close>
    also have "moves c1 c'" unfolding c1(1) by (rule closing_moves) (simp add: \<open>closing (c_state c1) = None\<close>)
    finally show ?thesis .
  next
    case (Some cl)
    let ?f = "\<lambda>n. set_state (closing_update (\<lambda>_. Some (cl\<lparr>LocalFin := Some n\<rparr>)))"
    consider "c' = c" | n where "send_fin E c ?f = Some (c', n)" "LocalFin cl = None"
      using assms ConnConnected Some by (auto simp: shutdown_conn_def bind_eq_Some_conv split: if_splits)
    then show ?thesis
    proof cases
      case (2 n)
      then show ?thesis using Some by (intro send_fin_moves [OF 2(1)] closing_moves) auto
    qed simp
  qed
qed (use assms in \<open>auto simp: shutdown_conn_def intro!: moves_same\<close>)

section \<open>Turns of the event loop\<close>

lemma eof_closed: "stateType (c_state c) = ConnClosed \<Longrightarrow> conn_eof c = Some True"
  by (simp add: conn_eof_def)

lemma run_case_moves:
  assumes "run_case E k st c = Some (st', c')"
  shows "moves c c'"
proof -
  have *: "moves c (c\<lparr>c_readable := n\<rparr>)" "moves c (c\<lparr>c_writable := n\<rparr>)" "moves c (c\<lparr>c_unackTimeoutCh := ps\<rparr>)" for n ps
    by (rule moves_same; simp)+
  show ?thesis
  proof (cases k)
    case CaseIncoming
    then show ?thesis using assms
      by (auto simp: run_case_def handleIncoming_def bind_eq_Some_conv split: if_splits intro: onPacket_moves)
  next
    case CaseIdle
    have "moves c (handleIdleTimeout c)" unfolding handleIdleTimeout_def by (rule moves_same) simp_all
    then show ?thesis using assms CaseIdle by (simp add: run_case_def)
  qed (use assms in \<open>auto simp: run_case_def intro: onWrite_moves moves_trans [OF *(1) processReads_moves]
      moves_trans [OF *(2) processWrites_moves] moves_trans [OF *(3) onTimeout_moves]\<close>)
qed

lemma after_select_moves:
  assumes "after_select E st c = Some (c', ex)"
  shows "moves c c'"
proof -
  have *: "leads id c (shutdown_conn E c)" "leads id c (processReads E c)" "leads id c (processWrites E' c t)" for c E' t
    by (simp_all add: leads_def shutdown_moves processReads_moves processWrites_moves)
  have ev: "moves c (send_event ev c)" for ev and c :: "('a, 'b, 'c) connection" by (rule moves_same) simp_all
  have "leads fst c (after_select E st c)"
    unfolding after_select_def Let_def
    by (rule leads_step [where h = id], simp add: * leads_Some, rule leads_if, rule leads_bind,
        rule leads_step [where h = id], simp add: * leads_Some, rule leads_step [where h = id], simp add: *)
      (simp_all add: leads_Some ev)
  from leadsD [OF this assms] show ?thesis by simp
qed

text \<open>A turn is a case of the \<open>select\<close>, what follows it, and the deferred stop of the wheel.\<close>

lemma loop_turn_parts:
  assumes "loop_turn E E' k st c = Some (st', c', ex)"
  obtains c1 c2 where "run_case E k st c = Some (st', c1)"
    and "if k = CaseDone then c2 = c1 \<and> ex = ReturnCtxErr else after_select E' st' c1 = Some (c2, ex)"
    and "if ex = Continue then c' = c2 else stop_wheel c2 = Some c'"
proof -
  obtain c1 where c1: "run_case E k st c = Some (st', c1)" "do {
      (c, ex) \<leftarrow> (if k = CaseDone then Some (c1, ReturnCtxErr) else after_select E' st' c1);
      c \<leftarrow> (if ex = Continue then Some c else stop_wheel c);
      Some (st', c, ex) } = Some (st', c', ex)"
    using assms by (auto simp: loop_turn_def bind_eq_Some_conv)
  then obtain c2 where "(if k = CaseDone then Some (c1, ReturnCtxErr) else after_select E' st' c1) = Some (c2, ex)"
    "(if ex = Continue then Some c2 else stop_wheel c2) = Some c'"
    by (auto simp: bind_eq_Some_conv)
  with that [OF c1(1), of c2] show ?thesis by (auto split: if_splits)
qed

lemma stop_wheel_moves: "stop_wheel c = Some c' \<Longrightarrow> moves c c'"
  by (auto simp: stop_wheel_def bind_eq_Some_conv intro!: moves_same)

lemma loop_turn_moves:
  assumes "loop_turn E E' k st c = Some (st', c', ex)"
  shows "moves c c'"
proof -
  obtain c1 c2 where c: "run_case E k st c = Some (st', c1)"
    "if k = CaseDone then c2 = c1 \<and> ex = ReturnCtxErr else after_select E' st' c1 = Some (c2, ex)"
    "if ex = Continue then c' = c2 else stop_wheel c2 = Some c'" by (rule loop_turn_parts [OF assms])
  have "moves c c1" by (rule run_case_moves [OF c(1)])
  also have "moves c1 c2" using c(2) by (auto intro: after_select_moves split: if_splits)
  also have "moves c2 c'" using c(3) by (auto intro: stop_wheel_moves split: if_splits)
  finally show ?thesis .
qed

lemma after_select_exit:
  "after_select E st c = Some (c', ex) \<Longrightarrow> ex = Continue \<longleftrightarrow> stateType (c_state c') \<noteq> ConnClosed"
  unfolding after_select_def Let_def
  by (auto simp: bind_eq_Some_conv eof_closed processWrites_def split: if_splits)

lemma loop_turn_exit:
  assumes "loop_turn E E' k st c = Some (st', c', ex)"
  shows "ex = Continue \<longleftrightarrow> k \<noteq> CaseDone \<and> stateType (c_state c') \<noteq> ConnClosed"
proof -
  obtain c1 c2 where c: "run_case E k st c = Some (st', c1)"
    "if k = CaseDone then c2 = c1 \<and> ex = ReturnCtxErr else after_select E' st' c1 = Some (c2, ex)"
    "if ex = Continue then c' = c2 else stop_wheel c2 = Some c'" by (rule loop_turn_parts [OF assms])
  have "c_state c' = c_state c2" using c(3) by (auto simp: stop_wheel_def bind_eq_Some_conv split: if_splits)
  then show ?thesis using c(2) after_select_exit [of E' st' c1 c2 ex] by (auto split: if_splits)
qed

lemma conn_tick_moves: "conn_tick ord c = Some c' \<Longrightarrow> moves c c'"
  by (auto simp: conn_tick_def bind_eq_Some_conv intro!: moves_same)

end
