(* ===== verification/Event_Loop.thy ===== *)
theory Event_Loop
  imports Connection_Events Connection_Moves
begin

text \<open>
  A turn of the event loop (\<open>conn.go\<close>, \<open>eventLoop\<close>): the shutdown, what follows the \<open>select\<close>, each
  case, the ticks of the wheel and the start of the loop keep the invariant and do not panic.
\<close>

text \<open>What a case of the \<open>select\<close> needs beyond the invariant.\<close>

fun case_fits :: "('t, 'l) conn_env \<Rightarrow> loop_case \<Rightarrow> ('t, 'l, 'p) connection \<Rightarrow> bool" where
  "case_fits E CaseIncoming c \<longleftrightarrow> calm (e_now E 0) c"
| "case_fits E CaseWrite c \<longleftrightarrow> seq_room (later 1 E) c"
| "case_fits E CaseWritable c \<longleftrightarrow> seq_room (later 1 E) c"
| "case_fits E CaseTimeout c \<longleftrightarrow> (\<forall>sp. SentPackets (c_state c) = Some sp \<longrightarrow> few_sends sp)"
| "case_fits E _ c \<longleftrightarrow> True"

text \<open>An incoming event of type \<open>streamIncoming\<close> carries a packet, as the socket makes them.\<close>

definition events_ok :: "streamChans \<Rightarrow> bool" where
  "events_ok st \<longleftrightarrow> (\<forall>ev \<in> set (st_streamEvents st). ev_Type ev = streamIncoming \<longrightarrow> ev_Packet ev \<noteq> None)"

lemma seq_room_writable [simp]: "seq_room E (c\<lparr>c_writable := n\<rparr>) = seq_room E c"
  by (simp add: seq_room_def new_payloads_def cong: option.case_cong)

context conn_trees
begin

lemma send_fin_ok:
  assumes c: "cinv c" and E: "env E" and st: "stateType (c_state c) = ConnConnected" and fin: "fin_fits E c"
    and f: "\<And>n. \<exists>cl. f n c = set_state (closing_update (\<lambda>_. cl)) c"
  shows "\<exists>c' n. send_fin E c f = Some (c', n) \<and> cinv c' \<and> stateType (c_state c') = ConnConnected"
proof -
  obtain rb sb sp where l: "live c rb sb sp" using cinv_live [OF c st] by blast
  then have sp: "RecvBuf (c_state c) = Some rb" "SentPackets (c_state c) = Some sp" by (simp_all add: conn_live_def)
  let ?n = "NextSeqNum sp"
  obtain cl where cl: "f ?n c = set_state (closing_update (\<lambda>_. cl)) c" using f by blast
  have l': "live (f ?n c) rb sb sp" unfolding cl using l by (simp add: conn_live_def outstanding_def)
  let ?fin = "Build (WithSelectiveAck (rb_SelectiveAck (e_pending E) rb) (WithAckNum (rb_AckNum rb)
    (NewPacketBuilder st_fin (cid_Send (c_cid c)) (NowMicro (e_now E 0)) (word_of_int (rb_Available (e_pending E) rb)) ?n)))"
  have fr: "h_SeqNum (Header ?fin) = ?n" "Body ?fin = []"
    by (simp_all add: Build_def WithSelectiveAck_def WithAckNum_def NewPacketBuilder_def)
  have room: "length (sp_packets sp) < 65533" "0 < Window (e_ctrl E) sp"
    using fin st sp(2) by (simp_all add: fin_fits_def)
  obtain c' sp' where c': "transmit E (f ?n c) ?fin (e_now E 1) = Some c'" "live c' rb sb sp'"
    "transmitted (f ?n c) [?fin] c'"
    using transmit_new [OF l' E fr(1) room(1), of "e_now E 1"] room(2) fr(2) by auto
  have "stateType (c_state c') = ConnConnected" "cinv c'"
    using transmitted_frame [OF c'(3)] st conn_invD [OF c] c'(2)
    by (simp_all add: cl conn_inv_connected)
  then show ?thesis using c'(1) sp by (simp add: send_fin_def Let_def)
qed

lemma cinv_closing [simp]: "cinv (set_state (closing_update f) c) = cinv c"
  by (simp add: conn_inv_def conn_live_def outstanding_def)

lemma nothing_to_send_ok:
  "\<lbrakk> cinv c; stateType (c_state c) = ConnConnected \<rbrakk> \<Longrightarrow> \<exists>b. nothing_to_send c = Some b"
  using cinv_live [of c] by (auto simp: nothing_to_send_def conn_live_def)

lemma shutdown_ok:
  assumes "cinv c" and "env E" and "fin_fits E c"
  shows "\<exists>c'. shutdown_conn E c = Some c' \<and> cinv c'"
proof (cases "stateType (c_state c)")
  case ConnConnected
  note fin = send_fin_ok [OF assms(1,2) ConnConnected assms(3)]
  obtain b where b: "nothing_to_send c = Some b" using nothing_to_send_ok [OF assms(1) ConnConnected] by blast
  show ?thesis
  proof (cases "closing (c_state c)")
    case None
    obtain c' n where "send_fin E c (\<lambda>_ c. c) = Some (c', n)" "cinv c'"
      using fin [of "\<lambda>_ c. c", OF exI [of _ "closing (c_state c)"]] by (auto simp: set_state_def)
    with None ConnConnected b assms(1) show ?thesis by (cases b) (simp_all add: shutdown_conn_def)
  next
    case (Some cl)
    obtain c' n where "send_fin E c (\<lambda>n. set_state (closing_update (\<lambda>_. Some (cl\<lparr>LocalFin := Some n\<rparr>)))) = Some (c', n)"
      "cinv c'" using fin [of "\<lambda>n. set_state (closing_update (\<lambda>_. Some (cl\<lparr>LocalFin := Some n\<rparr>)))"] by auto
    with Some ConnConnected b assms(1) show ?thesis by (auto simp: shutdown_conn_def)
  qed
qed (use assms(1) in \<open>auto simp: shutdown_conn_def intro!: conn_inv_closed\<close>)

lemma after_select_ok:
  assumes "cinv c" and "env E" and "st_shutdown st \<Longrightarrow> fin_fits E c"
  shows "\<exists>c' ex. after_select E st c = Some (c', ex) \<and> cinv c' \<and> (ex = Continue \<or> stateType (c_state c') = ConnClosed)"
proof -
  define r where "r = (if st_shutdown st \<and> stateType (c_state c) \<noteq> ConnClosed then shutdown_conn E c else Some c)"
  obtain c1 where c1: "r = Some c1" "cinv c1"
  proof (cases "st_shutdown st \<and> stateType (c_state c) \<noteq> ConnClosed")
    case True
    then show ?thesis using shutdown_ok [OF assms] that by (auto simp: r_def)
  qed (use assms(1) that [of c] in \<open>auto simp: r_def\<close>)
  show ?thesis
  proof (cases "stateType (c_state c1) = ConnClosed")
    case True
    obtain c2 where "processWrites (later 3 E) c1 (e_now E 2) = Some c2" "cinv c2" "stateType (c_state c2) = ConnClosed"
      using True c1(2) by (auto simp: processWrites_def)
    with True c1 show ?thesis by (simp add: after_select_def r_def [symmetric] eof_closed)
  next
    case False
    with c1 show ?thesis by (simp add: after_select_def r_def [symmetric])
  qed
qed

lemma run_case_ok:
  assumes c: "cinv c" and E: "env E" and r: "ready k st c" and fit: "case_fits E k c" and ev: "events_ok st"
  shows "\<exists>st' c'. run_case E k st c = Some (st', c') \<and> cinv c' \<and> events_ok st'"
proof (cases k)
  case CaseIncoming
  let ?ev = "hd (st_streamEvents st)"
  have hd: "?ev \<in> set (st_streamEvents st)" using r CaseIncoming by simp
  have tl: "events_ok (st\<lparr>st_streamEvents := tl (st_streamEvents st)\<rparr>)"
    using ev hd by (cases "st_streamEvents st") (auto simp: events_ok_def)
  show ?thesis
  proof (cases "ev_Type ?ev = streamIncoming")
    case True
    then obtain pkt where pkt: "ev_Packet ?ev = Some pkt" using ev hd by (auto simp: events_ok_def)
    obtain c' where "onPacket (later 1 E) c pkt (e_now E 0) = Some c'" "cinv c'"
      using onPacket_ok [OF c, of "later 1 E" "e_now E 0" pkt] E fit CaseIncoming by auto
    with True pkt CaseIncoming tl show ?thesis by (simp add: run_case_def handleIncoming_def)
  next
    case False
    then show ?thesis using CaseIncoming c tl
      by (cases "ev_Type ?ev = streamShutdown") (simp_all add: run_case_def handleIncoming_def events_ok_def)
  qed
next
  case CaseWrite
  have "events_ok (st\<lparr>st_writes := tl (st_writes st)\<rparr>)" using ev by (simp add: events_ok_def)
  with CaseWrite onWrite_ok [OF c E] fit show ?thesis by (fastforce simp: run_case_def)
next
  case CaseReadable
  have "cinv (c\<lparr>c_readable := c_readable c - 1\<rparr>)" using conn_inv_tokens(1) [OF c] conn_invD(4) [OF c] by simp
  from processReads_ok [OF this E] show ?thesis using CaseReadable ev by (auto simp: run_case_def)
next
  case CaseWritable
  let ?c = "c\<lparr>c_writable := c_writable c - 1\<rparr>"
  have c': "cinv ?c" using conn_inv_tokens(2) [OF c] conn_invD(5) [OF c] by simp
  have "seq_room (later 1 E) ?c" using fit CaseWritable by simp
  then obtain d where "processWrites (later 1 E) ?c (e_now E 0) = Some d" "cinv d"
    using processWrites_ok [OF c', of "later 1 E"] E by auto
  then show ?thesis using CaseWritable ev by (simp add: run_case_def)
next
  case CaseTimeout
  have ne: "c_unackTimeoutCh c \<noteq> []" using r CaseTimeout by simp
  then have "hd (c_unackTimeoutCh c) \<in> outstanding c" by (simp add: outstanding_def)
  moreover have "set (tl (c_unackTimeoutCh c)) \<subseteq> set (c_unackTimeoutCh c)" using ne by (cases "c_unackTimeoutCh c") auto
  ultimately obtain d where "onTimeout (later 1 E) (c\<lparr>c_unackTimeoutCh := tl (c_unackTimeoutCh c)\<rparr>)
      (hd (c_unackTimeoutCh c)) (e_now E 0) = Some d" "cinv d"
    using onTimeout_ok [OF c, of "later 1 E" "hd (c_unackTimeoutCh c)" "tl (c_unackTimeoutCh c)" "e_now E 0"]
      E fit CaseTimeout by auto
  then show ?thesis using CaseTimeout ev by (simp add: run_case_def)
next
  case CaseIdle
  then show ?thesis using c ev by (auto simp: run_case_def handleIdleTimeout_def intro!: conn_inv_closed)
next
  case CaseDone
  then show ?thesis using c ev by (simp add: run_case_def events_ok_def)
qed

lemma stop_wheel_ok:
  "cinv c \<Longrightarrow> \<exists>c'. stop_wheel c = Some c' \<and> tw_stopped (c_unacked c') \<and> c_state c' = c_state c"
  using conn_invD(3) [of BP invarP BL invarL c] by (auto simp: stop_wheel_def tw_stop_def)

lemma loop_turn_ok:
  assumes "cinv c" and "env E" and "env E'" and "ready k st c" and "case_fits E k c" and "events_ok st"
    and fin: "\<And>st' c'. run_case E k st c = Some (st', c') \<Longrightarrow> st_shutdown st' \<Longrightarrow> fin_fits E' c'"
  shows "\<exists>st' c' ex. loop_turn E E' k st c = Some (st', c', ex)
     \<and> (if ex = Continue then cinv c' \<and> events_ok st'
        else tw_stopped (c_unacked c') \<and> (k = CaseDone \<or> stateType (c_state c') = ConnClosed))"
proof -
  obtain st1 c1 where c1: "run_case E k st c = Some (st1, c1)" "cinv c1" "events_ok st1"
    using run_case_ok [OF assms(1,2,4,5,6)] by blast
  define r where "r = (if k = CaseDone then Some (c1, ReturnCtxErr) else after_select E' st1 c1)"
  obtain c2 ex where c2: "r = Some (c2, ex)" "cinv c2"
    "ex = Continue \<or> k = CaseDone \<or> stateType (c_state c2) = ConnClosed"
  proof (cases "k = CaseDone")
    case False
    then show ?thesis using after_select_ok [OF c1(2) assms(3), of st1] fin [OF c1(1)] that by (auto simp: r_def)
  qed (use c1(2) that in \<open>simp add: r_def\<close>)
  obtain c3 where c3: "stop_wheel c2 = Some c3" "tw_stopped (c_unacked c3)" "c_state c3 = c_state c2"
    using stop_wheel_ok [OF c2(2)] by blast
  have "loop_turn E E' k st c = Some (st1, if ex = Continue then c2 else c3, ex)"
    using c1(1) c2(1) c3(1) unfolding loop_turn_def r_def by simp
  then show ?thesis using c1(3) c2(2,3) c3(2,3) by auto
qed

lemma tick_ok:
  assumes "cinv c" and ord: "permutes_entries ord"
  shows "\<exists>c'. conn_tick ord c = Some c' \<and> cinv c'"
proof -
  obtain w ex where w: "tw_tick ord (c_unacked c) = Some (w, ex)" "tw_wf w"
    "tw_stopped w = tw_stopped (c_unacked c)" "wheel_packets w \<union> snd ` set ex \<subseteq> wheel_packets (c_unacked c)"
    using wheel_tick [OF ord conn_invD(2) [OF assms(1)]] by blast
  let ?c = "c\<lparr>c_unacked := w, c_unackTimeoutCh := c_unackTimeoutCh c @ map snd ex\<rparr>"
  have out: "outstanding ?c \<subseteq> outstanding c" using w(4) by (auto simp: outstanding_def)
  have "live ?c rb sb sp" if "live c rb sb sp" for rb sb sp
    using that w(2,3) out by (auto simp: conn_live_def)
  then have "cinv ?c" using assms(1) w(2,3) out by (auto simp: conn_inv_def) blast+
  then show ?thesis using w(1) by (simp add: conn_tick_def)
qed

section \<open>The start of a connection\<close>

lemma newConnection_ok:
  assumes "conn_config_ok config"
  shows "\<exists>c. newConnection E cid config syn ch = Some c \<and> c_config c = config \<and> tw_wf (c_unacked c)
     \<and> \<not> tw_stopped (c_unacked c) \<and> outstanding c = {} \<and> c_readable c = 0 \<and> c_writable c = 0
     \<and> c_state c = NewConnState ch \<and> ep_Type (c_endpoint c) = (if syn = None then Initiator else Acceptor)"
proof -
  have "0 < go_quot (cc_InitialTimeout config) 4"
    using config_bounds(1) [OF assms] by (simp add: go_quot_def)
  then obtain w :: "(u16, packet) timeWheel" where "newTimeWheel (go_quot (cc_InitialTimeout config) 4) 8 = Some w" "tw_wf w" "\<not> tw_stopped w"
    "wheel_packets w = {}" using wheel_new by (metis zero_less_numeral)
  then show ?thesis by (cases syn) (simp_all add: newConnection_def outstanding_def)
qed

lemma start_initiator:
  assumes cfg: "conn_config_ok (c_config c)" and w: "tw_wf (c_unacked c)" "\<not> tw_stopped (c_unacked c)"
    and c: "outstanding c = {}" "c_readable c = 0" "c_writable c = 0" "c_state c = NewConnState (Some ch)"
      "\<not> ch_closed ch" "ep_Type (c_endpoint c) = Initiator"
  shows "\<exists>c'. loop_start E c = Some c' \<and> cinv c' \<and> stateType (c_state c') = ConnConnecting"
proof -
  have "0 \<le> cc_InitialTimeout (c_config c)" using config_bounds(1) [OF cfg] by simp
  then obtain w' where w': "tw_put (c_unacked c) (ep_SynNum (c_endpoint c)) (synPacket E c (ep_SynNum (c_endpoint c)))
      (cc_InitialTimeout (c_config c)) = Some w'" "tw_wf w'" "tw_stopped w' = tw_stopped (c_unacked c)"
    "wheel_packets w' \<subseteq> insert (synPacket E c (ep_SynNum (c_endpoint c))) (wheel_packets (c_unacked c))"
    using wheel_put [OF w(1)] by blast
  then show ?thesis using cfg w c is_syn_synPacket [of E c "ep_SynNum (c_endpoint c)"]
    by (auto simp: loop_start_def Let_def conn_inv_def NewConnState_def outstanding_def)
qed

lemma start_acceptor:
  assumes cfg: "conn_config_ok (c_config c)" and w: "tw_wf (c_unacked c)" "\<not> tw_stopped (c_unacked c)"
    and c: "outstanding c = {}" "c_readable c = 0" "c_writable c = 0" "c_state c = NewConnState (Some ch)"
      "\<not> ch_closed ch" "ep_Type (c_endpoint c) = Acceptor" and E: "env E"
  shows "\<exists>c'. loop_start E c = Some c' \<and> cinv c' \<and> stateType (c_state c') = ConnConnected"
proof -
  obtain p where p: "statePacket E c = Some (Some p)" using c(4,6) by (simp add: statePacket_def NewConnState_def)
  let ?c = "send_event (newOutgoingSocketEvent p (CidPeer (c_cid c))) (c\<lparr>c_synState := Some p\<rparr>)"
  let ?c' = "set_state (\<lambda>s. s\<lparr>connectedCh := Some (ch\<lparr>ch_sent := ch_sent ch @ [None]\<rparr>), stateType := ConnConnected,
      RecvBuf := Some (newReceiveBuffer BP (nat (cc_BufferSize (c_config ?c))) (ep_SynNum (c_endpoint c))),
      SendBuf := Some (newSendBuffer (cc_BufferSize (c_config ?c))),
      SentPackets := Some (newSentPackets BL (ep_SynAck (c_endpoint c) - 1)
        (newDefaultController (fromConnConfig (c_config ?c))))\<rparr>) ?c"
  have sz: "0 \<le> cc_BufferSize (c_config c)" using cfg by (simp add: conn_config_ok_def)
  have "loop_start E c = Some ?c'"
    using c(4-6) p sz E by (simp add: loop_start_def make_recv_buffer_def NewConnState_def ch_send_def Let_def)
  moreover have "\<forall>p \<in> outstanding ?c. is_syn p" using c(1) by (simp add: outstanding_def)
  then have "cinv ?c'" using cfg w c(2,3) by (intro become_connected) simp_all
  ultimately show ?thesis by simp
qed

end

end
