(* ===== verification/Connection_Props.thy ===== *)
theory Connection_Props
  imports Event_Loop
begin

text \<open>
  Properties of a connection (\<open>conn.go\<close>): the runs of its event loop and what they keep, how far its
  state can move, how it gives up, and what it hands to the stream and to the socket.
\<close>

section \<open>The trees\<close>

interpretation conn_lists: conn_trees "list_BTree pendingItem_Less" "sorted_wrt pendingItem_Less"
    "list_BTree (<)" "sorted_wrt (<)"
  by (intro conn_trees.intro pending_list.recv_tree_axioms lost_order.btree_axioms)

section \<open>Runs\<close>

text \<open>What a turn needs beyond the invariant.\<close>

definition turn_fits ::
  "('t, 'l) conn_env \<Rightarrow> ('t, 'l) conn_env \<Rightarrow> loop_case \<Rightarrow> streamChans \<Rightarrow> ('t, 'l, 'p) connection \<Rightarrow> bool" where
  "turn_fits E E' k st c \<longleftrightarrow> case_fits E k c
     \<and> (\<forall>st' c'. run_case E k st c = Some (st', c') \<longrightarrow> st_shutdown st' \<longrightarrow> fin_fits E' c')"

text \<open>
  The states of an event loop and its stream: after the start, after a turn of the loop, after a tick
  of the wheel, after an event from the socket, a write or a close of the stream.
\<close>

inductive conn_run ::
  "('t, pendingItem) BTree \<Rightarrow> ('l, u16) BTree \<Rightarrow> streamChans \<Rightarrow> ('t, 'l, 'p) connection \<Rightarrow> bool"
  for BP BL where
  run_start: "\<lbrakk> conn_config_ok config; e_pending E = BP; e_lost E = BL;
      newConnection E cid config syn (Some \<lparr>ch_sent = [], ch_closed = False\<rparr>) = Some c;
      loop_start (later 1 E) c = Some c' \<rbrakk>
    \<Longrightarrow> conn_run BP BL \<lparr>st_streamEvents = [], st_writes = [], st_shutdown = False\<rparr> c'"
| run_turn: "\<lbrakk> conn_run BP BL st c; e_pending E = BP; e_lost E = BL; e_pending E' = BP; e_lost E' = BL;
      ready k st c; turn_fits E E' k st c; loop_turn E E' k st c = Some (st', c', Continue) \<rbrakk>
    \<Longrightarrow> conn_run BP BL st' c'"
| run_tick: "\<lbrakk> conn_run BP BL st c; permutes_entries ord; conn_tick ord c = Some c' \<rbrakk> \<Longrightarrow> conn_run BP BL st c'"
| run_event: "\<lbrakk> conn_run BP BL st c; ev_Type ev = streamIncoming \<longrightarrow> ev_Packet ev \<noteq> None \<rbrakk>
    \<Longrightarrow> conn_run BP BL (st\<lparr>st_streamEvents := st_streamEvents st @ [ev]\<rparr>) c"
| run_write: "conn_run BP BL st c \<Longrightarrow> conn_run BP BL (st\<lparr>st_writes := st_writes st @ [w]\<rparr>) c"
| run_close: "conn_run BP BL st c \<Longrightarrow> conn_run BP BL (st\<lparr>st_shutdown := True\<rparr>) c"

context conn_trees
begin

lemma start_ok:
  assumes cfg: "conn_config_ok config" and E: "env E"
    and c: "newConnection E cid config syn (Some \<lparr>ch_sent = [], ch_closed = False\<rparr>) = Some c"
  shows "\<exists>c'. loop_start (later 1 E) c = Some c' \<and> cinv c'
     \<and> stateType (c_state c') = (if syn = None then ConnConnecting else ConnConnected)"
proof -
  have n: "c_config c = config" "tw_wf (c_unacked c)" "\<not> tw_stopped (c_unacked c)" "outstanding c = {}"
    "c_readable c = 0" "c_writable c = 0" "c_state c = NewConnState (Some \<lparr>ch_sent = [], ch_closed = False\<rparr>)"
    "ep_Type (c_endpoint c) = (if syn = None then Initiator else Acceptor)"
    using newConnection_ok [OF cfg, of E cid syn "Some \<lparr>ch_sent = [], ch_closed = False\<rparr>"] c by auto
  show ?thesis
  proof (cases "syn = None")
    case True
    then show ?thesis using start_initiator [OF _ n(2-7), of "later 1 E"] n(1,8) cfg by auto
  next
    case False
    then show ?thesis using start_acceptor [OF _ n(2-7), of "later 1 E"] n(1,8) cfg E by auto
  qed
qed

lemma run_inv:
  assumes "conn_run BP BL st c"
  shows "cinv c \<and> events_ok st"
  using assms
proof induction
  case (run_start config E cid syn c c')
  then show ?case using start_ok [OF run_start(1), of E cid syn c] by (simp add: events_ok_def)
next
  case (run_turn st c E E' k st' c')
  then show ?case using loop_turn_ok [of c E E' k st] by (auto simp: turn_fits_def)
next
  case (run_tick st c ord c')
  then show ?case using tick_ok [of c ord] by auto
qed (auto simp: events_ok_def)

end

lemma default_conn_config_ok: "conn_config_ok NewConnectionConfig"
  by (simp add: conn_config_ok_def config_ok_def fromConnConfig_def NewConnectionConfig_def)

text \<open>
  C2. A connection stays well formed and its event loop does not panic. Whatever packets arrive,
  however they are mixed with writes, timeouts and a close, every state of the loop has the
  invariant: the wheel is well formed, a connected end has its buffers and its sent packets in order,
  every running timer belongs to a packet that was sent. And the next turn returns, if no packet has been
  sent \<open>2^32 - 1\<close> times, sequence numbers are left for new packets, and a FIN finds an open window
  (\<open>turn_fits\<close>). The trees are any that keep the contract of \<open>BTree_Spec\<close>.
\<close>

theorem conn_run_ok:
  assumes "conn_trees BP invarP BL invarL" and "conn_run BP BL st c"
  shows "conn_inv BP invarP BL invarL c
     \<and> (\<forall>E E' k. e_pending E = BP \<and> e_lost E = BL \<and> e_pending E' = BP \<and> e_lost E' = BL
            \<and> ready k st c \<and> turn_fits E E' k st c \<longrightarrow> loop_turn E E' k st c \<noteq> None)
     \<and> (\<forall>ord. permutes_entries ord \<longrightarrow> conn_tick ord c \<noteq> None)"
proof (intro conjI allI impI)
  note inv = conn_trees.run_inv [OF assms]
  then show c: "conn_inv BP invarP BL invarL c" ..
  show "loop_turn E E' k st c \<noteq> None"
    if "e_pending E = BP \<and> e_lost E = BL \<and> e_pending E' = BP \<and> e_lost E' = BL
        \<and> ready k st c \<and> turn_fits E E' k st c" for E E' k
    using conn_trees.loop_turn_ok [OF assms(1) c, of E E' k st] that inv by (auto simp: turn_fits_def)
  show "conn_tick ord c \<noteq> None" if "permutes_entries ord" for ord
    using conn_trees.tick_ok [OF assms(1) c that] by auto
qed

text \<open>An environment for concrete runs: the trees are sorted lists, the clock stands still.\<close>

definition still_env :: "(pendingItem list, u16 list) conn_env" where
  "still_env = \<lparr>e_pending = list_BTree pendingItem_Less, e_lost = list_BTree (<),
     e_ackClock = (\<lambda>_ _. 0), e_now = (\<lambda>_. 0), e_rand = 7\<rparr>"

definition still_cid :: "nat ConnectionId" where
  "still_cid = \<lparr>cid_Send = 101, cid_Recv = 100, cid_Peer = 0, cid_hash = []\<rparr>"

definition still_start :: "(pendingItem list, u16 list, nat) connection" where
  "still_start = the (newConnection still_env still_cid NewConnectionConfig None
       (Some \<lparr>ch_sent = [], ch_closed = False\<rparr>) \<bind> loop_start (later 1 still_env))"

definition still_chans :: streamChans where
  "still_chans = \<lparr>st_streamEvents = [], st_writes = [], st_shutdown = False\<rparr>"

lemma still_run: "conn_run (list_BTree pendingItem_Less) (list_BTree (<)) still_chans still_start"
    and still_connecting: "stateType (c_state still_start) = ConnConnecting"
proof -
  let ?ch = "Some \<lparr>ch_sent = [], ch_closed = False\<rparr>"
  obtain c where c: "newConnection still_env still_cid NewConnectionConfig None ?ch = Some c"
    using conn_lists.newConnection_ok [OF default_conn_config_ok] by blast
  have E: "e_pending still_env = list_BTree pendingItem_Less" "e_lost still_env = list_BTree (<)"
    by (simp_all add: still_env_def)
  obtain c' where c': "loop_start (later 1 still_env) c = Some c'" "stateType (c_state c') = ConnConnecting"
    using conn_lists.start_ok [OF default_conn_config_ok _ c] E by auto
  have s: "still_start = c'" unfolding still_start_def c using c'(1) by simp
  show "conn_run (list_BTree pendingItem_Less) (list_BTree (<)) still_chans still_start"
    unfolding s still_chans_def by (rule run_start [OF default_conn_config_ok E c c'(1)])
  show "stateType (c_state still_start) = ConnConnecting" using c'(2) s by simp
qed

theorem conn_run_ok_witness:
  "loop_turn still_env still_env CaseIncoming
     (still_chans\<lparr>st_streamEvents := [\<lparr>ev_Type = streamIncoming, ev_Packet = Some (synPacket still_env still_start 3)\<rparr>]\<rparr>)
     still_start \<noteq> None"
proof -
  let ?ev = "\<lparr>ev_Type = streamIncoming, ev_Packet = Some (synPacket still_env still_start 3)\<rparr>"
  let ?st = "still_chans\<lparr>st_streamEvents := [?ev]\<rparr>"
  have r: "conn_run (list_BTree pendingItem_Less) (list_BTree (<)) ?st still_start"
    using run_event [OF still_run, of ?ev] by (simp add: still_chans_def)
  have E: "e_pending still_env = list_BTree pendingItem_Less" "e_lost still_env = list_BTree (<)"
    by (simp_all add: still_env_def)
  have "turn_fits still_env still_env CaseIncoming ?st still_start"
    using still_connecting
    by (auto simp: turn_fits_def calm_def run_case_def handleIncoming_def bind_eq_Some_conv still_chans_def)
  then show ?thesis using conn_run_ok [OF conn_lists.conn_trees_axioms r] E by simp
qed

text \<open>
  C8. A connection only moves forward. Over a turn of the loop, whatever the state it starts from, its
  state goes from connecting to connected to closed and never back; the two FIN numbers, once known,
  stay; what was handed to the socket, the reader and the writers stays handed over, in order; and
  the loop goes on exactly as long as the connection is not closed and the context not done.
\<close>

theorem loop_turn_forward:
  assumes "loop_turn E E' k st c = Some (st', c', ex)"
  shows "state_rank (stateType (c_state c)) \<le> state_rank (stateType (c_state c'))
     \<and> fin_kept LocalFin c c' \<and> fin_kept RemoteFin c c'
     \<and> c_cid c' = c_cid c \<and> c_config c' = c_config c
     \<and> prefix (c_socketEvents c) (c_socketEvents c') \<and> prefix (c_reads c) (c_reads c')
     \<and> prefix (c_results c) (c_results c')
     \<and> (ex = Continue \<longleftrightarrow> k \<noteq> CaseDone \<and> stateType (c_state c') \<noteq> ConnClosed)"
  using loop_turn_moves [OF assms] loop_turn_exit [OF assms] by (simp add: moves_def)

theorem loop_turn_forward_witness:
  "\<exists>c' ex. loop_turn still_env still_env CaseIdle still_chans still_start = Some (still_chans, c', ex)
     \<and> stateType (c_state c') = ConnClosed \<and> ex = ReturnErr (Some ErrTimedOut)
     \<and> prefix (c_socketEvents still_start) (c_socketEvents c')"
proof -
  have "\<not> tw_stopped (c_unacked still_start)"
    using conn_lists.run_inv [OF still_run] by (simp add: conn_inv_def)
  then obtain c' where c': "loop_turn still_env still_env CaseIdle still_chans still_start
      = Some (still_chans, c', ReturnErr (Some ErrTimedOut))"
    using still_connecting by (simp add: loop_turn_def run_case_def handleIdleTimeout_def after_select_def
      still_chans_def eof_closed processWrites_def stop_wheel_def tw_stop_def)
  from loop_turn_forward [OF this] c' show ?thesis by auto
qed

end
