(* ===== verification/Connection_Silence.thy ===== *)
theory Connection_Silence
  imports Connection_Props
begin

text \<open>
  An initiator that hears nothing. A round is a tick of the wheel, and a turn of the event loop
  if a timer has expired. The lemmas follow the single SYN through the wheel: it waits, it expires,
  it is sent again and put back, until the attempts are used up.
\<close>

definition quiet_chans :: streamChans where
  "quiet_chans = \<lparr>st_streamEvents = [], st_writes = [], st_shutdown = False\<rparr>"

text \<open>\<open>E i\<close> is the environment of the turn with \<open>i\<close> rounds to go.\<close>

fun silence ::
  "((u16 \<times> packet) list \<Rightarrow> (u16 \<times> packet) list) \<Rightarrow> (nat \<Rightarrow> ('t, 'l) conn_env) \<Rightarrow> nat
     \<Rightarrow> ('t, 'l, 'p) connection \<Rightarrow> (('t, 'l, 'p) connection \<times> loop_exit) go" where
  "silence ord E 0 c = Some (c, Continue)"
| "silence ord E (Suc n) c = do {
     c \<leftarrow> conn_tick ord c;
     (if c_unackTimeoutCh c = [] then silence ord E n c
      else do {
        (st, c, ex) \<leftarrow> loop_turn (E n) (E n) CaseTimeout quiet_chans c;
        (if ex = Continue then silence ord E n c else Some (c, ex))
      })
   }"

definition syn_event :: "('t, 'l, 'p) connection \<Rightarrow> 'p socketEvent \<Rightarrow> bool" where
  "syn_event c ev \<longleftrightarrow> (\<exists>p. ev = newOutgoingSocketEvent p (CidPeer (c_cid c)) \<and> is_syn p
     \<and> h_SeqNum (Header p) = ep_SynNum (c_endpoint c))"

text \<open>The SYN waits for \<open>r\<close> more ticks, and has been sent as often as the attempts say.\<close>

definition syn_waits :: "('t, 'l, 'p) connection \<Rightarrow> nat \<Rightarrow> bool" where
  "syn_waits c r \<longleftrightarrow> stateType (c_state c) = ConnConnecting \<and> ep_Type (c_endpoint c) = Initiator
     \<and> connectedCh (c_state c) = Some \<lparr>ch_sent = [], ch_closed = False\<rparr> \<and> conn_config_ok (c_config c)
     \<and> tw_wf (c_unacked c) \<and> \<not> tw_stopped (c_unacked c) \<and> tw_slotNum (c_unacked c) = 8
     \<and> c_unackTimeoutCh c = [] \<and> r < 8
     \<and> (\<exists>p. is_syn p \<and> tw_left (c_unacked c)
           = (\<lambda>k r'. if k = ep_SynNum (c_endpoint c) \<and> r' = r then Some p else None))
     \<and> 1 \<le> ep_Attempts (c_endpoint c) \<and> ep_Attempts (c_endpoint c) \<le> cc_MaxConnAttempts (c_config c)
     \<and> (\<forall>ev \<in> set (c_socketEvents c). syn_event c ev)
     \<and> int (length (c_socketEvents c)) = ep_Attempts (c_endpoint c)"

text \<open>The end: closed with the error, after every attempt.\<close>

definition gave_up :: "('t, 'l, 'p) connection \<Rightarrow> ('t, 'l, 'p) connection \<Rightarrow> bool" where
  "gave_up c c' \<longleftrightarrow> stateType (c_state c') = ConnClosed \<and> st_Err (c_state c') = Some ErrTimedOut
     \<and> connectedCh (c_state c') = Some \<lparr>ch_sent = [Some ErrTimedOut], ch_closed = False\<rparr>
     \<and> tw_stopped (c_unacked c')
     \<and> (\<exists>syns. c_socketEvents c' = syns @ [newShutdownSocketEvent (CidPeer (c_cid c))]
          \<and> int (length syns) = cc_MaxConnAttempts (c_config c) \<and> (\<forall>ev \<in> set syns. syn_event c ev))"

lemma distinct_singleton: "\<lbrakk> set xs = {x}; distinct xs \<rbrakk> \<Longrightarrow> xs = [x]"
  by (cases xs; cases "tl xs") auto

lemma tick_waits:
  assumes ord: "permutes_entries ord" and c: "syn_waits c (Suc r)"
  shows "\<exists>c'. conn_tick ord c = Some c' \<and> syn_waits c' r \<and> c_config c' = c_config c
     \<and> c_cid c' = c_cid c \<and> c_endpoint c' = c_endpoint c"
proof -
  obtain p where p: "tw_left (c_unacked c) = (\<lambda>k r'. if k = ep_SynNum (c_endpoint c) \<and> r' = Suc r then Some p else None)"
    "is_syn p" "tw_wf (c_unacked c)" using c by (auto simp: syn_waits_def)
  obtain w out where w: "tw_tick ord (c_unacked c) = Some (w, out)" "tw_wf w"
    "tw_slotNum w = tw_slotNum (c_unacked c)" "tw_left w = (\<lambda>k r. tw_left (c_unacked c) k (Suc r))"
    "set out = {(k, p). tw_left (c_unacked c) k 0 = Some p}"
    using countdown.tick_left [OF wheel_countdown [OF ord] p(3)] by blast
  have "out = []" using w(5) p(1) by simp
  moreover have "tw_stopped w = tw_stopped (c_unacked c)" using wheel_tick [OF ord p(3)] w(1) by auto
  moreover have "tw_left w = (\<lambda>k r'. if k = ep_SynNum (c_endpoint c) \<and> r' = r then Some p else None)"
    using w(4) p(1) by (auto simp: fun_eq_iff)
  ultimately show ?thesis using c p(2) w(1-3) by (auto simp: conn_tick_def syn_waits_def syn_event_def)
qed

lemma tick_expires:
  assumes ord: "permutes_entries ord" and c: "syn_waits c 0"
  shows "\<exists>w p. conn_tick ord c = Some (c\<lparr>c_unacked := w, c_unackTimeoutCh := [p]\<rparr>) \<and> is_syn p \<and> tw_wf w
     \<and> tw_slotNum w = 8 \<and> \<not> tw_stopped w \<and> tw_left w = (\<lambda>k r. None)"
proof -
  obtain p where p: "tw_left (c_unacked c) = (\<lambda>k r'. if k = ep_SynNum (c_endpoint c) \<and> r' = 0 then Some p else None)"
    "is_syn p" "tw_wf (c_unacked c)" "tw_slotNum (c_unacked c) = 8" "\<not> tw_stopped (c_unacked c)"
    "c_unackTimeoutCh c = []" using c by (auto simp: syn_waits_def)
  obtain w out where w: "tw_tick ord (c_unacked c) = Some (w, out)" "tw_wf w"
    "tw_slotNum w = tw_slotNum (c_unacked c)" "tw_left w = (\<lambda>k r. tw_left (c_unacked c) k (Suc r))"
    "distinct (map fst out)" "set out = {(k, p). tw_left (c_unacked c) k 0 = Some p}"
    using countdown.tick_left [OF wheel_countdown [OF ord] p(3)] by blast
  have "set out = {(ep_SynNum (c_endpoint c), p)}" using w(6) p(1) by (auto split: if_splits)
  moreover have "distinct out" using w(5) by (simp add: distinct_map)
  ultimately have "out = [(ep_SynNum (c_endpoint c), p)]" by (rule distinct_singleton)
  moreover have "tw_stopped w = tw_stopped (c_unacked c)" using wheel_tick [OF ord p(3)] w(1) by auto
  moreover have "tw_left w = (\<lambda>k r. None)" using w(4) p(1) by (simp add: fun_eq_iff)
  ultimately show ?thesis using p w(1-3) by (auto simp: conn_tick_def)
qed

lemma timeout_again:
  assumes c: "syn_waits c 0" and w: "tw_wf w" "tw_slotNum w = 8" "\<not> tw_stopped w" "tw_left w = (\<lambda>k r. None)"
    and p: "is_syn p" and more: "ep_Attempts (c_endpoint c) < cc_MaxConnAttempts (c_config c)"
  shows "\<exists>c' r. loop_turn E E CaseTimeout quiet_chans (c\<lparr>c_unacked := w, c_unackTimeoutCh := [p]\<rparr>)
       = Some (quiet_chans, c', Continue) \<and> syn_waits c' r \<and> c_config c' = c_config c \<and> c_cid c' = c_cid c
     \<and> ep_SynNum (c_endpoint c') = ep_SynNum (c_endpoint c)
     \<and> ep_Attempts (c_endpoint c') = ep_Attempts (c_endpoint c) + 1"
proof -
  let ?a = "ep_Attempts (c_endpoint c) + 1" and ?n = "ep_SynNum (c_endpoint c)"
  let ?d = "cc_InitialTimeout (c_config c) * backoff_factor ?a"
  have d: "0 \<le> wrap64 ?d" using c more by (intro backoff_delay) (auto simp: syn_waits_def)
  obtain w' where w': "tw_put w ?n p (wrap64 ?d) = Some w'" "tw_wf w'" "tw_slotNum w' = 8"
    "tw_left w' = (\<lambda>k r'. if k = ?n \<and> r' = tw_wait w (wrap64 ?d) then Some p else None)" "tw_wait w (wrap64 ?d) < 8"
    using wheel.put_left [OF w(1) d, of ?n p] wheel.wait_horizon [OF w(1), of "wrap64 ?d"] w(2,4)
    by (auto simp: fun_eq_iff)
  have st: "tw_stopped w' = tw_stopped w" using wheel_put [OF w(1) d, of ?n p] w'(1) by auto
  let ?c1 = "c\<lparr>c_unacked := w, c_unackTimeoutCh := [], c_endpoint := (c_endpoint c)\<lparr>ep_Attempts := ?a\<rparr>\<rparr>"
  let ?c' = "send_event (newOutgoingSocketEvent (synPacket (later 1 E) ?c1 ?n) (CidPeer (c_cid c))) (?c1\<lparr>c_unacked := w'\<rparr>)"
  have run: "loop_turn E E CaseTimeout quiet_chans (c\<lparr>c_unacked := w, c_unackTimeoutCh := [p]\<rparr>)
      = Some (quiet_chans, ?c', Continue)"
    using c more w'(1) by (simp add: loop_turn_def run_case_def onTimeout_def after_select_def quiet_chans_def
      syn_waits_def Let_def)
  have "syn_waits ?c' (tw_wait w (wrap64 ?d))"
    using c more p w'(2-5) w(3) st by (auto simp: syn_waits_def syn_event_def is_syn_synPacket seq_synPacket)
  with run show ?thesis by (intro exI [of _ ?c'] exI [of _ "tw_wait w (wrap64 ?d)"]) simp
qed

lemma timeout_last:
  assumes c: "syn_waits c 0" and w: "\<not> tw_stopped w"
    and last: "\<not> ep_Attempts (c_endpoint c) < cc_MaxConnAttempts (c_config c)"
  shows "\<exists>c'. loop_turn E E CaseTimeout quiet_chans (c\<lparr>c_unacked := w, c_unackTimeoutCh := [p]\<rparr>)
       = Some (quiet_chans, c', ReturnErr (Some ErrTimedOut)) \<and> gave_up c c'"
  using assms
  by (auto simp: loop_turn_def run_case_def onTimeout_def after_select_def quiet_chans_def syn_waits_def
      ch_send_def eof_closed processWrites_def stop_wheel_def tw_stop_def gave_up_def syn_event_def)

lemma gave_up_same:
  "\<lbrakk> gave_up c1 c'; c_config c1 = c_config c; c_cid c1 = c_cid c;
     ep_SynNum (c_endpoint c1) = ep_SynNum (c_endpoint c) \<rbrakk> \<Longrightarrow> gave_up c c'"
  by (simp add: gave_up_def syn_event_def)

text \<open>The rounds that are enough: eight for every attempt that is left.\<close>

lemma silence_ends:
  assumes ord: "permutes_entries ord" and c: "syn_waits c r"
    and n: "8 * nat (cc_MaxConnAttempts (c_config c) - ep_Attempts (c_endpoint c)) + r < n"
  shows "\<exists>c'. silence ord E n c = Some (c', ReturnErr (Some ErrTimedOut)) \<and> gave_up c c'"
  using c n
proof (induction n arbitrary: c r)
  case (Suc n)
  show ?case
  proof (cases r)
    case (Suc r')
    obtain c1 where c1: "conn_tick ord c = Some c1" "syn_waits c1 r'" "c_config c1 = c_config c" "c_cid c1 = c_cid c"
      "c_endpoint c1 = c_endpoint c" using tick_waits [OF ord] Suc.prems(1) Suc by blast
    then obtain c' where "silence ord E n c1 = Some (c', ReturnErr (Some ErrTimedOut))" "gave_up c1 c'"
      using Suc.IH [OF c1(2)] Suc.prems(2) Suc by auto
    moreover have "c_unackTimeoutCh c1 = []" using c1(2) by (simp add: syn_waits_def)
    ultimately show ?thesis using c1 gave_up_same [of c1 c' c] by simp
  next
    case 0
    obtain w p where w: "conn_tick ord c = Some (c\<lparr>c_unacked := w, c_unackTimeoutCh := [p]\<rparr>)" "is_syn p" "tw_wf w"
      "tw_slotNum w = 8" "\<not> tw_stopped w" "tw_left w = (\<lambda>k r. None)"
      using tick_expires [OF ord] Suc.prems(1) 0 by blast
    show ?thesis
    proof (cases "ep_Attempts (c_endpoint c) < cc_MaxConnAttempts (c_config c)")
      case True
      obtain c1 r1 where c1: "loop_turn (E n) (E n) CaseTimeout quiet_chans (c\<lparr>c_unacked := w, c_unackTimeoutCh := [p]\<rparr>)
          = Some (quiet_chans, c1, Continue)" "syn_waits c1 r1" "c_config c1 = c_config c" "c_cid c1 = c_cid c"
        "ep_SynNum (c_endpoint c1) = ep_SynNum (c_endpoint c)"
        "ep_Attempts (c_endpoint c1) = ep_Attempts (c_endpoint c) + 1"
        using timeout_again [OF _ w(3-6,2) True] Suc.prems(1) 0 by blast
      have "r1 < 8" using c1(2) by (simp add: syn_waits_def)
      then have "8 * nat (cc_MaxConnAttempts (c_config c1) - ep_Attempts (c_endpoint c1)) + r1 < n"
        using Suc.prems(2) 0 True c1(3,6) by simp
      from Suc.IH [OF c1(2) this] show ?thesis using w(1) c1 gave_up_same [of c1 _ c] by auto
    next
      case False
      then show ?thesis using timeout_last [OF _ w(5), of c "E n" p] Suc.prems(1) 0 w(1) by auto
    qed
  qed
qed simp

lemma start_waits:
  fixes E :: "('t, 'l) conn_env" and cid :: "'p ConnectionId"
  assumes cfg: "conn_config_ok config" and max: "1 \<le> cc_MaxConnAttempts config"
  shows "\<exists>c0 c r. newConnection E cid config None (Some \<lparr>ch_sent = [], ch_closed = False\<rparr>) = Some c0
     \<and> loop_start (later 1 E) c0 = Some c \<and> syn_waits c r \<and> c_config c = config \<and> c_cid c = cid
     \<and> ep_Attempts (c_endpoint c) = 1"
proof -
  let ?i = "go_quot (cc_InitialTimeout config) 4" and ?n = "e_rand E"
  have i: "0 < ?i" "0 \<le> cc_InitialTimeout config" using config_bounds(1) [OF cfg] by (simp_all add: go_quot_def)
  let ?w = "\<lparr>tw_interval = ?i, tw_slots = replicate 8 [], tw_current = 0, tw_slotNum = 8,
      tw_maxDelay = 8 * ?i, tw_stopped = False\<rparr> :: (u16, packet) timeWheel"
  have w: "newTimeWheel ?i 8 = Some ?w" "tw_wf ?w" "tw_left ?w = (\<lambda>k r. None)"
    using i(1) by (auto simp: newTimeWheel_def tw_wf_def tw_left_def fun_eq_iff)
  define c0 :: "('t, 'l, 'p) connection" where "c0 = \<lparr>c_state = NewConnState (Some \<lparr>ch_sent = [], ch_closed = False\<rparr>), c_cid = cid, c_config = config,
      c_endpoint = \<lparr>ep_Type = Initiator, ep_SynNum = ?n, ep_SynAck = 0, ep_Attempts = 0\<rparr>, c_peerTsDiff = 0,
      c_peerRecvWindow = 4294967295, c_socketEvents = [], c_unacked = ?w, c_unackTimeoutCh = [], c_reads = [],
      c_readable = 0, c_pendingWrites = [], c_writable = 0, c_results = [], c_latestTimeout = None, c_synState = None\<rparr>"
  have f: "c_state c0 = NewConnState (Some \<lparr>ch_sent = [], ch_closed = False\<rparr>)" "c_cid c0 = cid" "c_config c0 = config"
    "c_endpoint c0 = \<lparr>ep_Type = Initiator, ep_SynNum = ?n, ep_SynAck = 0, ep_Attempts = 0\<rparr>" "c_socketEvents c0 = []"
    "c_unacked c0 = ?w" "c_unackTimeoutCh c0 = []" by (simp_all add: c0_def)
  let ?p = "synPacket (later 1 E) c0 ?n"
  have new: "newConnection E cid config None (Some \<lparr>ch_sent = [], ch_closed = False\<rparr>) = Some c0"
    by (simp add: newConnection_def w(1) c0_def)
  obtain w' where w': "tw_put ?w ?n ?p (cc_InitialTimeout config) = Some w'" "tw_wf w'" "tw_slotNum w' = 8"
    "tw_left w' = (\<lambda>k r'. if k = ?n \<and> r' = tw_wait ?w (cc_InitialTimeout config) then Some ?p else None)"
    "tw_wait ?w (cc_InitialTimeout config) < 8"
    using wheel.put_left [OF w(2) i(2), of ?n ?p] wheel.wait_horizon [OF w(2), of "cc_InitialTimeout config"] w(3)
    by (auto simp: fun_eq_iff)
  have st: "\<not> tw_stopped w'" using wheel_put [OF w(2) i(2), of ?n ?p] w'(1) by auto
  let ?c = "(send_event (newOutgoingSocketEvent ?p (CidPeer cid)) c0)\<lparr>c_unacked := w',
      c_endpoint := (c_endpoint c0)\<lparr>ep_Attempts := 1\<rparr>\<rparr>"
  have "loop_start (later 1 E) c0 = Some ?c" using w'(1) by (simp add: loop_start_def Let_def f)
  moreover have "\<exists>p. is_syn p \<and> tw_left w' = (\<lambda>k r'. if k = ?n \<and> r' = tw_wait ?w (cc_InitialTimeout config)
      then Some p else None)" using w'(4) is_syn_synPacket [of "later 1 E" c0 ?n] by blast
  then have "syn_waits ?c (tw_wait ?w (cc_InitialTimeout config))"
    using cfg max w'(2,3,5) st
    by (auto simp: syn_waits_def syn_event_def is_syn_synPacket seq_synPacket f NewConnState_def)
  ultimately show ?thesis using new
    by (intro exI [of _ c0] exI [of _ ?c] exI [of _ "tw_wait ?w (cc_InitialTimeout config)"]) (simp add: f)
qed



end
