(* ===== verification/Connection_Streams.thy ===== *)
theory Connection_Streams
  imports Connection_Props
begin

text \<open>
  What a connected end hands to its reader and takes from its writers: \<open>processReads\<close> against a
  reference that cuts the ready bytes into segments, and \<open>processWrites\<close> as a first-in first-out
  queue of bytes.
\<close>

lemma conn_live_parts:
  assumes "conn_live BP P BL L c rb sb sp"
  shows "RecvBuf (c_state c) = Some rb" "SendBuf (c_state c) = Some sb" "SentPackets (c_state c) = Some sp"
  using assms by (simp_all add: conn_live_def)

section \<open>Reads\<close>

text \<open>The reference: a list cut into pieces of length \<open>n\<close>, the last one shorter.\<close>

function segments :: "nat \<Rightarrow> 'a list \<Rightarrow> 'a list list" where
  "segments n xs = (if n = 0 \<or> xs = [] then [] else take n xs # segments n (drop n xs))"
  by pat_completeness auto
termination
  by (relation "measure (\<lambda>(n, xs). length xs)") auto

declare segments.simps [simp del]

definition ready_bytes :: "'t receiveBuffer \<Rightarrow> bytes" where
  "ready_bytes rb = take (nat (rb_offset rb)) (rb_buf rb)"

text \<open>A read result: the bytes, in a buffer of \<open>n\<close> bytes that is zero behind them.\<close>

definition read_result :: "nat \<Rightarrow> bytes \<Rightarrow> readOrWriteResult" where
  "read_result n data = \<lparr>res_Err = None, res_Len = int (length data),
     res_Data = data @ replicate (n - length data) 0\<rparr>"

definition eof_result :: readOrWriteResult where
  "eof_result = \<lparr>res_Err = Some EOF, res_Len = 0, res_Data = []\<rparr>"

lemma ready_after_read:
  assumes "rb_Read rb (int m) = Some (rb', out)" and "0 < m" and "0 \<le> rb_offset rb"
    and "rb_offset rb \<le> int (length (rb_buf rb))"
  shows "ready_bytes rb' = drop m (ready_bytes rb)"
proof -
  let ?n = "min m (nat (rb_offset rb))"
  have n: "minInt (int m) (rb_offset rb) = int ?n" using assms(3) by (auto simp: min_def le_nat_iff)
  have "rb_buf rb' = take (nat (rb_offset rb) - ?n) (drop ?n (rb_buf rb))
      @ drop (nat (rb_offset rb) - ?n) (rb_buf rb)" "rb_offset rb' = rb_offset rb - int ?n"
    using assms unfolding rb_Read_def n by (auto simp: go_slice_def bind_eq_Some_conv Let_def nat_diff_distrib
      split: if_splits)
  moreover have "length (take (nat (rb_offset rb) - ?n) (drop ?n (rb_buf rb))) = nat (rb_offset rb) - ?n"
    using assms(3,4) by simp
  moreover have "nat (rb_offset rb - int ?n) = nat (rb_offset rb) - ?n" using assms(3) by (simp add: nat_diff_distrib')
  ultimately have "ready_bytes rb' = take (nat (rb_offset rb) - ?n) (drop ?n (rb_buf rb))"
    by (simp add: ready_bytes_def)
  then show ?thesis by (simp add: ready_bytes_def drop_take min_def)
qed

context recv_tree
begin

lemma read_chunks_segments:
  assumes "rb_inv B invar rb" and "0 < m"
  shows "\<exists>rb'. read_chunks B m rb rs = Some (rb', rs @ map (read_result m) (segments m (ready_bytes rb)))
     \<and> ready_bytes rb' = []"
  using assms(1)
proof (induction "nat (rb_offset rb)" arbitrary: rb rs rule: less_induct)
  case less
  obtain rb1 where r: "rb_Read rb (int m) = Some (rb1, take m (ready_bytes rb))" "rb_inv B invar rb1"
    using Read_ok [OF less.prems, of "int m"] by (auto simp: ready_bytes_def)
  have off: "0 \<le> rb_offset rb" "rb_offset rb \<le> int (length (rb_buf rb))" using wf_offset [OF less.prems] by auto
  note rest = ready_after_read [OF r(1) assms(2) off]
  show ?case
  proof (cases "ready_bytes rb = []")
    case True
    then show ?thesis using r(1) rest
      by (subst read_chunks.simps) (auto simp: segments.simps)
  next
    case False
    then have "rb_offset rb \<noteq> 0" by (auto simp: ready_bytes_def)
    then have ne: "\<not> rb_IsEmpty B rb" by (simp add: rb_IsEmpty_def)
    have out: "take m (ready_bytes rb) \<noteq> []" using False assms(2) by simp
    have "nat (rb_offset rb1) < nat (rb_offset rb)" using rb_Read_offset [OF r(1) out] out by auto
    from less.hyps [OF this r(2), of "rs @ [read_result m (take m (ready_bytes rb))]"]
    obtain rb' where "read_chunks B m rb1 (rs @ [read_result m (take m (ready_bytes rb))]) = Some (rb',
        (rs @ [read_result m (take m (ready_bytes rb))]) @ map (read_result m) (segments m (drop m (ready_bytes rb))))"
      "ready_bytes rb' = []" unfolding rest by blast
    moreover have "segments m (ready_bytes rb) = take m (ready_bytes rb) # segments m (drop m (ready_bytes rb))"
      using False assms(2) by (subst segments.simps) simp
    ultimately show ?thesis using ne out r(1)
      by (subst read_chunks.simps) (auto simp: read_result_def)
  qed
qed

end

text \<open>The remote FIN has been reached.\<close>

definition at_eof :: "('t, 'l, 'p) connection \<Rightarrow> 't receiveBuffer \<Rightarrow> bool" where
  "at_eof c rb \<longleftrightarrow> (\<exists>cl. closing (c_state c) = Some cl \<and> RemoteFin cl = Some (rb_AckNum rb))"

context recv_tree
begin

lemma processReads_hands_over:
  assumes "rb_inv B invar rb" and "stateType (c_state c) = ConnConnected" and "RecvBuf (c_state c) = Some rb"
    and "e_pending E = B" and "cc_MaxPacketSize (c_config c) \<noteq> 0" and "m = unat (cc_MaxPacketSize (c_config c))"
  shows "\<exists>rb'. processReads E c = Some (set_state (RecvBuf_update (\<lambda>_. Some rb')) (c\<lparr>c_reads := c_reads c
        @ map (read_result m) (segments m (ready_bytes rb)) @ (if at_eof c rb then [eof_result] else [])\<rparr>))
     \<and> ready_bytes rb' = []"
proof -
  have m: "0 < m" using assms(5,6) by (simp add: unat_gt_0)
  obtain rb' where r: "read_chunks B m rb (c_reads c)
      = Some (rb', c_reads c @ map (read_result m) (segments m (ready_bytes rb)))" "ready_bytes rb' = []"
    using read_chunks_segments [OF assms(1) m] by blast
  have "rb_AckNum rb' = rb_AckNum rb"
    using read_chunks_ok [OF assms(1), of m "c_reads c"] r(1) by (auto simp: rb_AckNum_def)
  then have "conn_eof (set_state (RecvBuf_update (\<lambda>_. Some rb')) (c\<lparr>c_reads := rs\<rparr>)) = Some (at_eof c rb)" for rs
    using assms(2) by (auto simp: conn_eof_def at_eof_def split: option.splits)
  then show ?thesis using r assms(2-4,6)
    by (intro exI [of _ rb'], cases c) (simp add: processReads_def eof_result_def set_state_def)
qed

end

text \<open>
  C11. \<open>processReads\<close> is the reference. On a connected end whose packet size is not zero, it hands over
  exactly the bytes that are ready, in order, cut into segments of \<open>MaxPacketSize\<close> bytes with the last
  one shorter, and after them the end of file if the remote FIN has been reached; nothing stays ready.
\<close>

theorem processReads_segments:
  assumes "conn_trees BP invarP BL invarL" and "conn_inv BP invarP BL invarL c"
    and "stateType (c_state c) = ConnConnected" and "RecvBuf (c_state c) = Some rb" and "e_pending E = BP"
    and "cc_MaxPacketSize (c_config c) \<noteq> 0"
  shows "\<exists>rb'. processReads E c = Some (set_state (RecvBuf_update (\<lambda>_. Some rb')) (c\<lparr>c_reads := c_reads c
        @ map (read_result (unat (cc_MaxPacketSize (c_config c))))
            (segments (unat (cc_MaxPacketSize (c_config c))) (ready_bytes rb))
        @ (if at_eof c rb then [eof_result] else [])\<rparr>)) \<and> ready_bytes rb' = []"
  using recv_tree.processReads_hands_over [OF conn_trees.axioms(1) [OF assms(1)] _ assms(3-6) refl] assms(2-4)
  by (auto simp: conn_inv_def conn_live_def)

section \<open>Writes\<close>

text \<open>
  C10. \<open>processWrites\<close> is a queue. On a connected end it takes bytes from the front of what is buffered,
  sends them in data packets with the next sequence numbers, within the window of the controller
  and of the peer, remembers their payloads for retransmission, and refills the buffer from the
  pending writes, oldest first. No byte is lost, repeated or reordered; a write is answered, with its
  whole length, exactly when its last byte is buffered, in the order of the writes; a write stays
  pending only when the buffer is full.
\<close>

theorem processWrites_queue:
  assumes "conn_trees BP invarP BL invarL" and "conn_inv BP invarP BL invarL c"
    and "stateType (c_state c) = ConnConnected" and "e_pending E = BP" and "e_lost E = BL" and "seq_room E c"
    and "SendBuf (c_state c) = Some sb" and "SentPackets (c_state c) = Some sp"
  shows "\<exists>c' sb' sp' pkts k. processWrites E c now = Some c' \<and> conn_inv BP invarP BL invarL c'
     \<and> SendBuf (c_state c') = Some sb' \<and> SentPackets (c_state c') = Some sp'
     \<and> c_socketEvents c' = c_socketEvents c @ map (\<lambda>p. newOutgoingSocketEvent p (CidPeer (c_cid c))) pkts
     \<and> (\<forall>p \<in> set pkts. h_PacketType (Header p) = st_data)
     \<and> map (\<lambda>p. h_SeqNum (Header p)) pkts
         = map (seq_at sp) [length (sp_packets sp)..<length (sp_packets sp) + length pkts]
     \<and> map sent_data (sp_packets sp') = map sent_data (sp_packets sp) @ map Body pkts
     \<and> length (concat (map Body pkts)) \<le> unat (min (Window (e_ctrl E) sp) (c_peerRecvWindow c))
     \<and> sb_contents sb @ concat (map qw_data (c_pendingWrites c))
         = concat (map Body pkts) @ sb_contents sb' @ concat (map qw_data (c_pendingWrites c'))
     \<and> c_results c' = c_results c @ map answered (take k (c_pendingWrites c))
     \<and> same_writes (drop k (c_pendingWrites c)) (c_pendingWrites c')
     \<and> (c_pendingWrites c' = [] \<or> sb_Available sb' = 0)"
proof -
  obtain rb where l: "conn_live BP invarP BL invarL c rb sb sp"
    using assms(2,3,7,8) by (auto simp: conn_inv_def conn_live_def)
  have room: "length (sp_packets sp) + length (new_payloads E c) \<le> 65533" using assms(6,8) by (simp add: seq_room_def)
  obtain c' where inv: "processWrites E c now = Some c'" "conn_inv BP invarP BL invarL c'"
    using conn_trees.processWrites_ok [OF assms(1,2) conjI [OF assms(4,5)] assms(6)] by blast
  obtain sb' sp' pkts k where r: "conn_live BP invarP BL invarL c' rb sb' sp'"
    "transmitted (set_state (SendBuf_update (\<lambda>_. Some sb')) (c\<lparr>c_pendingWrites := c_pendingWrites c',
        c_results := c_results c @ map answered (take k (c_pendingWrites c)), c_writable := c_writable c'\<rparr>)) pkts c'"
    "same_writes (drop k (c_pendingWrites c)) (c_pendingWrites c')"
    "c_pendingWrites c' = [] \<or> sb_Available sb' = 0" "map Body pkts = new_payloads E c"
    "map sent_data (sp_packets sp') = map sent_data (sp_packets sp) @ new_payloads E c"
    "sb_contents sb @ concat (map qw_data (c_pendingWrites c))
       = concat (new_payloads E c) @ sb_contents sb' @ concat (map qw_data (c_pendingWrites c'))"
    "\<forall>p \<in> set pkts. h_PacketType (Header p) = st_data"
    "map (\<lambda>p. h_SeqNum (Header p)) pkts
       = map (seq_at sp) [length (sp_packets sp)..<length (sp_packets sp) + length (new_payloads E c)]"
    "sum_list (map length (new_payloads E c)) \<le> unat (min (Window (e_ctrl E) sp) (c_peerRecvWindow c))"
    using conn_trees.processWrites_connected [OF assms(1) l conjI [OF assms(4,5)] assms(3) room, of now] inv(1)
    by (elim exE conjE) (rule that; simp)
  note fr = transmitted_frame [OF r(2)]
  have len: "length pkts = length (new_payloads E c)" using arg_cong [OF r(5), of length] by simp
  show ?thesis
    using inv r(3-10) fr len conn_live_parts [OF r(1)]
    by (intro exI [of _ c'] exI [of _ sb'] exI [of _ sp'] exI [of _ pkts] exI [of _ k] conjI)
      (simp_all add: length_concat)
qed

section \<open>Concrete connections\<close>

text \<open>
  A connected end over sorted lists that has sent nothing yet, with packets of 66 bytes: 64 for the
  header and 2 for the payload.
\<close>

definition small_config :: ConnectionConfig where
  "small_config = NewConnectionConfig\<lparr>cc_MaxPacketSize := 66, cc_BufferSize := 8\<rparr>"

definition sample_conn ::
  "pendingItem list receiveBuffer \<Rightarrow> sendBuffer \<Rightarrow> ClosingRecord option \<Rightarrow> queuedWrite list
     \<Rightarrow> (pendingItem list, u16 list, nat) connection" where
  "sample_conn rb sb cl ws = \<lparr>
     c_state = \<lparr>stateType = ConnConnected, connectedCh = None, RecvBuf = Some rb, SendBuf = Some sb,
       SentPackets = Some (newSentPackets (list_BTree (<)) 7 (newDefaultController (fromConnConfig small_config))),
       closing = cl, st_Err = None\<rparr>,
     c_cid = still_cid, c_config = small_config,
     c_endpoint = \<lparr>ep_Type = Initiator, ep_SynNum = 7, ep_SynAck = 0, ep_Attempts = 1\<rparr>,
     c_peerTsDiff = 0, c_peerRecvWindow = 1000, c_socketEvents = [],
     c_unacked = \<lparr>tw_interval = 1000000000, tw_slots = replicate 8 [], tw_current = 0, tw_slotNum = 8,
       tw_maxDelay = 8000000000, tw_stopped = False\<rparr>,
     c_unackTimeoutCh = [], c_reads = [], c_readable = 0, c_pendingWrites = ws, c_writable = 0, c_results = [],
     c_latestTimeout = None, c_synState = None\<rparr>"

lemma sample_fields [simp]:
  "stateType (c_state (sample_conn rb sb cl ws)) = ConnConnected" "RecvBuf (c_state (sample_conn rb sb cl ws)) = Some rb"
  "SendBuf (c_state (sample_conn rb sb cl ws)) = Some sb" "closing (c_state (sample_conn rb sb cl ws)) = cl"
  "SentPackets (c_state (sample_conn rb sb cl ws))
     = Some (newSentPackets (list_BTree (<)) 7 (newDefaultController (fromConnConfig small_config)))"
  "c_config (sample_conn rb sb cl ws) = small_config" "c_pendingWrites (sample_conn rb sb cl ws) = ws"
  "c_reads (sample_conn rb sb cl ws) = []" "cc_MaxPacketSize small_config = 66"
  by (simp_all add: sample_conn_def small_config_def)

lemma still_trees [simp]: "e_pending still_env = list_BTree pendingItem_Less" "e_lost still_env = list_BTree (<)"
  by (simp_all add: still_env_def)

lemma small_config_ok: "conn_config_ok small_config"
  using default_conn_config_ok by (simp add: small_config_def conn_config_ok_def config_ok_def fromConnConfig_def)

lemma sample_inv:
  assumes "rb_inv (list_BTree pendingItem_Less) (sorted_wrt pendingItem_Less) rb" and "sb_inv sb"
  shows "conn_inv (list_BTree pendingItem_Less) (sorted_wrt pendingItem_Less) (list_BTree (<)) (sorted_wrt (<))
    (sample_conn rb sb cl ws)"
  using assms small_config_ok conn_lists.new_sent_ok(1,2) [OF small_config_ok]
  by (intro conn_inv_connected)
    (auto simp: sample_conn_def conn_live_def outstanding_def wheel_packets_def tw_wf_def newSentPackets_def)

lemma length_new_payloads:
  assumes "SendBuf (c_state c) = Some sb" and "sb_inv sb"
  shows "length (new_payloads E c) \<le> length (sb_contents sb)"
proof -
  have *: "[] \<notin> set ps \<Longrightarrow> length ps \<le> length (concat ps)" for ps :: "bytes list"
  proof (induction ps)
    case (Cons d ps)
    then have "1 \<le> length d" "length ps \<le> length (concat ps)" by (auto simp: Suc_le_eq)
    then show ?case by (simp only: list.size concat.simps length_append)
  qed simp
  show ?thesis
  proof (cases "SentPackets (c_state c)")
    case (Some sp)
    obtain sb' ps where "compose_payloads (cc_MaxPacketSize (c_config c))
        (minUint32 (Window (e_ctrl E) sp) (c_peerRecvWindow c)) sb [] = Some (sb', ps)"
      "sb_contents sb = concat ps @ sb_contents sb'" "[] \<notin> set ps"
      using compose_payloads_ok [OF assms(2), of "cc_MaxPacketSize (c_config c)" _ "[]"] by fastforce
    with * [of ps] Some assms(1) show ?thesis by (simp add: new_payloads_def)
  qed (simp add: new_payloads_def)
qed

definition five_ready :: "pendingItem list receiveBuffer" where
  "five_ready = \<lparr>rb_buf = [1, 2, 3, 4, 5, 0, 0, 0], rb_offset = 5, rb_pending = [], rb_initSeqNum = 40, rb_consumed = 3\<rparr>"

lemma five_ready_inv: "rb_inv (list_BTree pendingItem_Less) (sorted_wrt pendingItem_Less) five_ready"
  by (simp add: rb_wf_def list_BTree_def five_ready_def)

theorem processReads_segments_witness:
  "\<exists>c'. processReads still_env (sample_conn five_ready (newSendBuffer 8)
       (Some \<lparr>LocalFin = None, RemoteFin = Some 43\<rparr>) []) = Some c'
     \<and> c_reads c' = [read_result 66 [1, 2, 3, 4, 5], eof_result]"
proof -
  have sb: "sb_inv (newSendBuffer 8)" by (rule newSendBuffer_inv) simp
  let ?c = "sample_conn five_ready (newSendBuffer 8) (Some \<lparr>LocalFin = None, RemoteFin = Some 43\<rparr>) []"
  have eof: "at_eof ?c five_ready" by (simp add: five_ready_def at_eof_def rb_AckNum_def)
  have seg: "segments 66 (ready_bytes five_ready) = [[1, 2, 3, 4, 5]]"
    by (simp add: five_ready_def ready_bytes_def segments.simps [of 66])
  show ?thesis
    using processReads_segments [OF conn_lists.conn_trees_axioms sample_inv [OF five_ready_inv sb] sample_fields(1,2),
        of still_env "Some \<lparr>LocalFin = None, RemoteFin = Some 43\<rparr>" "[]"] eof seg
    by auto
qed

theorem processWrites_queue_witness:
  "\<exists>c' sb' (pkts :: packet list). processWrites still_env (sample_conn (newReceiveBuffer (list_BTree pendingItem_Less) 8 40)
         \<lparr>sb_pending = [[1, 2, 3]], sb_offset = 0, sb_size = 4\<rparr> None
         [\<lparr>qw_data = [4, 5], qw_written = 0, qw_resultCh = 9\<rparr>]) 0 = Some c'
     \<and> SendBuf (c_state c') = Some sb'
     \<and> [1, 2, 3, 4, 5] = concat (map Body pkts) @ sb_contents sb' @ concat (map qw_data (c_pendingWrites c'))"
proof -
  let ?sb = "\<lparr>sb_pending = [[1, 2, 3]], sb_offset = 0, sb_size = 4\<rparr> :: sendBuffer"
  let ?c = "sample_conn (newReceiveBuffer (list_BTree pendingItem_Less) 8 40) ?sb None
    [\<lparr>qw_data = [4, 5], qw_written = 0, qw_resultCh = 9\<rparr>]"
  have sb: "sb_inv ?sb" by (simp add: sb_inv_def sb_contents_def)
  have "length (new_payloads still_env ?c) \<le> 3"
    using length_new_payloads [of ?c ?sb still_env] sb by (simp add: sb_contents_def)
  then have room: "seq_room still_env ?c" by (simp add: seq_room_def newSentPackets_def)
  obtain c' sb' and pkts :: "packet list" where "processWrites still_env ?c 0 = Some c'" "SendBuf (c_state c') = Some sb'"
    "sb_contents ?sb @ concat (map qw_data (c_pendingWrites ?c))
       = concat (map Body pkts) @ sb_contents sb' @ concat (map qw_data (c_pendingWrites c'))"
    using processWrites_queue [OF conn_lists.conn_trees_axioms sample_inv [OF pending_list.new_inv(1) sb]
        sample_fields(1) still_trees room sample_fields(3,5), of 0]
    by (elim exE conjE) (rule that)
  moreover have "sb_contents ?sb @ concat (map qw_data (c_pendingWrites ?c)) = [1, 2, 3, 4, 5]"
    by (simp add: sb_contents_def)
  ultimately show ?thesis by (intro exI [of _ c'] exI [of _ sb'] exI [of _ pkts]) simp
qed

end
