(* ===== verification/Stream_History.thy ===== *)
theory Stream_History
  imports Connection_Streams
begin

text \<open>
  The bytes of a stream, followed through a connection. The payloads a connection has sent, what its send
  buffer holds and the writes that still wait are, one after the other, the bytes written so far; and
  every packet it has put on the wire, or will repeat, has the payload that belongs to its number. This
  is kept by every handler, whatever packets arrive, and gives the property of the whole chain from
  the writer at one end to the reader at the other.
\<close>

section \<open>The sent packets\<close>

definition numbered :: "('l, 'c) sentPackets \<Rightarrow> bool" where
  "numbered s \<longleftrightarrow> (\<forall>i < length (sp_packets s). SeqNumIndex s (sent_seqNum (sp_packets s ! i)) = i)"

text \<open>Acknowledgements and losses change neither the numbers nor the payloads.\<close>

definition same_packets :: "('l, 'c) sentPackets \<Rightarrow> ('l, 'c) sentPackets \<Rightarrow> bool" where
  "same_packets s s' \<longleftrightarrow> sp_initSeqNum s' = sp_initSeqNum s
     \<and> map sent_seqNum (sp_packets s') = map sent_seqNum (sp_packets s)
     \<and> map sent_data (sp_packets s') = map sent_data (sp_packets s)"

lemma same_packets_refl [simp]: "same_packets s s"
  by (simp add: same_packets_def)

lemma same_packets_trans: "\<lbrakk> same_packets s s'; same_packets s' s'' \<rbrakk> \<Longrightarrow> same_packets s s''"
  by (simp add: same_packets_def)

lemma same_packets_numbered:
  assumes "same_packets s s'" and "numbered s"
  shows "numbered s'"
proof -
  have m: "map sent_seqNum (sp_packets s') = map sent_seqNum (sp_packets s)" using assms(1) by (simp add: same_packets_def)
  have "SeqNumIndex s' x = SeqNumIndex s x" for x using assms(1) by (simp add: SeqNumIndex_def same_packets_def)
  moreover have len: "length (sp_packets s') = length (sp_packets s)" using m by (rule map_eq_imp_length_eq)
  moreover have "sent_seqNum (sp_packets s' ! i) = sent_seqNum (sp_packets s ! i)" if "i < length (sp_packets s)" for i
    using arg_cong [OF m, of "\<lambda>xs. xs ! i"] that len by simp
  ultimately show ?thesis using assms(2) by (simp add: numbered_def)
qed

lemma sp_Ack_packets: "sp_Ack B C delay now s x = Some (s', e) \<Longrightarrow> same_packets s s'"
  by (auto simp: sp_Ack_def Let_def same_packets_def map_update split: if_splits option.splits prod.splits
      intro!: list_update_same_conv [THEN iffD2])

lemma sack_loop_packets: "sp_sack_loop B C delay now r s x bs = Some (s', e) \<Longrightarrow> same_packets s s'"
proof (induction bs arbitrary: s x)
  case (Cons b bs)
  then show ?case
    by (auto simp: bind_eq_Some_conv split: if_splits option.splits dest!: sp_Ack_packets intro: same_packets_trans)
qed simp

lemma ack_each_packets: "sp_ack_each B C delay now s xs = Some (s', e) \<Longrightarrow> same_packets s s'"
proof (induction xs arbitrary: s)
  case (Cons x xs)
  then show ?case
    by (auto simp: bind_eq_Some_conv split: option.splits dest!: sp_Ack_packets intro: same_packets_trans)
qed simp

lemma OnSelectiveAck_packets: "OnSelectiveAck B C delay now s x sack = Some (s', e) \<Longrightarrow> same_packets s s'"
  by (auto simp: OnSelectiveAck_def bind_eq_Some_conv split: option.splits dest!: sp_Ack_packets sack_loop_packets
      intro: same_packets_trans)

lemma AckPriorUnacked_packets: "AckPriorUnacked B C delay now s x y = Some (s', e) \<Longrightarrow> same_packets s s'"
  by (auto simp: AckPriorUnacked_def Let_def bind_eq_Some_conv split: if_splits dest: ack_each_packets)

lemma mark_lost_packets: "same_packets s (fold (mark_lost B C) xs s)"
proof (induction xs arbitrary: s)
  case (Cons x xs)
  have "same_packets s (mark_lost B C x s)"
    by (auto simp: mark_lost_def OnLost_def Let_def same_packets_def split: prod.splits)
  then show ?case using Cons.IH [of "mark_lost B C x s"] by (auto intro: same_packets_trans)
qed simp

lemma OnAckNum_packets:
  assumes "OnAckNum B C delay now s x sack = Some (s', e)"
  shows "same_packets s s'"
proof -
  obtain s1 e1 where s1: "(case sack of Some k \<Rightarrow> OnSelectiveAck B C delay now s x k
      | None \<Rightarrow> sp_Ack B C delay now s x) = Some (s1, e1)"
    using assms by (auto simp: OnAckNum_def bind_eq_Some_conv)
  then have "same_packets s s1" by (auto split: option.splits dest: sp_Ack_packets OnSelectiveAck_packets)
  moreover have "same_packets s1 s'"
    using assms unfolding OnAckNum_def s1
    by (auto simp: bind_eq_Some_conv split: option.splits sum.splits dest!: AckPriorUnacked_packets
        intro: same_packets_trans mark_lost_packets)
  ultimately show ?thesis by (rule same_packets_trans)
qed

lemma onAck_packets: "onAck B C s x sack delay now = Some (s', r) \<Longrightarrow> same_packets s s'"
  by (auto simp: onAck_def Let_def bind_eq_Some_conv split: if_splits option.splits dest: OnAckNum_packets)

section \<open>The history of a connection\<close>

text \<open>The index of a sequence number, when the first number is \<open>n + 1\<close>; and the packet with the payload of its index.\<close>

definition seq_index :: "u16 \<Rightarrow> u16 \<Rightarrow> nat" where
  "seq_index n x = unat (x - n - 1)"

definition carried :: "u16 \<Rightarrow> bytes list \<Rightarrow> packet \<Rightarrow> bool" where
  "carried n ds p \<longleftrightarrow> seq_index n (h_SeqNum (Header p)) < length ds \<and> Body p = ds ! seq_index n (h_SeqNum (Header p))"

text \<open>What has been put on the wire, and the packets that take a place in the stream.\<close>

definition wire :: "('t, 'l, 'p) connection \<Rightarrow> packet set" where
  "wire c = {p. \<exists>ev \<in> set (c_socketEvents c). se_Packet ev = Some p}"

abbreviation in_stream :: "packet \<Rightarrow> bool" where
  "in_stream p \<equiv> h_PacketType (Header p) \<in> {st_data, st_fin}"

definition kept :: "u16 \<Rightarrow> bytes list \<Rightarrow> ('t, 'l, 'p) connection \<Rightarrow> bool" where
  "kept n ds c \<longleftrightarrow> (\<forall>p \<in> wire c. in_stream p \<longrightarrow> carried n ds p) \<and> (\<forall>p \<in> outstanding c. is_syn p \<or> carried n ds p)"

definition hist :: "u16 \<Rightarrow> bytes list \<Rightarrow> ('t, 'l, 'p) connection \<Rightarrow> bool" where
  "hist n ds c \<longleftrightarrow> (\<exists>sp. SentPackets (c_state c) = Some sp \<and> sp_initSeqNum sp = n
     \<and> map sent_data (sp_packets sp) = ds \<and> numbered sp) \<and> kept n ds c"

definition first_seq :: "('t, 'l, 'p) connection \<Rightarrow> u16" where
  "first_seq c = (if ep_Type (c_endpoint c) = Initiator then ep_SynNum (c_endpoint c) else ep_SynAck (c_endpoint c) - 1)"

definition flow :: "u16 \<Rightarrow> bytes \<Rightarrow> ('t, 'l, 'p) connection \<Rightarrow> bool" where
  "flow n W c \<longleftrightarrow> first_seq c = n
     \<and> (case stateType (c_state c) of
          ConnConnecting \<Rightarrow> W = concat (map qw_data (c_pendingWrites c)) \<and> kept n [] c
        | ConnConnected \<Rightarrow> (\<exists>ds sb. hist n ds c \<and> SendBuf (c_state c) = Some sb \<and> sb_inv sb
            \<and> W = concat ds @ sb_contents sb @ concat (map qw_data (c_pendingWrites c)))
        | ConnClosed \<Rightarrow> True)"

lemma flowE:
  assumes "flow n W c" and "stateType (c_state c) = ConnConnected"
  obtains ds sb sp where "hist n ds c" "SendBuf (c_state c) = Some sb" "sb_inv sb"
    "W = concat ds @ sb_contents sb @ concat (map qw_data (c_pendingWrites c))"
    "SentPackets (c_state c) = Some sp" "sp_initSeqNum sp = n" "map sent_data (sp_packets sp) = ds" "numbered sp"
    "kept n ds c" "first_seq c = n"
  using assms by (auto simp: flow_def hist_def)

lemma flowI:
  assumes "hist n ds c" and "SendBuf (c_state c) = Some sb" and "sb_inv sb" and "first_seq c = n"
    and "W = concat ds @ sb_contents sb @ concat (map qw_data (c_pendingWrites c))"
  shows "flow n W c \<or> stateType (c_state c) = ConnConnecting"
  using assms by (auto simp: flow_def split: ConnStateType.splits)

lemma flow_closed: "\<lbrakk> stateType (c_state c) = ConnClosed; first_seq c = n \<rbrakk> \<Longrightarrow> flow n W c"
  by (simp add: flow_def)

lemma kept_mono:
  assumes "kept n ds c" and "wire c' \<subseteq> wire c \<union> {p. \<not> in_stream p \<or> carried n (ds @ es) p}"
    and "outstanding c' \<subseteq> outstanding c \<union> {p. is_syn p \<or> carried n (ds @ es) p}"
  shows "kept n (ds @ es) c'"
proof -
  have "carried n ds p \<Longrightarrow> carried n (ds @ es) p" for p by (auto simp: carried_def nth_append)
  then show ?thesis using assms unfolding kept_def by blast
qed

text \<open>What does not touch the sending side keeps the flow.\<close>

lemma flow_frame:
  assumes "flow n W c" and "first_seq c' = first_seq c"
    and "stateType (c_state c') = stateType (c_state c) \<or> stateType (c_state c') = ConnClosed"
    and "SentPackets (c_state c') = SentPackets (c_state c)" and "SendBuf (c_state c') = SendBuf (c_state c)"
    and "c_pendingWrites c' = c_pendingWrites c" and "wire c' \<subseteq> wire c \<union> {p. \<not> in_stream p}"
    and "outstanding c' \<subseteq> outstanding c \<union> {p. is_syn p}"
  shows "flow n W c'"
proof -
  have "kept n ds c'" if "kept n ds c" for ds
    using kept_mono [OF that, of c' "[]"] assms(7,8) by auto
  then show ?thesis using assms(1-6) by (auto simp: flow_def hist_def split: ConnStateType.splits)
qed

lemma wire_simps [simp]:
  "wire (c\<lparr>c_unacked := w\<rparr>) = wire c" "wire (c\<lparr>c_reads := rs\<rparr>) = wire c" "wire (set_state f c) = wire c"
  "wire (c\<lparr>c_pendingWrites := ws\<rparr>) = wire c" "wire (c\<lparr>c_results := xs\<rparr>) = wire c" "wire (c\<lparr>c_writable := k\<rparr>) = wire c"
  "wire (c\<lparr>c_readable := k\<rparr>) = wire c" "wire (c\<lparr>c_unackTimeoutCh := ps\<rparr>) = wire c"
  "wire (c\<lparr>c_latestTimeout := t\<rparr>) = wire c" "wire (c\<lparr>c_synState := y\<rparr>) = wire c" "wire (c\<lparr>c_endpoint := e\<rparr>) = wire c"
  "wire (c\<lparr>c_peerTsDiff := d\<rparr>) = wire c" "wire (c\<lparr>c_peerRecvWindow := v\<rparr>) = wire c"
  "wire (send_event ev c) = wire c \<union> set_option (se_Packet ev)"
  by (auto simp: wire_def)

lemma outstanding_simps [simp]:
  "outstanding (c\<lparr>c_reads := rs\<rparr>) = outstanding c" "outstanding (set_state f c) = outstanding c"
  "outstanding (c\<lparr>c_pendingWrites := ws\<rparr>) = outstanding c" "outstanding (c\<lparr>c_results := xs\<rparr>) = outstanding c"
  "outstanding (c\<lparr>c_writable := k\<rparr>) = outstanding c" "outstanding (c\<lparr>c_readable := k\<rparr>) = outstanding c"
  "outstanding (c\<lparr>c_latestTimeout := t\<rparr>) = outstanding c" "outstanding (c\<lparr>c_synState := y\<rparr>) = outstanding c"
  "outstanding (c\<lparr>c_endpoint := e\<rparr>) = outstanding c" "outstanding (c\<lparr>c_peerTsDiff := d\<rparr>) = outstanding c"
  "outstanding (c\<lparr>c_peerRecvWindow := v\<rparr>) = outstanding c" "outstanding (send_event ev c) = outstanding c"
  by (auto simp: outstanding_def)

lemma first_seq_simps [simp]:
  "first_seq (c\<lparr>c_unacked := w\<rparr>) = first_seq c" "first_seq (c\<lparr>c_reads := rs\<rparr>) = first_seq c" "first_seq (set_state f c) = first_seq c"
  "first_seq (c\<lparr>c_pendingWrites := ws\<rparr>) = first_seq c" "first_seq (c\<lparr>c_results := xs\<rparr>) = first_seq c"
  "first_seq (c\<lparr>c_writable := k\<rparr>) = first_seq c" "first_seq (c\<lparr>c_readable := k\<rparr>) = first_seq c"
  "first_seq (c\<lparr>c_unackTimeoutCh := ps\<rparr>) = first_seq c" "first_seq (c\<lparr>c_latestTimeout := t\<rparr>) = first_seq c"
  "first_seq (c\<lparr>c_synState := y\<rparr>) = first_seq c" "first_seq (c\<lparr>c_peerTsDiff := d\<rparr>) = first_seq c"
  "first_seq (c\<lparr>c_peerRecvWindow := v\<rparr>) = first_seq c" "first_seq (send_event ev c) = first_seq c" "first_seq (reset e c) = first_seq c"
  by (simp_all add: first_seq_def reset_def)

lemma newOutgoing_packet [simp]: "se_Packet (newOutgoingSocketEvent p k) = Some p"
  by (simp add: newOutgoingSocketEvent_def)

section \<open>Sending\<close>

lemma tw_put_packets: "tw_put tw k p d = Some w \<Longrightarrow> wheel_packets w \<subseteq> insert p (wheel_packets tw)"
proof -
  assume a: "tw_put tw k p d = Some w"
  define i where "i = nat (go_rem (int (tw_current tw) + go_quot (if d > tw_maxDelay tw then tw_maxDelay tw else d)
    (tw_interval tw)) (int (tw_slotNum tw)))"
  let ?u = "AList.update k p (tw_slots tw ! i)"
  have i: "i < length (tw_slots tw)" and w: "w = tw\<lparr>tw_slots := (tw_slots tw)[i := ?u]\<rparr>"
    using a unfolding tw_put_def Let_def i_def by (auto split: if_splits)
  have "wheel_packets w \<subseteq> snd ` set ?u \<union> wheel_packets tw"
    using set_update_subset_insert [of "tw_slots tw" i ?u] by (auto simp: w wheel_packets_def)
  moreover have "snd ` set (tw_slots tw ! i) \<subseteq> wheel_packets tw"
    using nth_mem [OF i] by (auto simp: wheel_packets_def)
  ultimately show ?thesis using snd_set_update [of k p "tw_slots tw ! i"] by blast
qed

lemma OnTransmit_data:
  assumes "sp_OnTransmit C s x ty d len now = Some s'" and "numbered s"
  shows "SeqNumIndex s x \<le> length (sp_packets s) \<and> sp_initSeqNum s' = sp_initSeqNum s \<and> numbered s'
     \<and> map sent_data (sp_packets s') = map sent_data (sp_packets s)
         @ (if SeqNumIndex s x < length (sp_packets s) then [] else [d])"
proof -
  let ?i = "SeqNumIndex s x" and ?ps = "sp_packets s"
  let ?new = "\<lparr>sent_seqNum = x, sent_packetType = ty, sent_data = d, transmission = now, retransmission = now, acks = []\<rparr>"
  obtain ctrl where s': "s' = s\<lparr>sp_packets := (if ?i < length ?ps then ?ps[?i := (?ps ! ?i)\<lparr>retransmission := now\<rparr>]
      else ?ps @ [?new]), sp_congestionCtrl := ctrl\<rparr>" and i: "?i \<le> length ?ps"
    using assms(1) by (auto simp: sp_OnTransmit_def Let_def split: if_splits prod.splits option.splits)
  have idx: "SeqNumIndex s' y = SeqNumIndex s y" for y by (simp add: SeqNumIndex_def s')
  show ?thesis
  proof (cases "?i < length ?ps")
    case True
    then have "map sent_data (sp_packets s') = map sent_data ?ps" "map sent_seqNum (sp_packets s') = map sent_seqNum ?ps"
      by (simp_all add: s' map_update list_update_same_conv)
    then have "same_packets s s'" by (simp add: same_packets_def s')
    with True show ?thesis
      using same_packets_numbered [OF _ assms(2)] by (auto simp: same_packets_def)
  next
    case False
    with i have "?i = length ?ps" by simp
    moreover have ps: "sp_packets s' = ?ps @ [?new]" using False by (simp add: s')
    ultimately have "numbered s'" using assms(2) by (auto simp: numbered_def idx nth_append ps less_Suc_eq)
    moreover have "sp_initSeqNum s' = sp_initSeqNum s" by (simp add: s')
    ultimately show ?thesis using False i by (simp add: ps)
  qed
qed

text \<open>
  Sending a packet keeps the history: a number that has been sent must carry its old payload, the next
  number adds its payload at the end.
\<close>

lemma transmit_hist:
  assumes "hist n ds c" and "transmit E c p now = Some c'" and "i = seq_index n (h_SeqNum (Header p))"
    and "i < length ds \<Longrightarrow> Body p = ds ! i"
  shows "hist n (ds @ (if i < length ds then [] else [Body p])) c' \<and> i \<le> length ds \<and> c_endpoint c' = c_endpoint c
     \<and> SendBuf (c_state c') = SendBuf (c_state c) \<and> stateType (c_state c') = stateType (c_state c)
     \<and> c_pendingWrites c' = c_pendingWrites c"
proof -
  obtain sp where sp: "SentPackets (c_state c) = Some sp" "sp_initSeqNum sp = n" "map sent_data (sp_packets sp) = ds"
    "numbered sp" "kept n ds c" using assms(1) by (auto simp: hist_def)
  have pl: "(if length (Body p) > 0 then (Body p, of_nat (length (Body p)) :: u32) else ([], 0))
      = (Body p, of_nat (length (Body p)))" by auto
  obtain sp' w where t: "sp_OnTransmit (e_ctrl E) sp (h_SeqNum (Header p)) (h_PacketType (Header p)) (Body p)
      (of_nat (length (Body p))) now = Some sp'" "tw_put (c_unacked c) (h_SeqNum (Header p)) p (sp_Timeout (e_ctrl E) sp') = Some w"
    "c' = send_event (newOutgoingSocketEvent p (CidPeer (c_cid c))) (set_state (SentPackets_update (\<lambda>_. Some sp')) (c\<lparr>c_unacked := w\<rparr>))"
    using assms(2) sp(1) unfolding transmit_def pl by (auto simp: bind_eq_Some_conv)
  let ?es = "if i < length ds then [] else [Body p]"
  have len: "length (sp_packets sp) = length ds" using sp(3) by auto
  have i: "SeqNumIndex sp (h_SeqNum (Header p)) = i" by (simp add: SeqNumIndex_eq sp(2) assms(3) seq_index_def)
  note d = OnTransmit_data [OF t(1) sp(4), unfolded i len sp(2,3)]
  have "carried n (ds @ ?es) p" using d assms(3,4) by (auto simp: carried_def nth_append)
  moreover have "outstanding c' \<subseteq> insert p (outstanding c)"
    using tw_put_packets [OF t(2)] by (auto simp: t(3) outstanding_def)
  ultimately have "kept n (ds @ ?es) c'" by (intro kept_mono [OF sp(5)]) (auto simp: t(3))
  then show ?thesis using d by (simp add: hist_def t(3))
qed

text \<open>A step that sends packets with payloads \<open>es\<close> and leaves the buffers alone.\<close>

definition sends :: "u16 \<Rightarrow> bytes list \<Rightarrow> bytes list \<Rightarrow> ('t, 'l, 'p) connection \<Rightarrow> ('t, 'l, 'p) connection \<Rightarrow> bool" where
  "sends n ds es c c' \<longleftrightarrow> hist n (ds @ es) c' \<and> c_endpoint c' = c_endpoint c \<and> SendBuf (c_state c') = SendBuf (c_state c)
     \<and> stateType (c_state c') = stateType (c_state c) \<and> c_pendingWrites c' = c_pendingWrites c"

lemma sends_nothing: "hist n ds c \<Longrightarrow> sends n ds [] c c"
  by (simp add: sends_def)

lemma sends_trans: "\<lbrakk> sends n ds es c c'; sends n (ds @ es) fs c' c'' \<rbrakk> \<Longrightarrow> sends n ds (es @ fs) c c''"
  by (simp add: sends_def)

lemma sends_flow:
  assumes "sends n ds es c c'" and "SendBuf (c_state c) = Some sb" and "sb_inv sb" and "first_seq c = n"
    and "stateType (c_state c) = ConnConnected"
    and "W = concat (ds @ es) @ sb_contents sb @ concat (map qw_data (c_pendingWrites c))"
  shows "flow n W c'"
  using assms by (auto simp: sends_def flow_def first_seq_def)

lemma transmit_next:
  assumes "hist n ds c" and "transmit E c p now = Some c'" and "h_SeqNum (Header p) = n + 1 + of_nat (length ds)"
    and "length ds < 65536"
  shows "sends n ds [Body p] c c'"
proof -
  have "seq_index n (h_SeqNum (Header p)) = length ds"
    using assms(4) by (simp add: seq_index_def assms(3))
  with transmit_hist [OF assms(1,2) refl] show ?thesis by (simp add: sends_def)
qed

lemma transmit_repeat:
  assumes "hist n ds c" and "transmit E c p now = Some c'" and "carried n ds p"
  shows "sends n ds [] c c'"
  using transmit_hist [OF assms(1,2) refl] assms(3) by (simp add: sends_def carried_def)

lemma send_payloads_hist:
  assumes "send_payloads E c x w a sack now k ps = Some c'" and "hist n ds c"
    and "x = n + 1 + of_nat (length ds)" and "length ds + length ps \<le> 65536"
  shows "sends n ds ps c c'"
  using assms
proof (induction ps arbitrary: c x k ds)
  case Nil
  then show ?case by (simp add: sends_nothing)
next
  case (Cons d ps)
  let ?p = "Build (WithSelectiveAck sack (WithAckNum a (WithTsDiffMicros (tsDiffMicros c) (WithPayload d
      (NewPacketBuilder st_data (cid_Send (c_cid c)) (NowMicro (e_now E k)) w x)))))"
  have p: "h_SeqNum (Header ?p) = x" "Body ?p = d" by (simp_all add: Build_def builder_defs)
  obtain c1 where c1: "transmit E c ?p now = Some c1" "send_payloads E c1 (x + 1) w a sack now (k + 1) ps = Some c'"
    using Cons.prems(1) by (auto simp: bind_eq_Some_conv Let_def)
  have s1: "sends n ds [d] c c1"
    using transmit_next [OF Cons.prems(2) c1(1)] Cons.prems(3,4) unfolding p by simp
  have "sends n (ds @ [d]) ps c1 c'"
    using s1 Cons.prems(3,4) by (intro Cons.IH [OF c1(2)]) (simp_all add: sends_def)
  from sends_trans [OF s1 this] show ?case by simp
qed

lemma retransmit_each_hist:
  assumes "retransmit_each E t w d c now ls = Some c'" and "hist n ds c"
    and "\<And>l. l \<in> set ls \<Longrightarrow> seq_index n (lp_SeqNum l) < length ds \<and> lp_Data l = ds ! seq_index n (lp_SeqNum l)"
  shows "sends n ds [] c c'"
  using assms
proof (induction ls arbitrary: c)
  case Nil
  then show ?case by (simp add: sends_nothing)
next
  case (Cons l ls)
  obtain p c1 where p: "transmit E c p now = Some c1" "retransmit_each E t w d c1 now ls = Some c'"
    "h_SeqNum (Header p) = lp_SeqNum l" "Body p = lp_Data l"
    using Cons.prems(1) by (auto simp: bind_eq_Some_conv Let_def Build_def builder_defs)
  have "carried n ds p" using Cons.prems(3) [of l] by (simp add: carried_def p)
  from transmit_repeat [OF Cons.prems(2) p(1) this] have s1: "sends n ds [] c c1" .
  then have "sends n (ds @ []) [] c1 c'"
    using Cons.prems(3) by (simp, intro Cons.IH [OF p(2)]) (simp_all add: sends_def)
  from sends_trans [OF s1 this] show ?case by simp
qed

lemma LostPackets_data:
  assumes "LostPackets B sp = Some ls" and "numbered sp" and "l \<in> set ls"
  shows "seq_index (sp_initSeqNum sp) (lp_SeqNum l) < length (sp_packets sp)
     \<and> lp_Data l = map sent_data (sp_packets sp) ! seq_index (sp_initSeqNum sp) (lp_SeqNum l)"
proof -
  have those: "those xs = Some ys \<Longrightarrow> y \<in> set ys \<Longrightarrow> Some y \<in> set xs" for xs :: "LostPacket option list" and ys y
    by (induction xs arbitrary: ys) (auto split: option.splits)
  obtain x where i: "SeqNumIndex sp x < length (sp_packets sp)"
    and l: "l = (let p = sp_packets sp ! SeqNumIndex sp x in \<lparr>lp_SeqNum = sent_seqNum p, lp_PacketType = sent_packetType p, lp_Data = sent_data p\<rparr>)"
    using those [OF assms(1) [unfolded LostPackets_def] assms(3)] by (auto simp: Let_def split: if_splits)
  have "SeqNumIndex sp (lp_SeqNum l) = SeqNumIndex sp x" using assms(2) i by (simp add: numbered_def l Let_def)
  then have "seq_index (sp_initSeqNum sp) (lp_SeqNum l) = SeqNumIndex sp x" by (simp add: SeqNumIndex_eq seq_index_def)
  then show ?thesis using i by (simp add: l Let_def)
qed

lemma retransmitLost_flow:
  assumes "retransmitLostPackets E c now = Some c'" and "flow n W c"
  shows "flow n W c'"
proof (cases "c' = c")
  case False
  then have st: "stateType (c_state c) = ConnConnected"
    using assms(1) by (auto simp: retransmitLostPackets_def split: if_splits)
  from flowE [OF assms(2) st] obtain ds sb sp where f: "hist n ds c" "SendBuf (c_state c) = Some sb" "sb_inv sb"
    "W = concat ds @ sb_contents sb @ concat (map qw_data (c_pendingWrites c))"
    "SentPackets (c_state c) = Some sp" "sp_initSeqNum sp = n" "map sent_data (sp_packets sp) = ds" "numbered sp"
    "first_seq c = n" by metis
  obtain ls t w d where ls: "LostPackets (e_lost E) sp = Some ls" "retransmit_each E t w d c now ls = Some c'"
    using assms(1) st f(5) False by (auto simp: retransmitLostPackets_def bind_eq_Some_conv split: if_splits)
  have "length (sp_packets sp) = length ds" using f(7) by auto
  then have "sends n ds [] c c'"
    using LostPackets_data [OF ls(1) f(8)] by (intro retransmit_each_hist [OF ls(2) f(1)]) (simp add: f(6,7))
  then show ?thesis using f(2-4,9) st by (intro sends_flow [of n ds "[]" c]) simp_all
qed (use assms in simp)

section \<open>The handlers\<close>

text \<open>Every result of a computation satisfies \<open>P\<close>.\<close>

definition gives :: "('a \<Rightarrow> bool) \<Rightarrow> 'a go \<Rightarrow> bool" where
  "gives P m \<longleftrightarrow> (\<forall>x. m = Some x \<longrightarrow> P x)"

lemma gives_bind: "\<lbrakk> gives P m; \<And>x. P x \<Longrightarrow> gives Q (f x) \<rbrakk> \<Longrightarrow> gives Q (m \<bind> f)"
  by (auto simp: gives_def bind_eq_Some_conv)

lemma processWrites_flow:
  assumes "processWrites E c now = Some c'" and "flow n W c" and "seq_room E c"
  shows "flow n W c'"
proof (cases "stateType (c_state c)")
  case ConnConnected
  from flowE [OF assms(2) ConnConnected] obtain ds sb sp where f: "hist n ds c" "SendBuf (c_state c) = Some sb" "sb_inv sb"
    "W = concat ds @ sb_contents sb @ concat (map qw_data (c_pendingWrites c))"
    "SentPackets (c_state c) = Some sp" "sp_initSeqNum sp = n" "map sent_data (sp_packets sp) = ds" "first_seq c = n" by metis
  let ?w = "minUint32 (Window (e_ctrl E) sp) (c_peerRecvWindow c)"
  obtain sb1 ps where ps: "compose_payloads (cc_MaxPacketSize (c_config c)) ?w sb [] = Some (sb1, ps)" "sb_inv sb1"
    "sb_contents sb = concat ps @ sb_contents sb1" using compose_payloads_ok [OF f(3)] by fastforce
  obtain sb2 ws rs wr where ws: "write_pending sb1 (c_pendingWrites c) (c_results c) (c_writable c) = Some (sb2, ws, rs, wr)"
    "sb_inv sb2" "sb_contents sb1 @ concat (map qw_data (c_pendingWrites c)) = sb_contents sb2 @ concat (map qw_data ws)"
    using write_pending_ok [OF ps(2), of "c_pendingWrites c" "c_results c" "c_writable c"] by blast
  let ?c = "set_state (SendBuf_update (\<lambda>_. Some sb2)) (c\<lparr>c_pendingWrites := ws, c_results := rs, c_writable := wr\<rparr>)"
  obtain w a sack where run: "send_payloads E ?c (NextSeqNum sp) w a sack now 0 ps = Some c'"
    using assms(1) ConnConnected f(2,5) ps(1) ws(1)
    by (auto simp: processWrites_def Let_def bind_eq_Some_conv)
  have len: "length (sp_packets sp) = length ds" using f(7) by auto
  have room: "length ds + length ps \<le> 65536"
    using assms(3) f(2,5) ps(1) len by (simp add: seq_room_def new_payloads_def)
  have "hist n ds ?c" using f(1) by (simp add: hist_def kept_def)
  moreover have "NextSeqNum sp = n + 1 + of_nat (length ds)" by (simp add: NextSeqNum_def f(6) len)
  ultimately have "sends n ds ps ?c c'" using send_payloads_hist [OF run _ _ room] by blast
  then show ?thesis using ws(2,3) ps(3) f(4,8) ConnConnected
    by (intro sends_flow [of n ds ps ?c c' sb2]) simp_all
next
  case ConnConnecting
  with assms show ?thesis by (simp add: processWrites_def)
next
  case ConnClosed
  with assms show ?thesis by (auto simp: processWrites_def flow_def)
qed

text \<open>The writes that are taken into the stream.\<close>

definition accepts_write :: "('t, 'l, 'p) connection \<Rightarrow> bool" where
  "accepts_write c \<longleftrightarrow> stateType (c_state c) = ConnConnecting
     \<or> stateType (c_state c) = ConnConnected
        \<and> (case closing (c_state c) of None \<Rightarrow> True | Some cl \<Rightarrow> LocalFin cl = None \<and> RemoteFin cl \<noteq> None)"

lemma flow_enqueue:
  assumes "flow n W c"
  shows "flow n (W @ qw_data w) (c\<lparr>c_pendingWrites := c_pendingWrites c @ [w]\<rparr>)"
proof -
  have k: "kept n ds (c\<lparr>c_pendingWrites := ws\<rparr>) = kept n ds c" for ds ws by (simp add: kept_def)
  show ?thesis using assms by (auto simp: flow_def hist_def k split: ConnStateType.splits)
qed

lemma flow_same:
  assumes "flow n W c" and "c_state c' = c_state c" and "c_endpoint c' = c_endpoint c"
    and "c_pendingWrites c' = c_pendingWrites c" and "c_socketEvents c' = c_socketEvents c"
    and "outstanding c' \<subseteq> outstanding c"
  shows "flow n W c'"
  using assms by (intro flow_frame [OF assms(1)]) (auto simp: first_seq_def wire_def)

lemma onWrite_flow:
  assumes "onWrite E c w = Some c'" and "flow n W c" and "seq_room (later 1 E) c"
  shows "flow n (W @ (if accepts_write c then qw_data w else [])) c'"
proof -
  let ?w = "w\<lparr>qw_written := 0\<rparr>"
  have np: "new_payloads F (c\<lparr>c_pendingWrites := ws\<rparr>) = new_payloads F c" "new_payloads F (c\<lparr>c_results := rs\<rparr>) = new_payloads F c"
    for F :: "('a, 'b) conn_env" and ws rs by (simp_all add: new_payloads_def cong: option.case_cong)
  have room: "seq_room (later 1 E) (c\<lparr>c_pendingWrites := ws\<rparr>)" "seq_room (later 1 E) (c\<lparr>c_results := rs\<rparr>)" for ws rs
    using assms(3) unfolding seq_room_def np by simp_all
  obtain c1 c2 where c1: "processWrites (later 1 E) c1 (e_now E 0) = Some c2" "c' = c2\<lparr>c_writable := notify_token (c_writable c2)\<rparr>"
    and q: "if accepts_write c then c1 = c\<lparr>c_pendingWrites := c_pendingWrites c @ [?w]\<rparr>
      else (\<exists>rs. c1 = c\<lparr>c_results := rs\<rparr>)"
    using assms(1) unfolding onWrite_def accepts_write_def Let_def
    by (auto simp: bind_eq_Some_conv split: ConnStateType.splits option.splits if_splits)
  have "flow n (W @ (if accepts_write c then qw_data w else [])) c1 \<and> seq_room (later 1 E) c1"
    using q room flow_enqueue [OF assms(2), of ?w] flow_same [OF assms(2)] by (auto split: if_splits)
  then have "flow n (W @ (if accepts_write c then qw_data w else [])) c2" using processWrites_flow [OF c1(1)] by blast
  then show ?thesis unfolding c1(2) by (rule flow_same) simp_all
qed

lemma processReads_flow:
  assumes "processReads E c = Some c'" and "flow n W c"
  shows "flow n W c'"
  using assms(1) by (intro flow_frame [OF assms(2)])
    (auto simp: processReads_def bind_eq_Some_conv split: ConnStateType.splits option.splits if_splits)

lemma reset_flow: "flow n W c \<Longrightarrow> flow n W (reset e c)"
  by (rule flow_closed) (simp_all add: flow_def)

lemma onState_flow:
  assumes "onState E c x a = Some c'" and "flow n W c"
  shows "flow n W c'"
proof (cases "c' = c")
  case False
  then have st: "stateType (c_state c) = ConnConnecting" and ep: "ep_Type (c_endpoint c) = Initiator"
    using assms(1) by (auto simp: onState_def split: if_splits)
  then obtain ch rb where c': "c' = set_state (\<lambda>s. s\<lparr>connectedCh := Some ch, stateType := ConnConnected, RecvBuf := Some rb,
      SendBuf := Some (newSendBuffer (cc_BufferSize (c_config c))),
      SentPackets := Some (newSentPackets (e_lost E) (ep_SynNum (c_endpoint c)) (newDefaultController (fromConnConfig (c_config c))))\<rparr>) c"
    and sz: "0 \<le> cc_BufferSize (c_config c)"
    using assms(1) False by (auto simp: onState_def make_recv_buffer_def bind_eq_Some_conv Let_def split: if_splits)
  have n: "ep_SynNum (c_endpoint c) = n" "W = concat (map qw_data (c_pendingWrites c))" "kept n [] c"
    using assms(2) st ep by (auto simp: flow_def first_seq_def)
  have "hist n [] c'" using n(1,3) by (simp add: hist_def c' newSentPackets_def numbered_def kept_def)
  moreover have "first_seq c' = n" using ep n(1) by (simp add: c' first_seq_def)
  ultimately show ?thesis
    using flowI [of n "[]" c' "newSendBuffer (cc_BufferSize (c_config c))" W] newSendBuffer_inv(1) [OF sz] newSendBuffer_inv(2) n(2) by (auto simp: c')
qed (use assms in simp)

lemma onData_flow:
  assumes "onData E c x d = Some (c', e)" and "flow n W c"
  shows "flow n W c'"
  using assms(1) by (intro flow_frame [OF assms(2)])
    (auto simp: onData_def Let_def bind_eq_Some_conv reset_def split: if_splits ConnStateType.splits option.splits)

lemma onFin_flow:
  assumes "onFin E c x d = Some (c', e)" and "flow n W c"
  shows "flow n W c'"
  using assms(1) by (intro flow_frame [OF assms(2)])
    (auto simp: onFin_def Let_def bind_eq_Some_conv reset_def split: if_splits option.splits)

lemma dispatch_flow:
  assumes "dispatch_packet E c p = Some c'" and "flow n W c"
  shows "flow n W c'"
  using assms(1) reset_flow [OF assms(2)] assms(2)
  by (auto simp: dispatch_packet_def Let_def onSyn_def onReset_def split: if_splits
      intro: onState_flow [OF _ assms(2)] onData_flow [OF _ assms(2)] onFin_flow [OF _ assms(2)])

lemma wheel_packets_remove: "wheel_packets (fold tw_remove ks tw) \<subseteq> wheel_packets tw"
proof (induction ks arbitrary: tw)
  case (Cons k ks)
  have "wheel_packets (tw_remove k tw) \<subseteq> wheel_packets tw"
    using remove_first_sub [of _ k "tw_slots tw"] by (fastforce simp: tw_remove_def wheel_packets_def)
  then show ?case using Cons.IH [of "tw_remove k tw"] by auto
qed simp

lemma wheel_packets_retain: "wheel_packets (tw_retain rm tw) \<subseteq> wheel_packets tw"
  by (auto simp: tw_retain_def wheel_packets_def)

lemma processAck_flow:
  assumes "processAck E c a sack d now = Some (c', e)" and "flow n W c"
  shows "flow n W c'"
proof (cases "stateType (c_state c) = ConnConnected")
  case True
  from flowE [OF assms(2) True] obtain ds sb sp where f: "hist n ds c" "SendBuf (c_state c) = Some sb" "sb_inv sb"
    "W = concat ds @ sb_contents sb @ concat (map qw_data (c_pendingWrites c))"
    "SentPackets (c_state c) = Some sp" "sp_initSeqNum sp = n" "map sent_data (sp_packets sp) = ds" "numbered sp"
    "kept n ds c" "first_seq c = n" by metis
  obtain sp' res where ack: "onAck (e_lost E) (e_ctrl E) sp a sack d now = Some (sp', res)"
    using assms(1) True f(5) by (auto simp: processAck_def bind_eq_Some_conv)
  have same: "same_packets sp sp'" by (rule onAck_packets [OF ack])
  let ?c = "set_state (SentPackets_update (\<lambda>_. Some sp')) c"
  have h: "hist n ds ?c"
    using f(6-9) same same_packets_numbered [OF same] by (simp add: hist_def same_packets_def kept_def)
  have c: "flow n W ?c" using flowI [OF h _ f(3)] f(2,4,10) True by simp
  have "c' = ?c \<or> c' = reset ErrInvalidAckNum ?c \<or> (\<exists>full sel. c' = ?c\<lparr>c_unacked := fold tw_remove sel (tw_retain full (c_unacked c))\<rparr>)"
    using assms(1) True f(5) ack by (auto simp: processAck_def Let_def split: sum.splits if_splits)
  moreover have "flow n W (?c\<lparr>c_unacked := fold tw_remove sel (tw_retain full (c_unacked c))\<rparr>)" for full sel
    using wheel_packets_remove [of sel "tw_retain full (c_unacked c)"] wheel_packets_retain [of full "c_unacked c"]
    by (intro flow_same [OF c]) (auto simp: outstanding_def)
  ultimately show ?thesis using c reset_flow [OF c] by auto
qed (use assms in \<open>simp add: processAck_def\<close>)

lemma answer_flow:
  assumes "answer_packet E c p = Some c'" and "flow n W c"
  shows "flow n W c'"
proof -
  have state: "\<not> in_stream q" if "statePacket E c = Some (Some q)" for q
    using that by (auto simp: statePacket_def bind_eq_Some_conv Let_def Build_def builder_defs st_defs
        split: ConnStateType.splits if_splits)
  show ?thesis using assms(1) state
    by (intro flow_frame [OF assms(2)])
      (auto simp: answer_packet_def Let_def bind_eq_Some_conv Build_def builder_defs st_defs split: if_splits option.splits)
qed

lemma close_checks_flow:
  assumes "close_checks E c = Some c'" and "flow n W c"
  shows "flow n W c'"
proof -
  have nil: "flow n W (closed_with_nil x)" if "flow n W x" for x :: "('a, 'b, 'c) connection"
    using that by (intro flow_closed) (simp_all add: closed_with_nil_def flow_def)
  have own: "gives (flow n W) (case local_fin x of Some fin \<Rightarrow> do {
       sp \<leftarrow> SentPackets (c_state x);
       let (lastAckNum, isNone) = LastAckNum sp;
       Some (if \<not> isNone \<and> lastAckNum = fin then closed_with_nil x else x) } | None \<Rightarrow> Some x)"
    if "flow n W x" for x :: "('a, 'b, 'c) connection"
    using that nil [OF that]
    by (cases "local_fin x") (auto simp: gives_def bind_eq_Some_conv Let_def case_prod_beta split: if_splits)
  have peer: "gives (flow n W) (case remote_fin x of Some fin \<Rightarrow> do {
       sp \<leftarrow> SentPackets (c_state x);
       rb \<leftarrow> RecvBuf (c_state x);
       (if \<not> HasUnackedPackets sp \<and> rb_AckNum rb = fin then map_option closed_with_nil (processReads E x) else Some x) }
     | None \<Rightarrow> Some x)" if "flow n W x" for x :: "('a, 'b, 'c) connection"
    using that nil [OF processReads_flow [OF _ that]]
    by (cases "remote_fin x") (auto simp: gives_def bind_eq_Some_conv split: if_splits)
  have "gives (flow n W) (close_checks E c)"
    unfolding close_checks_def
    by (rule gives_bind [where P = "flow n W"], rule own [OF assms(2)],
        rule gives_bind [where P = "flow n W"], erule peer) (simp add: gives_def nil)
  then show ?thesis using assms(1) by (simp add: gives_def)
qed

lemma onPacket_flow:
  assumes "onPacket E c p now = Some c'" and "flow n W c"
  shows "flow n W c'"
proof -
  let ?ty = "h_PacketType (Header p)" and ?ts = "1000 * (UnixMicro (e_now E 0) - uint (h_TimestampDiff (Header p)))"
  let ?c = "c\<lparr>c_peerRecvWindow := h_WndSize (Header p),
    c_peerTsDiff := (if ?ts > cc_MaxIdleTimeout (c_config c) then 1000000000 else ?ts)\<rparr>"
  have c: "flow n W ?c" by (rule flow_same [OF assms(2)]) simp_all
  have ack: "gives (flow n W) (if ?ty = st_state \<or> ?ty = st_data \<or> ?ty = st_fin
      then map_option fst (processAck E x (h_AckNum (Header p)) (Eack p) (uint (h_TimestampDiff (Header p)) * 1000) now)
      else Some x)" if "flow n W x" for x :: "('a, 'b, 'c) connection"
    using that processAck_flow [OF _ that] by (auto simp: gives_def)
  have tokens: "flow n W (if b then (if a then x\<lparr>c_writable := k\<rparr> else x)\<lparr>c_readable := m\<rparr> else (if a then x\<lparr>c_writable := k\<rparr> else x))"
    if "flow n W x" for a b k m and x :: "('a, 'b, 'c) connection"
    using that by (auto intro!: flow_same [OF that])
  have "gives (flow n W) (onPacket E c p now)"
    unfolding onPacket_def Let_def
    by (rule gives_bind [where P = "flow n W"], simp add: gives_def dispatch_flow [OF _ c],
        rule gives_bind [where P = "flow n W"], erule ack,
        rule gives_bind [where P = "flow n W"], simp add: gives_def retransmitLost_flow,
        rule gives_bind [where P = "flow n W"], simp add: gives_def answer_flow)
      (simp add: gives_def close_checks_flow [OF _ tokens])
  then show ?thesis using assms(1) by (simp add: gives_def)
qed

text \<open>A packet whose timer runs is a SYN, or carries the payload of its number.\<close>

definition timer_ok :: "u16 \<Rightarrow> ('t, 'l) ConnState \<Rightarrow> packet \<Rightarrow> bool" where
  "timer_ok n s p \<longleftrightarrow> (stateType s = ConnConnecting \<longrightarrow> is_syn p)
     \<and> (\<forall>sp. stateType s = ConnConnected \<and> SentPackets s = Some sp \<longrightarrow> is_syn p \<or> carried n (map sent_data (sp_packets sp)) p)"

lemma outstanding_timer_ok: "\<lbrakk> flow n W c; p \<in> outstanding c \<rbrakk> \<Longrightarrow> timer_ok n (c_state c) p"
  by (auto simp: timer_ok_def flow_def kept_def hist_def carried_def)

lemma onTimeout_flow:
  assumes "onTimeout E c p now = Some c'" and "flow n W c" and "timer_ok n (c_state c) p"
  shows "flow n W c'"
proof (cases "stateType (c_state c)")
  case ConnConnecting
  have syn: "is_syn p" using assms(3) ConnConnecting by (simp add: timer_ok_def)
  show ?thesis
    using assms(1) ConnConnecting
    by (intro flow_frame [OF assms(2)])
      (auto simp: onTimeout_def Let_def bind_eq_Some_conv first_seq_def outstanding_def syn is_syn_synPacket
        st_defs
        split: if_splits option.splits dest!: tw_put_packets)
next
  case ConnConnected
  from flowE [OF assms(2) ConnConnected] obtain ds sb sp where f: "hist n ds c" "SendBuf (c_state c) = Some sb" "sb_inv sb"
    "W = concat ds @ sb_contents sb @ concat (map qw_data (c_pendingWrites c))"
    "SentPackets (c_state c) = Some sp" "sp_initSeqNum sp = n" "map sent_data (sp_packets sp) = ds" "numbered sp"
    "kept n ds c" "first_seq c = n" by metis
  show ?thesis
  proof (cases "is_syn p")
    case True
    with assms(1,2) ConnConnected show ?thesis by (simp add: onTimeout_def)
  next
    case False
    let ?c = "set_state (SentPackets_update (\<lambda>_. Some (sp_OnTimeout (e_ctrl E) sp))) (c\<lparr>c_latestTimeout := Some (e_now E 1)\<rparr>)"
    let ?q = "\<lambda>rb. \<lparr>Header = \<lparr>h_PacketType = h_PacketType (Header p), h_Version = h_Version (Header p),
        h_Extension = h_Extension (Header p), h_ConnectionId = h_ConnectionId (Header p), h_Timestamp = UnixMicro (e_now E 2),
        h_TimestampDiff = tsDiffMicros c, h_WndSize = word_of_int (rb_Available (e_pending E) rb),
        h_SeqNum = h_SeqNum (Header p), h_AckNum = rb_AckNum rb\<rparr>,
      Eack = rb_SelectiveAck (e_pending E) rb, Body = Body p\<rparr>"
    define c1 where "c1 = (if (case c_latestTimeout c of
        Some t \<Rightarrow> e_now E 0 - t > sp_Timeout (e_ctrl E) sp | None \<Rightarrow> True) then ?c else c)"
    have c1: "c1 = ?c \<or> c1 = c" by (simp add: c1_def)
    have "tsDiffMicros c1 = tsDiffMicros c" "RecvBuf (c_state c1) = RecvBuf (c_state c)" using c1 by auto
    then have "do { rb \<leftarrow> RecvBuf (c_state c); transmit E c1 (?q rb) now } = Some c'"
      using assms(1) ConnConnected False f(5) unfolding onTimeout_def c1_def by (simp add: Let_def)
    then obtain rb where t: "transmit E c1 (?q rb) now = Some c'" by (auto simp: bind_eq_Some_conv)
    have "numbered (sp_OnTimeout (e_ctrl E) sp)" "sp_initSeqNum (sp_OnTimeout (e_ctrl E) sp) = n"
      "map sent_data (sp_packets (sp_OnTimeout (e_ctrl E) sp)) = ds"
      using f(6-8) same_packets_numbered [of sp "sp_OnTimeout (e_ctrl E) sp"]
      by (simp_all add: sp_OnTimeout_def same_packets_def)
    then have h: "hist n ds c1" using c1 f(1,9) by (auto simp: hist_def kept_def)
    have "carried n ds p" using assms(3) False ConnConnected f(5,7) by (auto simp: timer_ok_def)
    then have "carried n ds (?q rb)" by (simp add: carried_def)
    from transmit_repeat [OF h t this] have "sends n ds [] c1 c'" .
    then show ?thesis using f(2-4,10) ConnConnected c1
      by (intro sends_flow [of n ds "[]" c1 c' sb]) auto
  qed
next
  case ConnClosed
  with assms show ?thesis by (simp add: onTimeout_def)
qed

lemma send_fin_flow:
  assumes "send_fin E c f = Some (c', x)" and "flow n W c" and "stateType (c_state c) = ConnConnected" and "fin_fits E c"
    and "\<And>y. f y c = set_state (g y) c \<and> SentPackets (g y (c_state c)) = SentPackets (c_state c)
       \<and> SendBuf (g y (c_state c)) = SendBuf (c_state c) \<and> stateType (g y (c_state c)) = stateType (c_state c)"
  shows "flow n W c' \<and> stateType (c_state c') = ConnConnected"
proof -
  from flowE [OF assms(2,3)] obtain ds sb sp where h: "hist n ds c" "SendBuf (c_state c) = Some sb" "sb_inv sb"
    "W = concat ds @ sb_contents sb @ concat (map qw_data (c_pendingWrites c))"
    "SentPackets (c_state c) = Some sp" "sp_initSeqNum sp = n" "map sent_data (sp_packets sp) = ds" "first_seq c = n" by metis
  obtain q where q: "transmit E (f x c) q (e_now E 1) = Some c'" "h_SeqNum (Header q) = NextSeqNum sp" "Body q = []"
    using assms(1) h(5) by (auto simp: send_fin_def bind_eq_Some_conv Let_def Build_def builder_defs)
  have len: "length (sp_packets sp) = length ds" using h(7) by auto
  have "length ds < 65536" using assms(3,4) h(5) len by (auto simp: fin_fits_def)
  moreover have "hist n ds (f x c)" using h(1) assms(5) [of x] by (auto simp: hist_def kept_def)
  moreover have "h_SeqNum (Header q) = n + 1 + of_nat (length ds)" by (simp add: q(2) NextSeqNum_def h(6) len)
  ultimately have s: "sends n ds [[]] (f x c) c'" using transmit_next [OF _ q(1)] q(3) by simp
  have "flow n W c'" using assms(3) assms(5) [of x] h(2-4,8) by (intro sends_flow [OF s]) simp_all
  moreover have "stateType (c_state c') = ConnConnected" using s assms(3) assms(5) [of x] by (simp add: sends_def)
  ultimately show ?thesis by simp
qed

lemma shutdown_flow:
  assumes "shutdown_conn E c = Some c'" and "flow n W c" and "fin_fits E c"
  shows "flow n W c'"
proof (cases "stateType (c_state c)")
  case ConnConnecting
  then show ?thesis using assms(1,2) by (auto simp: shutdown_conn_def flow_def)
next
  case ConnConnected
  have fin: "flow n W x \<and> stateType (c_state x) = ConnConnected" if "send_fin E c f = Some (x, y)"
    "\<And>y. f y c = set_state (g y) c \<and> SentPackets (g y (c_state c)) = SentPackets (c_state c)
       \<and> SendBuf (g y (c_state c)) = SendBuf (c_state c) \<and> stateType (g y (c_state c)) = stateType (c_state c)" for x y f g
    by (rule send_fin_flow [OF that(1) assms(2) ConnConnected assms(3) that(2)])
  show ?thesis
  proof (cases "closing (c_state c)")
    case None
    obtain x l where x: "c' = set_state (closing_update (\<lambda>_. Some \<lparr>LocalFin = l, RemoteFin = None\<rparr>)) x"
      and "x = c \<or> (\<exists>y. send_fin E c (\<lambda>_ c. c) = Some (x, y))"
      using assms(1) ConnConnected None by (auto simp: shutdown_conn_def bind_eq_Some_conv split: if_splits)
    then have "flow n W x" using assms(2) fin [of "\<lambda>_ c. c" x _ "\<lambda>_ s. s"] by (auto simp: set_state_def)
    then show ?thesis unfolding x by (rule flow_frame) auto
  next
    case (Some cl)
    then have "c' = c \<or> (\<exists>y. send_fin E c (\<lambda>m. set_state (closing_update (\<lambda>_. Some (cl\<lparr>LocalFin := Some m\<rparr>)))) = Some (c', y))"
      using assms(1) ConnConnected by (auto simp: shutdown_conn_def bind_eq_Some_conv split: if_splits)
    then show ?thesis using assms(2)
      fin [of _ c' _ "\<lambda>m. closing_update (\<lambda>_. Some (cl\<lparr>LocalFin := Some m\<rparr>))"] by auto
  qed
next
  case ConnClosed
  then show ?thesis using assms(1,2) by (simp add: shutdown_conn_def)
qed

section \<open>The event loop\<close>

lemma run_case_flow:
  assumes "run_case E k st c = Some (st', c')" and "flow n W c" and "case_fits E k c" and "ready k st c"
  shows "flow n (W @ (if k = CaseWrite \<and> accepts_write c then qw_data (hd (st_writes st)) else [])) c'"
proof (cases k)
  case CaseIncoming
  then show ?thesis using assms(1,2) onPacket_flow [OF _ assms(2)]
    by (auto simp: run_case_def handleIncoming_def bind_eq_Some_conv split: if_splits)
next
  case CaseWrite
  then show ?thesis using assms(1,3) onWrite_flow [OF _ assms(2)] by (auto simp: run_case_def)
next
  case CaseReadable
  have "flow n W (c\<lparr>c_readable := c_readable c - 1\<rparr>)" by (rule flow_same [OF assms(2)]) simp_all
  then show ?thesis using CaseReadable assms(1) processReads_flow by (auto simp: run_case_def)
next
  case CaseWritable
  have "flow n W (c\<lparr>c_writable := c_writable c - 1\<rparr>)" by (rule flow_same [OF assms(2)]) simp_all
  from processWrites_flow [OF _ this] show ?thesis using CaseWritable assms(1,3) by (auto simp: run_case_def)
next
  case CaseTimeout
  let ?p = "hd (c_unackTimeoutCh c)" and ?c = "c\<lparr>c_unackTimeoutCh := tl (c_unackTimeoutCh c)\<rparr>"
  have ne: "c_unackTimeoutCh c \<noteq> []" using CaseTimeout assms(4) by simp
  then have "?p \<in> outstanding c" by (simp add: outstanding_def)
  from outstanding_timer_ok [OF assms(2) this] have p: "timer_ok n (c_state ?c) ?p" by simp
  have "set (tl (c_unackTimeoutCh c)) \<subseteq> set (c_unackTimeoutCh c)" using ne by (cases "c_unackTimeoutCh c") auto
  then have "flow n W ?c" by (intro flow_same [OF assms(2)]) (auto simp: outstanding_def)
  then show ?thesis using CaseTimeout assms(1) onTimeout_flow [OF _ _ p] by (auto simp: run_case_def)
next
  case CaseIdle
  then show ?thesis using assms(1,2) by (auto simp: run_case_def handleIdleTimeout_def flow_def)
next
  case CaseDone
  then show ?thesis using assms(1,2) by (auto simp: run_case_def)
qed

lemma loop_turn_flow:
  assumes "loop_turn E E' k st c = Some (st', c', Continue)" and "flow n W c" and "turn_fits E E' k st c" and "ready k st c"
  shows "flow n (W @ (if k = CaseWrite \<and> accepts_write c then qw_data (hd (st_writes st)) else [])) c'"
proof -
  obtain c1 where c1: "run_case E k st c = Some (st', c1)" "k \<noteq> CaseDone" "after_select E' st' c1 = Some (c', Continue)"
    using assms(1) by (rule loop_turn_parts) (auto split: if_splits)
  have f: "flow n (W @ (if k = CaseWrite \<and> accepts_write c then qw_data (hd (st_writes st)) else [])) c1"
    using run_case_flow [OF c1(1) assms(2) _ assms(4)] assms(3) by (simp add: turn_fits_def)
  have "c' = c1 \<or> st_shutdown st' \<and> shutdown_conn E' c1 = Some c'"
    using c1(3) by (auto simp: after_select_def bind_eq_Some_conv Let_def split: if_splits)
  then show ?thesis using f shutdown_flow [OF _ f] assms(3) c1(1) by (auto simp: turn_fits_def)
qed

text \<open>
  The runs of an event loop and its stream, as in \<open>conn_run\<close>, with the bytes that the writes taken into the
  stream have brought so far.
\<close>

inductive stream_run ::
  "('t, pendingItem) BTree \<Rightarrow> ('l, u16) BTree \<Rightarrow> streamChans \<Rightarrow> ('t, 'l, 'p) connection \<Rightarrow> bytes \<Rightarrow> bool"
  for BP BL where
  stream_start: "\<lbrakk> conn_config_ok config; e_pending E = BP; e_lost E = BL;
      newConnection E cid config syn (Some \<lparr>ch_sent = [], ch_closed = False\<rparr>) = Some c;
      loop_start (later 1 E) c = Some c' \<rbrakk>
    \<Longrightarrow> stream_run BP BL \<lparr>st_streamEvents = [], st_writes = [], st_shutdown = False\<rparr> c' []"
| stream_turn: "\<lbrakk> stream_run BP BL st c W; e_pending E = BP; e_lost E = BL; e_pending E' = BP; e_lost E' = BL;
      ready k st c; turn_fits E E' k st c; loop_turn E E' k st c = Some (st', c', Continue) \<rbrakk>
    \<Longrightarrow> stream_run BP BL st' c' (W @ (if k = CaseWrite \<and> accepts_write c then qw_data (hd (st_writes st)) else []))"
| stream_tick: "\<lbrakk> stream_run BP BL st c W; permutes_entries ord; conn_tick ord c = Some c' \<rbrakk> \<Longrightarrow> stream_run BP BL st c' W"
| stream_event: "\<lbrakk> stream_run BP BL st c W; ev_Type ev = streamIncoming \<longrightarrow> ev_Packet ev \<noteq> None \<rbrakk>
    \<Longrightarrow> stream_run BP BL (st\<lparr>st_streamEvents := st_streamEvents st @ [ev]\<rparr>) c W"
| stream_write: "stream_run BP BL st c W \<Longrightarrow> stream_run BP BL (st\<lparr>st_writes := st_writes st @ [w]\<rparr>) c W"
| stream_close: "stream_run BP BL st c W \<Longrightarrow> stream_run BP BL (st\<lparr>st_shutdown := True\<rparr>) c W"

lemma stream_conn_run: "stream_run BP BL st c W \<Longrightarrow> conn_run BP BL st c"
  by (induction rule: stream_run.induct) (blast intro: conn_run.intros)+

lemma start_flow:
  assumes "newConnection E cid config syn (Some \<lparr>ch_sent = [], ch_closed = False\<rparr>) = Some c" and "loop_start E' c = Some c'"
  shows "flow (first_seq c') [] c' \<and> stateType (c_state c') \<noteq> ConnClosed"
proof -
  obtain w where w: "newTimeWheel (go_quot (cc_InitialTimeout config) 4) 8 = Some w" "c_unacked c = w"
    and c: "c_state c = NewConnState (Some \<lparr>ch_sent = [], ch_closed = False\<rparr>)" "c_socketEvents c = []" "c_unackTimeoutCh c = []"
      "c_pendingWrites c = []" "c_config c = config" "ep_Type (c_endpoint c) = (if syn = None then Initiator else Acceptor)"
    using assms(1) by (cases syn) (auto simp: newConnection_def bind_eq_Some_conv)
  have e: "wheel_packets w = {}" using w(1) by (auto simp: newTimeWheel_def wheel_packets_def split: if_splits)
  show ?thesis
  proof (cases syn)
    case None
    let ?syn = "synPacket E' c (ep_SynNum (c_endpoint c))"
    obtain y where y: "tw_put w (ep_SynNum (c_endpoint c)) ?syn (cc_InitialTimeout config) = Some y"
      "c' = (send_event (newOutgoingSocketEvent ?syn (CidPeer (c_cid c))) c)\<lparr>c_unacked := y, c_endpoint := (c_endpoint c)\<lparr>ep_Attempts := 1\<rparr>\<rparr>"
      using assms(2) c None w(2) by (auto simp: loop_start_def Let_def bind_eq_Some_conv)
    have "outstanding c' \<subseteq> {?syn}" using tw_put_packets [OF y(1)] e c(3) by (auto simp: y(2) outstanding_def)
    then have "\<forall>p \<in> outstanding c'. is_syn p" using is_syn_synPacket by blast
    moreover have "wire c' = {?syn}" using c(2) by (auto simp: y(2) wire_def)
    ultimately have "kept (first_seq c') [] c'" by (auto simp: kept_def is_syn_synPacket st_defs)
    then show ?thesis using c(1,4) by (simp add: y(2) flow_def NewConnState_def)
  next
    case (Some s)
    then obtain p rb ch where c': "c' = set_state (\<lambda>s. s\<lparr>connectedCh := Some ch, stateType := ConnConnected, RecvBuf := Some rb,
        SendBuf := Some (newSendBuffer (cc_BufferSize config)), SentPackets := Some (newSentPackets (e_lost E')
          (ep_SynAck (c_endpoint c) - 1) (newDefaultController (fromConnConfig config)))\<rparr>)
        (send_event (newOutgoingSocketEvent p (CidPeer (c_cid c))) (c\<lparr>c_synState := Some p\<rparr>))"
      "\<not> in_stream p" "0 \<le> cc_BufferSize config"
      using assms(2) c by (auto simp: loop_start_def Let_def bind_eq_Some_conv statePacket_def NewConnState_def Build_def
          builder_defs st_defs make_recv_buffer_def split: if_splits)
    have n: "first_seq c' = ep_SynAck (c_endpoint c) - 1" using c(6) Some by (simp add: c'(1) first_seq_def)
    have "kept (ep_SynAck (c_endpoint c) - 1) [] c'"
      using c(2,3) w(2) e c'(2) by (auto simp: c'(1) kept_def wire_def outstanding_def)
    moreover have "SentPackets (c_state c') = Some (newSentPackets (e_lost E') (ep_SynAck (c_endpoint c) - 1)
        (newDefaultController (fromConnConfig config)))" by (simp add: c'(1))
    ultimately have "hist (first_seq c') [] c'" unfolding n by (simp add: hist_def newSentPackets_def numbered_def)
    from flowI [OF this _ newSendBuffer_inv(1) [OF c'(3)]] show ?thesis
      using c(4) newSendBuffer_inv(2) by (auto simp: c'(1))
  qed
qed

context conn_trees
begin

lemma stream_flow:
  assumes "stream_run BP BL st c W"
  shows "flow (first_seq c) W c \<and> stateType (c_state c) \<noteq> ConnClosed"
  using assms
proof induction
  case (stream_start config E cid syn c c')
  then show ?case using start_flow by blast
next
  case (stream_turn st c W E E' k st' c')
  have "flow (first_seq c) W c" using stream_turn.IH by simp
  from loop_turn_flow [OF stream_turn.hyps(8) this stream_turn.hyps(7,6)]
  have f: "flow (first_seq c) (W @ (if k = CaseWrite \<and> accepts_write c then qw_data (hd (st_writes st)) else [])) c'" .
  then have "first_seq c' = first_seq c" by (simp add: flow_def)
  with f show ?case using loop_turn_exit [OF stream_turn.hyps(8)] by (simp only:) simp
next
  case (stream_tick st c W ord c')
  have wf: "tw_wf (c_unacked c)" using run_inv [OF stream_conn_run [OF stream_tick.hyps(1)]] by (simp add: conn_inv_def)
  obtain w out where w: "tw_tick ord (c_unacked c) = Some (w, out)" "wheel_packets w \<union> snd ` set out \<subseteq> wheel_packets (c_unacked c)"
    using wheel_tick [OF stream_tick.hyps(2) wf] by blast
  have c': "c' = c\<lparr>c_unacked := w, c_unackTimeoutCh := c_unackTimeoutCh c @ map snd out\<rparr>"
    using stream_tick.hyps(3) w(1) by (simp add: conn_tick_def)
  have "flow (first_seq c) W c'"
    using w(2) unfolding c' by (intro flow_same [OF conjunct1 [OF stream_tick.IH]]) (auto simp: outstanding_def)
  moreover have "first_seq c' = first_seq c" "c_state c' = c_state c" by (simp_all add: c')
  ultimately show ?case using stream_tick.IH by simp
qed auto

end

section \<open>The other end\<close>

text \<open>What the receive buffer of the peer goes through: packets arrive, and the application reads.\<close>

datatype peer_step = Arrives packet | Reads nat

fun peer_run ::
  "('t, pendingItem) BTree \<Rightarrow> 't receiveBuffer \<Rightarrow> peer_step list \<Rightarrow> ('t receiveBuffer \<times> bytes) go" where
  "peer_run B rb [] = Some (rb, [])"
| "peer_run B rb (Arrives p # steps) =
     do { (rb, _) \<leftarrow> rb_Write B rb (Body p) (h_SeqNum (Header p)); peer_run B rb steps }"
| "peer_run B rb (Reads k # steps) =
     do { (rb, out) \<leftarrow> rb_Read rb (int k);
          (rb, outs) \<leftarrow> peer_run B rb steps;
          Some (rb, out @ outs) }"

fun step_op :: "peer_step \<Rightarrow> rb_op" where
  "step_op (Arrives p) = RWrite (h_SeqNum (Header p))"
| "step_op (Reads k) = RRead k"

lemma peer_run_ops:
  "(\<And>p. Arrives p \<in> set steps \<Longrightarrow> Body p = chunk (h_SeqNum (Header p)))
   \<Longrightarrow> peer_run B rb steps = rb_run B chunk rb (map step_op steps)"
proof (induction steps arbitrary: rb)
  case (Cons step steps)
  then have "peer_run B rb' steps = rb_run B chunk rb' (map step_op steps)" for rb' by simp
  then show ?case using Cons.prems by (cases step) simp_all
qed simp

text \<open>The stream that a list of payloads stands for.\<close>

definition payload_at :: "u16 \<Rightarrow> bytes list \<Rightarrow> u16 \<Rightarrow> bytes" where
  "payload_at n ds x = (if seq_index n x < length ds then ds ! seq_index n x else [])"

lemma stream_prefix_payloads: "k \<le> 65536 \<Longrightarrow> stream_prefix (payload_at n ds) n k = concat (take k ds)"
proof (induction k)
  case (Suc k)
  have "seq_index n (n + 1 + of_nat k) = k" using Suc.prems by (simp add: seq_index_def)
  then have "payload_at n ds (n + 1 + of_nat k) = concat (take 1 (drop k ds))"
    by (cases "k < length ds") (simp_all add: payload_at_def Cons_nth_drop_Suc [symmetric])
  moreover have "stream_prefix (payload_at n ds) n (Suc k) = stream_prefix (payload_at n ds) n k @ payload_at n ds (n + 1 + of_nat k)"
    by (simp add: stream_prefix_def)
  moreover have "take (Suc k) ds = take k ds @ take 1 (drop k ds)" using take_add [of k 1 ds] by simp
  ultimately show ?case using Suc by (simp only: concat_append Suc_leD)
qed (simp add: stream_prefix_def)

lemma peer_run_prefix:
  assumes "recv_tree B invar" and "\<And>p. Arrives p \<in> set steps \<Longrightarrow> carried n ds p"
  shows "\<exists>rb outs. peer_run B (newReceiveBuffer B sz n) steps = Some (rb, outs)
     \<and> outs @ ready_bytes rb = concat (take (unat (rb_consumed rb)) ds)"
proof -
  have "peer_run B (newReceiveBuffer B sz n) steps
      = rb_run B (payload_at n ds) (newReceiveBuffer B sz n) (map step_op steps)"
    using assms(2) by (intro peer_run_ops) (simp add: carried_def payload_at_def)
  moreover obtain rb outs where "rb_run B (payload_at n ds) (newReceiveBuffer B sz n) (map step_op steps) = Some (rb, outs)"
    and s: "rb_stream B (payload_at n ds) ([] @ outs) rb" and init: "rb_initSeqNum rb = rb_initSeqNum (newReceiveBuffer B sz n)"
    using rb_run_stream [OF assms(1) recv_tree.new_inv [OF assms(1)]] by blast
  moreover have "outs @ ready_bytes rb = stream_prefix (payload_at n ds) n (unat (rb_consumed rb))"
    using s init by (simp add: rb_stream_def ready_bytes_def newReceiveBuffer_def)
  then have "outs @ ready_bytes rb = concat (take (unat (rb_consumed rb)) ds)"
    using stream_prefix_payloads [of "unat (rb_consumed rb)" n ds] unat_lt_65536 [of "rb_consumed rb"] by simp
  ultimately show ?thesis by auto
qed

end
