(* ===== verification/Handshake.thy ===== *)
theory Handshake
  imports Connection_Streams
begin

text \<open>
  The three steps that open a connection: the initiator sends its SYN, the acceptor answers with a
  STATE packet, the initiator takes the answer. What both ends hold afterwards, and that they agree.
\<close>

abbreviation open_chan :: errChan where
  "open_chan \<equiv> \<lparr>ch_sent = [], ch_closed = False\<rparr>"

lemma initiator_started:
  fixes E E' :: "('t, 'l) conn_env" and cid :: "'p ConnectionId"
  assumes cfg: "conn_config_ok config"
  shows "\<exists>a0 a. newConnection E cid config None ch = Some a0 \<and> loop_start E' a0 = Some a
     \<and> c_socketEvents a = [newOutgoingSocketEvent (synPacket E' a0 (e_rand E)) (CidPeer cid)]
     \<and> c_state a = NewConnState ch \<and> c_cid a = cid \<and> c_config a = config \<and> c_cid a0 = cid
     \<and> c_endpoint a = \<lparr>ep_Type = Initiator, ep_SynNum = e_rand E, ep_SynAck = 0, ep_Attempts = 1\<rparr>"
proof -
  note new = conn_lists.newConnection_ok [OF cfg]
  let ?i = "go_quot (cc_InitialTimeout config) 4" and ?n = "e_rand E"
  have i: "0 < ?i" "0 \<le> cc_InitialTimeout config" using config_bounds(1) [OF cfg] by (simp_all add: go_quot_def)
  obtain w :: "(u16, packet) timeWheel" where w: "newTimeWheel ?i 8 = Some w" "tw_wf w"
    using wheel_new [OF i(1)] by (metis zero_less_numeral)
  obtain a0 :: "('t, 'l, 'p) connection" where a0: "newConnection E cid config None ch = Some a0" "c_unacked a0 = w"
    "c_state a0 = NewConnState ch" "c_cid a0 = cid" "c_config a0 = config" "c_socketEvents a0 = []"
    "c_endpoint a0 = \<lparr>ep_Type = Initiator, ep_SynNum = ?n, ep_SynAck = 0, ep_Attempts = 0\<rparr>"
    by (simp add: newConnection_def w(1))
  obtain w' where "tw_put w ?n (synPacket E' a0 ?n) (cc_InitialTimeout config) = Some w'"
    using wheel_put [OF w(2) i(2), of ?n "synPacket E' a0 ?n"] by blast
  then show ?thesis using a0 by (simp add: loop_start_def Let_def)
qed

text \<open>The STATE packet that answers a SYN.\<close>

definition syn_ack :: "('t, 'l) conn_env \<Rightarrow> 'p ConnectionId \<Rightarrow> ConnectionConfig \<Rightarrow> u16 \<Rightarrow> u16 \<Rightarrow> u32 \<Rightarrow> packet" where
  "syn_ack E cid config synNum synAck tsDiff =
     Build (WithAckNum synNum (WithTsDiffMicros tsDiff
       (NewPacketBuilder st_state (cid_Send cid) (NowMicro (e_now E 0)) (cc_WindowSize config) synAck)))"

lemma acceptor_started:
  fixes E E' :: "('t, 'l) conn_env" and cid :: "'p ConnectionId"
  assumes cfg: "conn_config_ok config"
  shows "\<exists>b0 b tsDiff. newConnection E cid config (Some syn) (Some open_chan) = Some b0 \<and> loop_start E' b0 = Some b
     \<and> c_socketEvents b
         = [newOutgoingSocketEvent (syn_ack E' cid config (h_SeqNum (Header syn)) (e_rand E) tsDiff) (CidPeer cid)]
     \<and> stateType (c_state b) = ConnConnected \<and> closing (c_state b) = None
     \<and> connectedCh (c_state b) = Some \<lparr>ch_sent = [None], ch_closed = False\<rparr>
     \<and> RecvBuf (c_state b)
         = Some (newReceiveBuffer (e_pending E') (nat (cc_BufferSize config)) (h_SeqNum (Header syn)))
     \<and> SentPackets (c_state b)
         = Some (newSentPackets (e_lost E') (e_rand E - 1) (newDefaultController (fromConnConfig config)))
     \<and> c_synState b \<noteq> None \<and> c_cid b = cid \<and> c_config b = config
     \<and> c_endpoint b = \<lparr>ep_Type = Acceptor, ep_SynNum = h_SeqNum (Header syn), ep_SynAck = e_rand E, ep_Attempts = 0\<rparr>
     \<and> SendBuf (c_state b) = Some (newSendBuffer (cc_BufferSize config)) \<and> c_pendingWrites b = []"
proof -
  have i: "0 < go_quot (cc_InitialTimeout config) 4" using config_bounds(1) [OF cfg] by (simp add: go_quot_def)
  obtain w :: "(u16, packet) timeWheel" where w: "newTimeWheel (go_quot (cc_InitialTimeout config) 4) 8 = Some w"
    using wheel_new [OF i] by (metis zero_less_numeral)
  have "0 \<le> cc_BufferSize config" using cfg by (simp add: conn_config_ok_def)
  then show ?thesis
    by (auto simp: newConnection_def w loop_start_def statePacket_def syn_ack_def make_recv_buffer_def
        NewConnState_def ch_send_def Let_def)
qed

lemma onAck_new:
  "onAck B C (newSentPackets B n cc) n sack d now = Some (newSentPackets B n cc,
     Inr (newCircularRangeInclusive n n, case sack of None \<Rightarrow> [] | Some s \<Rightarrow> selected_acks n s))"
  using Contains_SeqNumRange [of "newSentPackets B n cc" n]
  by (simp add: onAck_def newSentPackets_def SeqNumRange_def Start_def NextSeqNum_def Let_def)

context conn_trees
begin

lemma new_not_lost: "\<not> HasLostPackets BL (newSentPackets BL n cc)"
  using lost.Len [OF lost.New(2)] lost.New(1) by (simp add: HasLostPackets_def newSentPackets_def)

lemma syn_ack_accepted:
  assumes E: "env E" and cfg: "conn_config_ok (c_config a)" and st: "c_state a = NewConnState (Some open_chan)"
    and ep: "ep_Type (c_endpoint a) = Initiator" "ep_SynNum (c_endpoint a) = n"
  shows "\<exists>a'. onPacket E a (syn_ack F cid config n m d) now = Some a' \<and> stateType (c_state a') = ConnConnected
     \<and> connectedCh (c_state a') = Some \<lparr>ch_sent = [], ch_closed = True\<rparr>
     \<and> RecvBuf (c_state a') = Some (newReceiveBuffer BP (nat (cc_BufferSize (c_config a))) (m - 1))
     \<and> SentPackets (c_state a') = Some (newSentPackets BL n (newDefaultController (fromConnConfig (c_config a))))
     \<and> c_socketEvents a' = c_socketEvents a"
proof -
  let ?p = "syn_ack F cid config n m d"
  have p: "h_PacketType (Header ?p) = st_state" "h_SeqNum (Header ?p) = m" "h_AckNum (Header ?p) = n"
    "Body ?p = []" "Eack ?p = None" by (simp_all add: syn_ack_def Build_def builder_defs)
  have sz: "\<not> cc_BufferSize (c_config a) < 0" using cfg by (simp add: conn_config_ok_def)
  show ?thesis
    using st ep sz E new_not_lost [of n "newDefaultController (fromConnConfig (c_config a))"]
    by (simp add: onPacket_def Let_def dispatch_packet_def p st_defs onState_def make_recv_buffer_def NewConnState_def
        ch_close_def processAck_def onAck_new retransmitLostPackets_def answer_packet_def close_checks_def
        local_fin_def remote_fin_def)
qed

end

section \<open>Both ends\<close>

lemma plain_packets_ok: "packet_ok (synPacket E c n)" "packet_ok (syn_ack E cid config n m d)"
  unfolding synPacket_def syn_ack_def
  by (rule Build_packet_ok; simp add: builder_defs st_defs)+

lemma plain_packets_id:
  "h_ConnectionId (Header (synPacket E c n)) = cid_Recv (c_cid c)"
  "h_ConnectionId (Header (syn_ack E cid config n m d)) = cid_Send cid"
  by (simp_all add: synPacket_def syn_ack_def Build_def builder_defs)

lemma new_numbers_agree: "NextSeqNum (newSentPackets BL n cc) = rb_AckNum (newReceiveBuffer BP k n) + 1"
  by (simp add: newSentPackets_def newReceiveBuffer_def NextSeqNum_def rb_AckNum_def)

text \<open>
  C3. The handshake opens a connection both ends agree on. The SYN of a new initiator reaches the
  peer unchanged; the acceptor made from it is connected at once and sends one STATE packet, which
  reaches the initiator unchanged; taking it, the initiator is connected, tells the waiting caller by
  closing its channel, and sends nothing more. Then the next sequence number each end will use is
  the next one the other end expects.
\<close>

theorem handshake_agrees:
  assumes "conn_trees BP invarP BL invarL" and "conn_config_ok cfgA" and "conn_config_ok cfgB"
    and "e_pending EA' = BP" and "e_lost EA' = BL"
  shows "\<exists>a0 a syn b0 b ack a' spA rbA spB rbB.
       newConnection EA cidA cfgA None (Some open_chan) = Some a0 \<and> loop_start (later 1 EA) a0 = Some a
     \<and> c_socketEvents a = [newOutgoingSocketEvent syn (CidPeer cidA)] \<and> h_ConnectionId (Header syn) = cid_Recv cidA
     \<and> DecodePacket (packet_Encode syn) = Inr syn
     \<and> newConnection EB cidB cfgB (Some syn) (Some open_chan) = Some b0 \<and> loop_start (later 1 EB) b0 = Some b
     \<and> c_socketEvents b = [newOutgoingSocketEvent ack (CidPeer cidB)] \<and> h_ConnectionId (Header ack) = cid_Send cidB
     \<and> DecodePacket (packet_Encode ack) = Inr ack
     \<and> onPacket EA' a ack now = Some a' \<and> c_socketEvents a' = c_socketEvents a
     \<and> stateType (c_state a') = ConnConnected \<and> stateType (c_state b) = ConnConnected
     \<and> connectedCh (c_state a') = Some \<lparr>ch_sent = [], ch_closed = True\<rparr>
     \<and> connectedCh (c_state b) = Some \<lparr>ch_sent = [None], ch_closed = False\<rparr>
     \<and> SentPackets (c_state a') = Some spA \<and> RecvBuf (c_state b) = Some rbB \<and> NextSeqNum spA = rb_AckNum rbB + 1
     \<and> SentPackets (c_state b) = Some spB \<and> RecvBuf (c_state a') = Some rbA \<and> NextSeqNum spB = rb_AckNum rbA + 1"
proof -
  obtain a0 a where a: "newConnection EA cidA cfgA None (Some open_chan) = Some a0" "loop_start (later 1 EA) a0 = Some a"
    "c_socketEvents a = [newOutgoingSocketEvent (synPacket (later 1 EA) a0 (e_rand EA)) (CidPeer cidA)]"
    "c_state a = NewConnState (Some open_chan)" "c_config a = cfgA" "c_cid a0 = cidA"
    "c_endpoint a = \<lparr>ep_Type = Initiator, ep_SynNum = e_rand EA, ep_SynAck = 0, ep_Attempts = 1\<rparr>"
    using initiator_started [OF assms(2)] by blast
  let ?syn = "synPacket (later 1 EA) a0 (e_rand EA)"
  obtain b0 b d where b: "newConnection EB cidB cfgB (Some ?syn) (Some open_chan) = Some b0" "loop_start (later 1 EB) b0 = Some b"
    "c_socketEvents b = [newOutgoingSocketEvent (syn_ack (later 1 EB) cidB cfgB (e_rand EA) (e_rand EB) d) (CidPeer cidB)]"
    "stateType (c_state b) = ConnConnected" "connectedCh (c_state b) = Some \<lparr>ch_sent = [None], ch_closed = False\<rparr>"
    "RecvBuf (c_state b) = Some (newReceiveBuffer (e_pending (later 1 EB)) (nat (cc_BufferSize cfgB)) (e_rand EA))"
    "SentPackets (c_state b) = Some (newSentPackets (e_lost (later 1 EB)) (e_rand EB - 1) (newDefaultController (fromConnConfig cfgB)))"
    using acceptor_started [OF assms(3), of EB cidB ?syn "later 1 EB"] unfolding seq_synPacket by blast
  let ?ack = "syn_ack (later 1 EB) cidB cfgB (e_rand EA) (e_rand EB) d"
  have ep: "conn_config_ok (c_config a)" "ep_Type (c_endpoint a) = Initiator" "ep_SynNum (c_endpoint a) = e_rand EA"
    using a(5,7) assms(2) by simp_all
  note acc = conn_trees.syn_ack_accepted [OF assms(1) conjI [OF assms(4,5)] ep(1) a(4) ep(2,3)]
  obtain a' where a': "onPacket EA' a ?ack now = Some a'" "stateType (c_state a') = ConnConnected"
    "connectedCh (c_state a') = Some \<lparr>ch_sent = [], ch_closed = True\<rparr>"
    "RecvBuf (c_state a') = Some (newReceiveBuffer BP (nat (cc_BufferSize cfgA)) (e_rand EB - 1))"
    "SentPackets (c_state a') = Some (newSentPackets BL (e_rand EA) (newDefaultController (fromConnConfig cfgA)))"
    "c_socketEvents a' = c_socketEvents a"
    using acc [of "later 1 EB" cidB cfgB "e_rand EB" d now] unfolding a(5) by blast
  show ?thesis
    by (intro exI conjI; (rule a b a' new_numbers_agree | simp add: plain_packets_id packet_roundtrip plain_packets_ok a(6))?)
qed

theorem handshake_agrees_witness:
  "\<exists>a0 a b0 b a' syn ack. newConnection still_env still_cid small_config None (Some open_chan) = Some a0
     \<and> loop_start (later 1 still_env) a0 = Some a \<and> c_socketEvents a = [newOutgoingSocketEvent syn (CidPeer still_cid)]
     \<and> newConnection still_env still_cid small_config (Some syn) (Some open_chan) = Some b0
     \<and> loop_start (later 1 still_env) b0 = Some b \<and> c_socketEvents b = [newOutgoingSocketEvent ack (CidPeer still_cid)]
     \<and> onPacket still_env a ack 3 = Some a'
     \<and> stateType (c_state a') = ConnConnected \<and> stateType (c_state b) = ConnConnected"
  using handshake_agrees [OF conn_lists.conn_trees_axioms small_config_ok small_config_ok still_trees,
      of still_env still_cid still_env still_cid 3]
  by (elim exE conjE) (intro exI conjI; assumption)

end
