(* ===== verification/Connection_Faults.thy ===== *)
theory Connection_Faults
  imports Handshake
begin

text \<open>
  Where a connection (\<open>conn.go\<close>) does not do what it means to: the backoff of the SYN, the answer to
  a repeated SYN, and the close when both FINs are known.
\<close>

section \<open>The backoff of the SYN\<close>

text \<open>
  The waiting time between SYNs does not grow. From the second attempt on, the timeout that is
  meant to back off exceeds what the timing wheel can hold, and the wheel turns it into the shortest
  one: the SYN put back by \<open>onTimeout\<close> expires at the very next tick, a quarter of the initial timeout
  later.
\<close>

lemma syn_backoff_collapses:
  assumes "permutes_entries ord" and "conn_config_ok (c_config c)"
    and "stateType (c_state c) = ConnConnecting" and "ep_Type (c_endpoint c) = Initiator"
    and "1 \<le> ep_Attempts (c_endpoint c)" and "ep_Attempts (c_endpoint c) < cc_MaxConnAttempts (c_config c)"
    and "tw_wf (c_unacked c)" and "tw_slotNum (c_unacked c) = 8"
    and "tw_interval (c_unacked c) = go_quot (cc_InitialTimeout (c_config c)) 4"
  shows "\<exists>c' c''. onTimeout E c syn now = Some c' \<and> conn_tick ord c' = Some c'' \<and> syn \<in> set (c_unackTimeoutCh c'')"
proof -
  let ?a = "ep_Attempts (c_endpoint c) + 1" and ?n = "ep_SynNum (c_endpoint c)" and ?w = "c_unacked c"
  let ?d = "cc_InitialTimeout (c_config c) * backoff_factor ?a"
  note cfg = config_bounds [OF assms(2)] and wf = tw_wfD [OF assms(7)]
  note delay = backoff_delay [OF assms(2), of ?a]
  have d: "0 \<le> wrap64 ?d" "wrap64 ?d = ?d" using delay assms(5,6) by simp_all
  have "cc_InitialTimeout (c_config c) * 2 \<le> ?d"
    using backoff_bounds(3) [of ?a] assms(5,6) cfg by (intro mult_left_mono) simp_all
  moreover have "tw_maxDelay ?w \<le> cc_InitialTimeout (c_config c) * 2"
    using wf(5) assms(8,9) cfg(1) by (simp add: go_quot_def)
  ultimately have "min ?d (tw_maxDelay ?w) = 8 * tw_interval ?w" using wf(5) assms(8) by (simp add: min_def)
  then have wait: "tw_wait ?w (wrap64 ?d) = 0" using wf(1) assms(8) d(2) by (simp add: tw_wait_def)
  obtain w where w: "tw_put ?w ?n syn (wrap64 ?d) = Some w" "tw_wf w" "tw_left w = (tw_left ?w)(?n := (tw_left ?w ?n)(0 := Some syn))"
    using wheel.put_left [OF assms(7) d(1), of ?n syn] wait by auto
  obtain w' out where w': "tw_tick ord w = Some (w', out)" "set out = {(k, p). tw_left w k 0 = Some p}"
    using countdown.tick_left [OF wheel_countdown [OF assms(1)] w(2)] by blast
  have "(?n, syn) \<in> set out" using w'(2) w(3) by simp
  then have "syn \<in> set (map snd out)" by force
  then show ?thesis using assms(3-6) w(1) w'(1) by (auto simp: onTimeout_def conn_tick_def Let_def)
qed

lemma syn_backoff_collapses_instance:
  "\<exists>c' c''. onTimeout still_env (set_state (stateType_update (\<lambda>_. ConnConnecting))
       (sample_conn (newReceiveBuffer (list_BTree pendingItem_Less) 8 40) (newSendBuffer 8) None []))
         (synPacket still_env still_start 7) 0 = Some c'
     \<and> conn_tick (\<lambda>slot. slot) c' = Some c'' \<and> synPacket still_env still_start 7 \<in> set (c_unackTimeoutCh c'')"
proof (rule syn_backoff_collapses)
  show "conn_config_ok (c_config (set_state (stateType_update (\<lambda>_. ConnConnecting))
       (sample_conn (newReceiveBuffer (list_BTree pendingItem_Less) 8 40) (newSendBuffer 8) None [])))"
    by (simp add: small_config_ok)
qed (simp_all add: permutes_entries_def sample_conn_def small_config_def NewConnectionConfig_def tw_wf_def go_quot_def)

section \<open>A repeated SYN\<close>

text \<open>
  The answer to a SYN is sent once. An acceptor answers when it starts; if that STATE packet is
  lost, the initiator repeats its SYN, and the acceptor, which is already connected, sends nothing.
\<close>

lemma syn_answered_once:
  assumes "conn_trees BP invarP BL invarL" and "conn_config_ok config" and "e_lost E = BL" and "e_lost E' = BL"
    and "h_PacketType (Header again) = st_syn" and "h_SeqNum (Header again) = h_SeqNum (Header syn)"
  shows "\<exists>c0 c c'. newConnection E cid config (Some syn) (Some open_chan) = Some c0
     \<and> loop_start (later 1 E) c0 = Some c \<and> stateType (c_state c) = ConnConnected \<and> length (c_socketEvents c) = 1
     \<and> onPacket E' c again now = Some c' \<and> c_socketEvents c' = c_socketEvents c"
proof -
  obtain c0 c d where c: "newConnection E cid config (Some syn) (Some open_chan) = Some c0" "loop_start (later 1 E) c0 = Some c"
    "c_socketEvents c = [newOutgoingSocketEvent (syn_ack (later 1 E) cid config (h_SeqNum (Header syn)) (e_rand E) d) (CidPeer cid)]"
    "stateType (c_state c) = ConnConnected" "closing (c_state c) = None" "c_synState c \<noteq> None"
    "SentPackets (c_state c)
       = Some (newSentPackets (e_lost (later 1 E)) (e_rand E - 1) (newDefaultController (fromConnConfig config)))"
    "c_endpoint c = \<lparr>ep_Type = Acceptor, ep_SynNum = h_SeqNum (Header syn), ep_SynAck = e_rand E, ep_Attempts = 0\<rparr>"
    using acceptor_started [OF assms(2), of E cid syn "later 1 E"] by blast
  have "\<not> HasLostPackets BL (newSentPackets BL (e_rand E - 1) (newDefaultController (fromConnConfig config)))"
    by (rule conn_trees.new_not_lost [OF assms(1)])
  then have "\<exists>c'. onPacket E' c again now = Some c' \<and> c_socketEvents c' = c_socketEvents c"
    using c(4-8) assms(3-6)
    by (auto simp: onPacket_def Let_def dispatch_packet_def onSyn_def st_defs retransmitLostPackets_def answer_packet_def
        close_checks_def local_fin_def remote_fin_def)
  then show ?thesis using c(1-4) by auto
qed

lemma syn_answered_once_instance:
  "\<exists>c0 c c'. newConnection still_env still_cid small_config (Some (synPacket still_env still_start 7)) (Some open_chan) = Some c0
     \<and> loop_start (later 1 still_env) c0 = Some c \<and> stateType (c_state c) = ConnConnected \<and> length (c_socketEvents c) = 1
     \<and> onPacket still_env c (synPacket still_env still_start 7) 5 = Some c' \<and> c_socketEvents c' = c_socketEvents c"
  by (rule syn_answered_once [OF conn_lists.conn_trees_axioms small_config_ok still_trees(2) still_trees(2)])
    (simp_all add: synPacket_def Build_def builder_defs)

section \<open>Closing from both ends\<close>

text \<open>What the steps after the dispatch of a packet keep.\<close>

definition same_recv :: "('t, 'l, 'p) connection \<Rightarrow> ('t, 'l, 'p) connection \<Rightarrow> bool" where
  "same_recv c c' \<longleftrightarrow> stateType (c_state c') = stateType (c_state c) \<and> closing (c_state c') = closing (c_state c)
     \<and> RecvBuf (c_state c') = RecvBuf (c_state c) \<and> st_Err (c_state c') = st_Err (c_state c) \<and> c_reads c' = c_reads c"

lemma same_recv_refl: "same_recv c c"
  by (simp add: same_recv_def)

lemma same_recv_trans: "\<lbrakk> same_recv a b; same_recv b c \<rbrakk> \<Longrightarrow> same_recv a c"
  by (simp add: same_recv_def)

lemma transmit_same_recv: "transmit E c p now = Some c' \<Longrightarrow> same_recv c c'"
  by (auto simp: same_recv_def transmit_def Let_def bind_eq_Some_conv split: if_splits)

lemma retransmit_each_same_recv: "retransmit_each E t w d c now ls = Some c' \<Longrightarrow> same_recv c c'"
proof (induction ls arbitrary: c)
  case (Cons l ls)
  then obtain p c1 where "transmit E c p now = Some c1" "retransmit_each E t w d c1 now ls = Some c'"
    by (auto simp: bind_eq_Some_conv Let_def)
  then show ?case using transmit_same_recv Cons.IH same_recv_trans by blast
qed (simp add: same_recv_def)

lemma retransmitLost_same_recv: "retransmitLostPackets E c now = Some c' \<Longrightarrow> same_recv c c'"
  by (auto simp: retransmitLostPackets_def bind_eq_Some_conv split: if_splits intro: retransmit_each_same_recv
      same_recv_refl)

lemma answer_same_recv: "answer_packet E c p = Some c' \<Longrightarrow> same_recv c c'"
  by (auto simp: answer_packet_def same_recv_def bind_eq_Some_conv Let_def split: if_splits option.splits)

lemma processAck_same_recv:
  assumes "processAck E c n sack d now = Some (c', r)" and "SentPackets (c_state c) = Some sp"
    and "onAck (e_lost E) (e_ctrl E) sp n sack d now = Some (sp', res)" and "res \<noteq> Inl ErrInvalidAckNum"
  shows "same_recv c c'"
  using assms by (auto simp: processAck_def same_recv_def Let_def split: if_splits sum.splits prod.splits)

lemma close_checks_both:
  assumes "close_checks E c = Some c'" and "stateType (c_state c) = ConnConnected"
    and "closing (c_state c) = Some \<lparr>LocalFin = Some l, RemoteFin = Some f\<rparr>"
    and "RecvBuf (c_state c) = Some rb" and "rb_AckNum rb \<noteq> f"
  shows "c' = closed_with_nil c"
proof (cases "SentPackets (c_state c)")
  case None
  then show ?thesis using assms by (simp add: close_checks_def local_fin_def)
next
  case (Some sp)
  obtain x b where l: "LastAckNum sp = (x, b)" by (cases "LastAckNum sp")
  show ?thesis
    using assms Some by (cases "\<not> b \<and> x = l")
      (auto simp: close_checks_def local_fin_def remote_fin_def l closed_with_nil_def)
qed

text \<open>
  C31. A stream that both ends close can be cut short without an error. When this end has sent its
  own FIN and the FIN of the peer arrives, the connection closes with no error, even if data before
  the FIN is still missing, and nothing more is delivered to the reader.
\<close>

theorem fin_truncates:
  assumes "onPacket E c fin now = Some c'" and "h_PacketType (Header fin) = st_fin"
    and "stateType (c_state c) = ConnConnected" and "closing (c_state c) = Some \<lparr>LocalFin = Some l, RemoteFin = None\<rparr>"
    and "RecvBuf (c_state c) = Some rb"
    and "rb_Write (e_pending E) rb (Body fin) (h_SeqNum (Header fin)) = Some (rb', e)"
    and "rb_AckNum rb' \<noteq> h_SeqNum (Header fin)"
    and "SentPackets (c_state c) = Some sp" and "Eack fin = sack" and "h_AckNum (Header fin) = a"
    and "onAck (e_lost E) (e_ctrl E) sp a sack (uint (h_TimestampDiff (Header fin)) * 1000) now = Some (sp', res)"
    and "res \<noteq> Inl ErrInvalidAckNum"
  shows "stateType (c_state c') = ConnClosed \<and> st_Err (c_state c') = None \<and> c_reads c' = c_reads c
     \<and> RecvBuf (c_state c') = Some rb'"
proof -
  let ?ts = "1000 * UnixMicro (e_now E 0) - 1000 * uint (h_TimestampDiff (Header fin))"
  define c0 where "c0 = set_state (RecvBuf_update (\<lambda>_. Some rb'))
    (set_state (closing_update (\<lambda>_. Some \<lparr>LocalFin = Some l, RemoteFin = Some (h_SeqNum (Header fin))\<rparr>))
      (c\<lparr>c_peerRecvWindow := h_WndSize (Header fin),
         c_peerTsDiff := (if ?ts > cc_MaxIdleTimeout (c_config c) then 1000000000 else ?ts)\<rparr>))"
  obtain c1 c2 c3 r n where st: "processAck E c0 a sack (uint (h_TimestampDiff (Header fin)) * 1000) now = Some (c1, r)"
    "retransmitLostPackets (later 1 E) c1 now = Some c2" "answer_packet (later 2 E) c2 fin = Some c3"
    and chk: "close_checks E (c3\<lparr>c_readable := n\<rparr>) = Some c'"
    using assms(1-6,9,10)
    by (auto simp: onPacket_def dispatch_packet_def onFin_def st_defs Let_def bind_eq_Some_conv c0_def)
  have "SentPackets (c_state c0) = Some sp" using assms(8) by (simp add: c0_def)
  from processAck_same_recv [OF st(1) this assms(11,12)] retransmitLost_same_recv [OF st(2)] answer_same_recv [OF st(3)]
  have "same_recv c0 c3" by (blast intro: same_recv_trans)
  then have "same_recv c0 (c3\<lparr>c_readable := n\<rparr>)" by (simp add: same_recv_def)
  then have c: "stateType (c_state (c3\<lparr>c_readable := n\<rparr>)) = ConnConnected" "c_reads (c3\<lparr>c_readable := n\<rparr>) = c_reads c"
    "closing (c_state (c3\<lparr>c_readable := n\<rparr>)) = Some \<lparr>LocalFin = Some l, RemoteFin = Some (h_SeqNum (Header fin))\<rparr>"
    "RecvBuf (c_state (c3\<lparr>c_readable := n\<rparr>)) = Some rb'"
    using assms(3) by (simp_all add: same_recv_def c0_def)
  show ?thesis using close_checks_both [OF chk c(1,3,4) assms(7)] c(2,4) by (simp add: closed_with_nil_def)
qed

text \<open>A FIN numbered 45 reaches an end that has everything up to 40 and has sent its own FIN.\<close>

definition early_fin :: packet where
  "early_fin = Build (WithAckNum 7 (NewPacketBuilder st_fin 101 0 1000 45))"

lemma early_fin_fields [simp]:
  "h_PacketType (Header early_fin) = st_fin" "h_SeqNum (Header early_fin) = 45" "h_AckNum (Header early_fin) = 7"
  "Body early_fin = []" "Eack early_fin = None" "h_TimestampDiff (Header early_fin) = 0"
  by (simp_all add: early_fin_def Build_def builder_defs)

theorem fin_truncates_witness:
  "\<exists>c'. onPacket still_env (sample_conn (newReceiveBuffer (list_BTree pendingItem_Less) 8 40) (newSendBuffer 8)
       (Some \<lparr>LocalFin = Some 8, RemoteFin = None\<rparr>) []) early_fin 0 = Some c'
     \<and> stateType (c_state c') = ConnClosed \<and> st_Err (c_state c') = None \<and> c_reads c' = []"
proof -
  let ?rb = "newReceiveBuffer (list_BTree pendingItem_Less) 8 40" and ?cl = "\<lparr>LocalFin = Some 8, RemoteFin = None\<rparr>"
  let ?c = "sample_conn ?rb (newSendBuffer 8) (Some ?cl) []"
  have sb: "sb_inv (newSendBuffer 8)" by (rule newSendBuffer_inv) simp
  have "calm 0 ?c" using conn_lists.new_sent_ok(3,4) [OF small_config_ok] by (simp add: calm_def)
  then obtain c' where c': "onPacket still_env ?c early_fin 0 = Some c'"
    using conn_lists.onPacket_ok [OF sample_inv [OF pending_list.new_inv(1) sb] conjI [OF still_trees]] by blast
  have rb: "rb_Write (list_BTree pendingItem_Less) ?rb [] 45
      = Some (?rb\<lparr>rb_pending := [\<lparr>pi_seqNum = 45, pi_data = []\<rparr>]\<rparr>, None)"
    by code_simp
  show ?thesis
    using fin_truncates [OF c' early_fin_fields(1) sample_fields(1,4,2) _ _ sample_fields(5) refl refl] rb c'
    by (auto simp: onAck_new rb_AckNum_def newReceiveBuffer_def)
qed

end
