(* ===== verification/Delay_Map.thy ===== *)
theory Delay_Map
  imports Utp_Prelude "HOL-Library.AList"
begin

text \<open>
  \<^verbatim>\<open>delay_map.go\<close>: a map whose entries expire, each by a timer of its own. A timer is a number; the timers
  that run are the list \<open>dm_timers\<close>, with the time each fires at and the item it delivers. \<open>dm_fire\<close> lets
  time pass: every timer that is due sends its item to \<open>itemTimeoutCh\<close>, in the order of their times. The
  map is an association list. The flag \<open>shouldLock\<close>, which no code sets, is left out.
\<close>

record ('k, 'p) delayItem =
  di_Item :: 'p
  di_Key :: 'k
  di_timer :: nat

record ('k, 'p) delayMap =
  dm_inner :: "('k \<times> ('k, 'p) delayItem) list"
  dm_timers :: "(nat \<times> time \<times> ('k, 'p) delayItem) list"
  dm_next :: nat
  dm_timeoutCh :: "('k, 'p) delayItem list"

definition newDelayMap :: "('k, 'p) delayMap" where
  "newDelayMap = \<lparr>dm_inner = [], dm_timers = [], dm_next = 0, dm_timeoutCh = []\<rparr>"

definition dm_put :: "time \<Rightarrow> 'k \<Rightarrow> 'p \<Rightarrow> duration \<Rightarrow> ('k, 'p) delayMap \<Rightarrow> ('k, 'p) delayMap" where
  "dm_put now key v timeout m =
     (let item = \<lparr>di_Item = v, di_Key = key, di_timer = dm_next m\<rparr>
      in m\<lparr>dm_inner := AList.update key item (dm_inner m),
           dm_timers := dm_timers m @ [(dm_next m, now + timeout, item)], dm_next := dm_next m + 1\<rparr>)"

text \<open>A key that is not in the map gives a nil item, whose field cannot be read.\<close>

definition dm_get :: "'k \<Rightarrow> ('k, 'p) delayMap \<Rightarrow> 'p go" where
  "dm_get key m = map_option di_Item (map_of (dm_inner m) key)"

definition dm_remove :: "'k \<Rightarrow> ('k, 'p) delayMap \<Rightarrow> ('k, 'p) delayMap" where
  "dm_remove key m =
     (let m = (case map_of (dm_inner m) key of
                 Some item \<Rightarrow> m\<lparr>dm_timers := filter (\<lambda>(t, _). t \<noteq> di_timer item) (dm_timers m)\<rparr>
               | None \<Rightarrow> m)
      in m\<lparr>dm_inner := AList.delete key (dm_inner m)\<rparr>)"

definition dm_retain :: "('k \<Rightarrow> bool) \<Rightarrow> ('k, 'p) delayMap \<Rightarrow> ('k, 'p) delayMap" where
  "dm_retain shouldRemove m = fold (\<lambda>k m. if shouldRemove k then dm_remove k m else m) (map fst (dm_inner m)) m"

definition dm_keys :: "('k, 'p) delayMap \<Rightarrow> 'k list" where
  "dm_keys m = map fst (dm_inner m)"

definition dm_fire :: "time \<Rightarrow> ('k, 'p) delayMap \<Rightarrow> ('k, 'p) delayMap" where
  "dm_fire now m =
     m\<lparr>dm_timers := filter (\<lambda>(_, t, _). now < t) (dm_timers m),
       dm_timeoutCh := dm_timeoutCh m
         @ map (\<lambda>(_, _, item). item) (sort_key (\<lambda>(_, t, _). t) (filter (\<lambda>(_, t, _). t \<le> now) (dm_timers m)))\<rparr>"

section \<open>Timers\<close>

text \<open>Timers have different numbers, and the item of every key of the map is numbered below \<open>dm_next\<close>.\<close>

definition dm_inv :: "('k, 'p) delayMap \<Rightarrow> bool" where
  "dm_inv m \<longleftrightarrow> distinct (map fst (dm_timers m)) \<and> (\<forall>(t, _) \<in> set (dm_timers m). t < dm_next m)
     \<and> distinct (map fst (dm_inner m)) \<and> (\<forall>(_, item) \<in> set (dm_inner m). di_timer item < dm_next m)"

lemma update_entries: "set (AList.update k v m) \<subseteq> insert (k, v) (set m)"
  by (induction m) auto

lemma dm_put_inv: "dm_inv m \<Longrightarrow> dm_inv (dm_put now key v timeout m)"
  using update_entries [of key _ "dm_inner m"]
  by (fastforce simp: dm_inv_def dm_put_def Let_def distinct_update)

text \<open>A removed key neither stays in the map nor delivers the item it had.\<close>

lemma dm_remove_stops:
  assumes "dm_inv m" and "map_of (dm_inner m) key = Some item"
  shows "dm_get key (dm_remove key m) = None"
    and "\<forall>(t, _, _) \<in> set (dm_timers (dm_remove key m)). t \<noteq> di_timer item"
  using assms by (auto simp: dm_remove_def dm_get_def delete_conv')

text \<open>
  A second \<open>put\<close> for a key does not stop the timer of the first: the item that was replaced is still
  delivered when its time comes, and removing the key does not prevent it either.
\<close>

lemma replaced_item_fires:
  assumes "dm_inv m" and "item = \<lparr>di_Item = v, di_Key = key, di_timer = dm_next m\<rparr>" and "now + timeout \<le> later"
  shows "item \<in> set (dm_timeoutCh (dm_fire later (dm_remove key (dm_put now' key v' timeout' (dm_put now key v timeout m)))))"
  using assms by (auto simp: dm_fire_def dm_remove_def dm_put_def Let_def update_conv' dm_inv_def image_iff)

end
