(* ===== verification/Stream.thy ===== *)
theory Stream
  imports Connection_Streams
begin

text \<open>
  \<^verbatim>\<open>stream.go\<close>: what an application holds of a connection. A \<open>UtpStream\<close> has the two channels it shares
  with the event loop and the connection, whose list \<open>c_reads\<close> is the channel \<open>reads\<close>. A \<open>select\<close> takes
  whichever case is ready, so a call of \<open>ReadToEOF\<close> or \<open>Write\<close> is run on the cases that its \<open>select\<close>
  statements took; a call whose list of cases is used up is still waiting. The errors of the
  contexts are part of the cases; a context is the number \<open>us_ctx\<close>, the parent of the stream's own, and
  \<open>us_done\<close> says that the stream's own has been cancelled. Logging and the lock that makes readers take turns are left out.
\<close>

section \<open>Streams\<close>

record ('t, 'l, 'p) UtpStream =
  us_ctx :: nat
  us_cid :: "'p ConnectionId"
  us_chans :: streamChans
  us_conn :: "('t, 'l, 'p) connection"
  us_done :: bool
  us_closed :: bool

definition NewUtpStream ::
  "('t, 'l) conn_env \<Rightarrow> nat \<Rightarrow> 'p ConnectionId \<Rightarrow> ConnectionConfig \<Rightarrow> packet option \<Rightarrow> errChan option
     \<Rightarrow> ('t, 'l, 'p) UtpStream go" where
  "NewUtpStream E ctx cid config syn connCh = do {
     conn \<leftarrow> newConnection E cid config syn connCh;
     Some \<lparr>us_ctx = ctx, us_cid = cid, us_chans = \<lparr>st_streamEvents = [], st_writes = [], st_shutdown = False\<rparr>,
           us_conn = conn, us_done = False, us_closed = False\<rparr>
   }"

definition UtpStream_Cid :: "('t, 'l, 'p) UtpStream \<Rightarrow> 'p ConnectionId" where
  "UtpStream_Cid s = us_cid s"

section \<open>Reading\<close>

datatype read_case =
  ReadCtxDone goerr | ReadStreamDone goerr | ReadClosed | ReadResult readOrWriteResult

text \<open>
  The result is the length, the error and what the caller's buffer holds; \<open>Some None\<close> is a call that
  still waits. \<open>data\<close> is what has been read so far, and \<open>buf\<close> what the caller's buffer holds.
\<close>

fun read_loop :: "read_case list \<Rightarrow> int \<Rightarrow> bytes \<Rightarrow> bytes \<Rightarrow> (int \<times> goerr option \<times> bytes) option go" where
  "read_loop [] n data buf = Some None"
| "read_loop (ReadCtxDone e # rest) n data buf = Some (Some (n, Some e, buf))"
| "read_loop (ReadStreamDone e # rest) n data buf = Some (Some (0, Some e, buf))"
| "read_loop (ReadClosed # rest) n data buf = Some (Some (n, None, buf))"
| "read_loop (ReadResult res # rest) n data buf =
     (if length (res_Data res) = 0 then Some (Some (n, res_Err res, buf))
      else do {
        chunk \<leftarrow> go_slice 0 (res_Len res) (res_Data res);
        let n = n + res_Len res;
        let data = data @ chunk;
        read_loop rest n data data
      })"

definition ReadToEOF :: "read_case list \<Rightarrow> bytes \<Rightarrow> (int \<times> goerr option \<times> bytes) option go" where
  "ReadToEOF cases buf = read_loop cases 0 [] buf"

section \<open>Writing and closing\<close>

text \<open>The case of the first \<open>select\<close> of \<open>Write\<close>, then the one of the second.\<close>

datatype send_case = WriteSent | SendCtxDone goerr

datatype wait_case = WriteResult "readOrWriteResult option" | WaitCtxDone goerr | WaitStreamDone goerr

definition UtpStream_Write ::
  "('t, 'l, 'p) UtpStream \<Rightarrow> bytes \<Rightarrow> nat \<Rightarrow> send_case \<Rightarrow> wait_case
     \<Rightarrow> ('t, 'l, 'p) UtpStream \<times> int \<times> goerr option" where
  "UtpStream_Write s buf resCh send wait =
     (if st_shutdown (us_chans s) then (s, 0, Some ErrNotConnected)
      else
        case send of
          SendCtxDone e \<Rightarrow> (s, 0, Some e)
        | WriteSent \<Rightarrow>
            let s = s\<lparr>us_chans := (us_chans s)\<lparr>st_writes := st_writes (us_chans s)
                        @ [\<lparr>qw_data = buf, qw_written = 0, qw_resultCh = resCh\<rparr>]\<rparr>\<rparr>
            in (case wait of
                  WriteResult (Some res) \<Rightarrow> (s, res_Len res, res_Err res)
                | WriteResult None \<Rightarrow> (s, 0, None)
                | WaitCtxDone e \<Rightarrow> (s, 0, Some e)
                | WaitStreamDone e \<Rightarrow> (s, 0, Some e)))"

text \<open>
  \<open>Close\<close> asks the event loop to shut down; when the loop has returned, it cancels the context of the
  stream. Only the first call does anything.
\<close>

definition UtpStream_Close :: "('t, 'l, 'p) UtpStream \<Rightarrow> ('t, 'l, 'p) UtpStream" where
  "UtpStream_Close s =
     (if us_closed s then s
      else s\<lparr>us_chans := (us_chans s)\<lparr>st_shutdown := True\<rparr>, us_closed := True\<rparr>)"

definition Close_returned :: "('t, 'l, 'p) UtpStream \<Rightarrow> ('t, 'l, 'p) UtpStream" where
  "Close_returned s = s\<lparr>us_done := True\<rparr>"

section \<open>Reading to the end\<close>

lemma read_loop_segments:
  assumes "\<And>d. d \<in> set ds \<Longrightarrow> d \<noteq> [] \<and> length d \<le> m"
  shows "read_loop (map (ReadResult \<circ> read_result m) ds @ rest) n data buf
     = read_loop rest (n + int (length (concat ds))) (data @ concat ds) (if ds = [] then buf else data @ concat ds)"
  using assms
proof (induction ds arbitrary: n data buf)
  case (Cons d ds)
  have d: "d \<noteq> []" "length d \<le> m" using Cons.prems by simp_all
  then have "go_slice 0 (int (length d)) (d @ replicate (m - length d) 0) = Some d" by (simp add: go_slice_def)
  then have "read_loop (map (ReadResult \<circ> read_result m) (d # ds) @ rest) n data buf
      = read_loop (map (ReadResult \<circ> read_result m) ds @ rest) (n + int (length d)) (data @ d) (data @ d)"
    using d(1) by (simp add: read_result_def Let_def)
  also have "\<dots> = read_loop rest (n + int (length d) + int (length (concat ds))) ((data @ d) @ concat ds)
      (if ds = [] then data @ d else (data @ d) @ concat ds)"
    by (rule Cons.IH) (simp add: Cons.prems)
  finally show ?case by (cases "ds = []") (simp_all only: concat.simps append_assoc append_Nil2 length_append of_nat_add
      add.assoc list.distinct if_True if_False if_cancel list.size of_nat_0 add_0_right semiring_1_class.of_nat_simps(1))
qed simp

lemma segments_concat: "0 < m \<Longrightarrow> concat (segments m xs) = xs"
  by (induction m xs rule: segments.induct) (subst segments.simps, auto)

lemma segments_parts: "d \<in> set (segments m xs) \<Longrightarrow> d \<noteq> [] \<and> length d \<le> m"
proof (induction m xs rule: segments.induct)
  case (1 m xs)
  then show ?case by (cases "m = 0 \<or> xs = []") (auto simp: segments.simps [of m xs])
qed



end
