(* ===== verification/Sync_Map.thy ===== *)
theory Sync_Map
  imports Utp_Prelude "HOL-Library.AList"
begin

text \<open>
  \<^verbatim>\<open>sync_map.go\<close>: a Go map behind a mutex, which makes each operation atomic. The map is an association
  list with at most one entry for a key. Go does not specify the order in which a map is visited, so
  \<open>sm_Range\<close> visits the entries in the order \<open>ord\<close> gives them, a parameter that permutes its argument.
\<close>

type_synonym ('k, 'v) syncMap = "('k \<times> 'v) list"

definition newSyncMap :: "('k, 'v) syncMap" where
  "newSyncMap = []"

definition sm_get :: "'k \<Rightarrow> ('k, 'v) syncMap \<Rightarrow> 'v option" where
  "sm_get key m = map_of m key"

definition sm_put :: "'k \<Rightarrow> 'v \<Rightarrow> ('k, 'v) syncMap \<Rightarrow> ('k, 'v) syncMap" where
  "sm_put key v m = AList.update key v m"

definition sm_remove :: "'k \<Rightarrow> ('k, 'v) syncMap \<Rightarrow> ('k, 'v) syncMap" where
  "sm_remove key m = AList.delete key m"

text \<open>The callback of \<open>Range\<close> changes what it captures, the state \<open>s\<close>, and says whether to go on.\<close>

fun range_loop :: "('k \<Rightarrow> 'v \<Rightarrow> 's \<Rightarrow> 's \<times> bool) \<Rightarrow> ('k \<times> 'v) list \<Rightarrow> 's \<Rightarrow> 's" where
  "range_loop f [] s = s"
| "range_loop f ((k, v) # rest) s = (let (s, continue) = f k v s in if continue then range_loop f rest s else s)"

definition sm_Range ::
  "(('k \<times> 'v) list \<Rightarrow> ('k \<times> 'v) list) \<Rightarrow> ('k \<Rightarrow> 'v \<Rightarrow> 's \<Rightarrow> 's \<times> bool) \<Rightarrow> ('k, 'v) syncMap \<Rightarrow> 's \<Rightarrow> 's" where
  "sm_Range ord f m s = range_loop f (ord m) s"

text \<open>The laws of a map, as its clients use them.\<close>

locale key_store =
  fixes get :: "'k \<Rightarrow> 'm \<Rightarrow> 'v option" and put :: "'k \<Rightarrow> 'v \<Rightarrow> 'm \<Rightarrow> 'm" and remove :: "'k \<Rightarrow> 'm \<Rightarrow> 'm" and new :: 'm
  assumes get_new: "get k new = None"
    and get_put: "get k (put k' v m) = (if k = k' then Some v else get k m)"
    and get_remove: "get k (remove k' m) = (if k = k' then None else get k m)"
    and remove_put: "get k m = None \<Longrightarrow> remove k (put k v m) = m"
begin

lemma put_visible: "get k (put k v m) = Some v"
  by (simp add: get_put)

lemma removed: "get k (remove k m) = None"
  by (simp add: get_remove)

lemma replaced: "get k (put k w (put k v m)) = Some w"
  by (simp add: get_put)

end

lemma delete_update_absent: "map_of m k = None \<Longrightarrow> AList.delete k (AList.update k v m) = m"
  by (induction m) (auto simp: AList.delete_eq split: if_splits)

interpretation sync_map: key_store sm_get sm_put sm_remove newSyncMap
  by unfold_locales
    (simp_all add: sm_get_def sm_put_def sm_remove_def newSyncMap_def update_conv' delete_conv' delete_update_absent)

end
