(* ===== verification/Socket.thy ===== *)
theory Socket
  imports Stream Sync_Map Handshake
begin

text \<open>
  \<^verbatim>\<open>utp_socket.go\<close>: one UDP socket and the streams that share it. The state is the record \<open>UtpSocket\<close>.
  A channel of stream events is a number, and \<open>so_queue\<close> says what it holds; the other channels are
  lists of what is in them, or, where the socket only sends, of what has been sent. A goroutine that
  waits for a connection is an entry of \<open>so_started\<close>. The mutex \<open>connsMutex\<close> makes each use of the map
  \<open>conns\<close> atomic.

  The environment \<open>K\<close> has what is outside the sources: the digest and the hash of a peer (as in \<open>Cid\<close>), and
  the environment of the connections that are made. The orders in which Go visits a map are
  parameters. Contexts are numbers, 0 that of the socket. Logging is left out; so is the network
  connection itself, whose reads and writes are the arguments and results of the two loops.
\<close>

section \<open>State\<close>

record ('t, 'l, 'p) sock_env =
  k_sum256 :: "bytes \<Rightarrow> bytes"
  k_PeerHash :: "'p \<Rightarrow> string"
  k_conn :: "('t, 'l) conn_env"

record ('t, 'l, 'p) StreamResult =
  sr_stream :: "('t, 'l, 'p) UtpStream option"
  sr_err :: "goerr option"

record 'p Accept =
  acc_ctx :: nat
  acc_stream :: nat
  acc_config :: ConnectionConfig
  acc_cid :: "'p ConnectionId option"
  acc_hasCid :: bool

record 'p IncomingPacketRaw =
  raw_peer :: 'p
  raw_payload :: bytes

record 'p IncomingPacket =
  ip_pkt :: packet
  ip_cid :: "'p ConnectionId"

text \<open>A started stream: its channel of events, the stream, and the request that waits for it, if any.\<close>

record ('t, 'l, 'p) started =
  sd_events :: nat
  sd_stream :: "('t, 'l, 'p) UtpStream"
  sd_accept :: "'p Accept option"

record ('t, 'l, 'p) UtpSocket =
  so_cancelled :: bool
  so_conns :: "(string, nat) syncMap"
  so_queue :: "nat \<Rightarrow> streamEvent list"
  so_nextCh :: nat
  so_accepts :: "'p Accept list"
  so_acceptsWithCid :: "'p Accept list"
  so_socketEvents :: "'p socketEvent list"
  so_awaiting :: "(string, 'p Accept) syncMap"
  so_awaitingExpirations :: "(string, 'p Accept) timeWheel"
  so_incomingConns :: "(string, 'p IncomingPacket) syncMap"
  so_incomingExpirations :: "(string, 'p IncomingPacket) timeWheel"
  so_incomingBuf :: "'p IncomingPacketRaw list"
  so_started :: "('t, 'l, 'p) started list"
  so_results :: "(nat \<times> ('t, 'l, 'p) StreamResult) list"
  so_sent :: "(bytes \<times> 'p) list"

definition AWAITING_CONNECTION_TIMEOUT :: duration where
  "AWAITING_CONNECTION_TIMEOUT = 20000000000"

definition WithSocket :: "('t, 'l, 'p) UtpSocket go" where
  "WithSocket = do {
     awaitExpirations \<leftarrow> newTimeWheel 2000000000 20;
     incomingExpirations \<leftarrow> newTimeWheel 2000000000 20;
     Some \<lparr>so_cancelled = False, so_conns = newSyncMap, so_queue = (\<lambda>_. []), so_nextCh = 0, so_accepts = [],
           so_acceptsWithCid = [], so_socketEvents = [], so_awaiting = newSyncMap,
           so_awaitingExpirations = awaitExpirations, so_incomingConns = newSyncMap,
           so_incomingExpirations = incomingExpirations, so_incomingBuf = [], so_started = [],
           so_results = [], so_sent = []\<rparr>
   }"

section \<open>The maps\<close>

definition getConnStream :: "string \<Rightarrow> ('t, 'l, 'p) UtpSocket \<Rightarrow> nat option" where
  "getConnStream key s = sm_get key (so_conns s)"

definition putConnStream :: "string \<Rightarrow> nat \<Rightarrow> ('t, 'l, 'p) UtpSocket \<Rightarrow> ('t, 'l, 'p) UtpSocket" where
  "putConnStream key streamCh s = s\<lparr>so_conns := sm_put key streamCh (so_conns s)\<rparr>"

definition removeConnStream :: "string \<Rightarrow> ('t, 'l, 'p) UtpSocket \<Rightarrow> ('t, 'l, 'p) UtpSocket" where
  "removeConnStream key s = s\<lparr>so_conns := sm_remove key (so_conns s)\<rparr>"

definition getAwaiting :: "string \<Rightarrow> ('t, 'l, 'p) UtpSocket \<Rightarrow> 'p Accept option" where
  "getAwaiting key s = sm_get key (so_awaiting s)"

definition putAwaiting :: "string \<Rightarrow> 'p Accept \<Rightarrow> ('t, 'l, 'p) UtpSocket \<Rightarrow> ('t, 'l, 'p) UtpSocket go" where
  "putAwaiting key acceptWithCid s = do {
     wheel \<leftarrow> tw_put (so_awaitingExpirations s) key acceptWithCid AWAITING_CONNECTION_TIMEOUT;
     Some (s\<lparr>so_awaiting := sm_put key acceptWithCid (so_awaiting s), so_awaitingExpirations := wheel\<rparr>)
   }"

definition removeAwaiting :: "string \<Rightarrow> ('t, 'l, 'p) UtpSocket \<Rightarrow> ('t, 'l, 'p) UtpSocket" where
  "removeAwaiting key s =
     s\<lparr>so_awaiting := sm_remove key (so_awaiting s),
       so_awaitingExpirations := tw_remove key (so_awaitingExpirations s)\<rparr>"

definition putIncomingConn ::
  "string \<Rightarrow> 'p IncomingPacket \<Rightarrow> ('t, 'l, 'p) UtpSocket \<Rightarrow> ('t, 'l, 'p) UtpSocket go" where
  "putIncomingConn key incomingConn s = do {
     wheel \<leftarrow> tw_put (so_incomingExpirations s) key incomingConn AWAITING_CONNECTION_TIMEOUT;
     Some (s\<lparr>so_incomingConns := sm_put key incomingConn (so_incomingConns s), so_incomingExpirations := wheel\<rparr>)
   }"

definition removeIncomingConn ::
  "string \<Rightarrow> ('t, 'l, 'p) UtpSocket \<Rightarrow> ('t, 'l, 'p) UtpSocket \<times> 'p IncomingPacket option" where
  "removeIncomingConn key s =
     (case sm_get key (so_incomingConns s) of
        Some incomingConn \<Rightarrow>
          (s\<lparr>so_incomingConns := sm_remove key (so_incomingConns s),
             so_incomingExpirations := tw_remove key (so_incomingExpirations s)\<rparr>, Some incomingConn)
      | None \<Rightarrow> (s, None))"

definition nextIncomingConn ::
  "((string \<times> 'p IncomingPacket) list \<Rightarrow> (string \<times> 'p IncomingPacket) list)
     \<Rightarrow> ('t, 'l, 'p) UtpSocket \<Rightarrow> ('t, 'l, 'p) UtpSocket \<times> 'p IncomingPacket option" where
  "nextIncomingConn ord s =
     (let (cidHash, incomingAccept) =
        sm_Range ord (\<lambda>key accept _. ((key, Some accept), False)) (so_incomingConns s) ([], None)
      in if incomingAccept \<noteq> None then (fst (removeIncomingConn cidHash s), incomingAccept) else (s, None))"

definition NumConnections :: "('t, 'l, 'p) UtpSocket \<Rightarrow> nat" where
  "NumConnections s = length (so_conns s)"

text \<open>The handlers the timer wheels call for an entry whose time is up.\<close>

definition tick_awaiting ::
  "((string \<times> 'p Accept) list \<Rightarrow> (string \<times> 'p Accept) list) \<Rightarrow> ('t, 'l, 'p) UtpSocket \<Rightarrow> ('t, 'l, 'p) UtpSocket go" where
  "tick_awaiting ord s = do {
     (wheel, expired) \<leftarrow> tw_tick ord (so_awaitingExpirations s);
     Some (s\<lparr>so_awaitingExpirations := wheel,
             so_awaiting := fold (\<lambda>(key, _). sm_remove key) expired (so_awaiting s)\<rparr>)
   }"

definition tick_incoming ::
  "((string \<times> 'p IncomingPacket) list \<Rightarrow> (string \<times> 'p IncomingPacket) list) \<Rightarrow> ('t, 'l, 'p) UtpSocket
     \<Rightarrow> ('t, 'l, 'p) UtpSocket go" where
  "tick_incoming ord s = do {
     (wheel, expired) \<leftarrow> tw_tick ord (so_incomingExpirations s);
     Some (s\<lparr>so_incomingExpirations := wheel,
             so_incomingConns := fold (\<lambda>(key, _). sm_remove key) expired (so_incomingConns s)\<rparr>)
   }"

section \<open>Identifiers\<close>

datatype IdType = IdTypeRecvId | IdTypeSendIdWeInitiated | IdTypeSendIdPeerInitiated

definition cidTypes :: "IdType list" where
  "cidTypes = [IdTypeSendIdPeerInitiated, IdTypeSendIdWeInitiated, IdTypeRecvId]"

definition newCid :: "('t, 'l, 'p) sock_env \<Rightarrow> 'p \<Rightarrow> u16 \<Rightarrow> u16 \<Rightarrow> 'p ConnectionId" where
  "newCid K = NewConnectionId (k_sum256 K) (k_PeerHash K)"

definition CidFromPacket :: "('t, 'l, 'p) sock_env \<Rightarrow> packet \<Rightarrow> 'p \<Rightarrow> IdType \<Rightarrow> 'p ConnectionId" where
  "CidFromPacket K pkt src idType =
     (let ty = h_PacketType (Header pkt); i = h_ConnectionId (Header pkt);
          (send, recv) =
            (case idType of
               IdTypeRecvId \<Rightarrow>
                 if ty = st_syn then (i, i + 1)
                 else if ty = st_state \<or> ty = st_data \<or> ty = st_fin \<or> ty = st_reset then (i - 1, i)
                 else (0, 0)
             | IdTypeSendIdWeInitiated \<Rightarrow> (i + 1, i)
             | IdTypeSendIdPeerInitiated \<Rightarrow> (i, i - 1))
      in newCid K src recv send)"

text \<open>
  \<open>GenerateCid\<close> draws receive numbers until one is free; \<open>rands\<close> are the draws. It has no bound of its own:
  \<^const>\<open>None\<close> says that \<open>fuel\<close> draws did not give a free one.
\<close>

fun GenerateCid ::
  "nat \<Rightarrow> ('t, 'l, 'p) sock_env \<Rightarrow> (nat \<Rightarrow> u16) \<Rightarrow> 'p \<Rightarrow> bool \<Rightarrow> nat option \<Rightarrow> ('t, 'l, 'p) UtpSocket
     \<Rightarrow> (('t, 'l, 'p) UtpSocket \<times> 'p ConnectionId) option" where
  "GenerateCid 0 K rands peer isInitiator eventCh s = None"
| "GenerateCid (Suc fuel) K rands peer isInitiator eventCh s =
     (let recv = rands 0;
          send = (if isInitiator then recv + 1 else recv - 1);
          cid = newCid K peer recv send
      in if getConnStream (cid_hash cid) s = None
         then Some (case eventCh of None \<Rightarrow> s | Some ch \<Rightarrow> putConnStream (cid_hash cid) ch s, cid)
         else GenerateCid fuel K (\<lambda>i. rands (Suc i)) peer isInitiator eventCh s)"

definition UtpSocket_Cid ::
  "nat \<Rightarrow> ('t, 'l, 'p) sock_env \<Rightarrow> (nat \<Rightarrow> u16) \<Rightarrow> 'p \<Rightarrow> bool \<Rightarrow> ('t, 'l, 'p) UtpSocket \<Rightarrow> 'p ConnectionId option" where
  "UtpSocket_Cid fuel K rands peer isInitiator s = map_option snd (GenerateCid fuel K rands peer isInitiator None s)"

section \<open>Streams\<close>

text \<open>\<open>make(chan *streamEvent, 1000)\<close>\<close>

definition new_events :: "('t, 'l, 'p) UtpSocket \<Rightarrow> ('t, 'l, 'p) UtpSocket \<times> nat" where
  "new_events s = (s\<lparr>so_nextCh := so_nextCh s + 1, so_queue := (so_queue s)(so_nextCh s := [])\<rparr>, so_nextCh s)"

definition start_stream ::
  "('t, 'l, 'p) sock_env \<Rightarrow> nat \<Rightarrow> 'p ConnectionId \<Rightarrow> ConnectionConfig \<Rightarrow> packet option \<Rightarrow> nat \<Rightarrow> 'p Accept option
     \<Rightarrow> ('t, 'l, 'p) UtpSocket \<Rightarrow> (('t, 'l, 'p) UtpSocket \<times> ('t, 'l, 'p) UtpStream) go" where
  "start_stream K ctx cid config syn events accept s = do {
     let s = putConnStream (cid_hash cid) events s;
     stream \<leftarrow> NewUtpStream (k_conn K) ctx cid config syn (Some \<lparr>ch_sent = [], ch_closed = False\<rparr>);
     Some (s\<lparr>so_started := so_started s @ [\<lparr>sd_events = events, sd_stream = stream, sd_accept = accept\<rparr>]\<rparr>, stream)
   }"

definition answer_accept ::
  "'p Accept \<Rightarrow> ('t, 'l, 'p) StreamResult \<Rightarrow> ('t, 'l, 'p) UtpSocket \<Rightarrow> ('t, 'l, 'p) UtpSocket" where
  "answer_accept accept res s = s\<lparr>so_results := so_results s @ [(acc_stream accept, res)]\<rparr>"

text \<open>A receive from a channel: the value and whether there was one; \<^const>\<open>None\<close> while it has to wait.\<close>

definition ch_recv :: "errChan \<Rightarrow> (goerr option \<times> bool) option" where
  "ch_recv ch = (case ch_sent ch of e # _ \<Rightarrow> Some (e, True) | [] \<Rightarrow> if ch_closed ch then Some (None, False) else None)"

text \<open>\<open>awaitConnected\<close> once it has received; it reads \<open>accept.cid.Peer\<close>, for its log, on every path.\<close>

definition awaitConnected ::
  "('t, 'l, 'p) UtpStream \<Rightarrow> 'p Accept \<Rightarrow> goerr option \<times> bool \<Rightarrow> ('t, 'l, 'p) UtpSocket
     \<Rightarrow> ('t, 'l, 'p) UtpSocket go" where
  "awaitConnected stream accept received s = do {
     cid \<leftarrow> acc_cid accept;
     let (err, ok) = received;
     Some (answer_accept accept
       (if err = None \<and> ok then \<lparr>sr_stream = Some stream, sr_err = None\<rparr>
        else if err \<noteq> None then \<lparr>sr_stream = None, sr_err = Some (Errorf ''connection failed'')\<rparr>
        else \<lparr>sr_stream = None, sr_err = Some (Errorf ''connection aborted'')\<rparr>) s)
   }"

definition selectAcceptHelper ::
  "('t, 'l, 'p) sock_env \<Rightarrow> nat \<Rightarrow> 'p ConnectionId \<Rightarrow> packet \<Rightarrow> 'p Accept \<Rightarrow> ('t, 'l, 'p) UtpSocket
     \<Rightarrow> ('t, 'l, 'p) UtpSocket go" where
  "selectAcceptHelper K ctx cid syn accept s =
     (if getConnStream (cid_hash cid) s \<noteq> None
      then Some (answer_accept accept \<lparr>sr_stream = None, sr_err = Some (Errorf ''connection ID unavailable'')\<rparr> s)
      else
        let (s, streamEvents) = new_events s
        in map_option fst (start_stream K ctx cid (acc_config accept) (Some syn) streamEvents (Some accept) s))"

section \<open>The event loop\<close>

text \<open>The search of \<open>handleIncomingBuf\<close> for the connection of a packet.\<close>

fun find_conn ::
  "('t, 'l, 'p) sock_env \<Rightarrow> packet \<Rightarrow> 'p \<Rightarrow> IdType list \<Rightarrow> ('t, 'l, 'p) UtpSocket \<Rightarrow> nat option" where
  "find_conn K pkt src [] s = None"
| "find_conn K pkt src (cidType # rest) s =
     (case getConnStream (cid_hash (CidFromPacket K pkt src cidType)) s of
        Some connStream \<Rightarrow> Some connStream
      | None \<Rightarrow> find_conn K pkt src rest s)"

text \<open>The first SYN of a connection: a request may be waiting for it; if not, the SYN waits.\<close>

definition handle_syn ::
  "('t, 'l, 'p) sock_env \<Rightarrow> packet \<Rightarrow> 'p ConnectionId \<Rightarrow> ('t, 'l, 'p) UtpSocket \<Rightarrow> ('t, 'l, 'p) UtpSocket go" where
  "handle_syn K pkt cid s =
     (case getAwaiting (cid_hash cid) s of
        Some accept \<Rightarrow>
          let s = removeAwaiting (cid_hash cid) s;
              (s, newConnStream) = new_events s
          in map_option fst (start_stream K 0 cid (acc_config accept) (Some pkt) newConnStream (Some accept) s)
      | None \<Rightarrow> putIncomingConn (cid_hash cid) \<lparr>ip_pkt = pkt, ip_cid = cid\<rparr> s)"

definition handleIncomingBuf ::
  "('t, 'l, 'p) sock_env \<Rightarrow> 'p IncomingPacketRaw \<Rightarrow> ('t, 'l, 'p) UtpSocket \<Rightarrow> ('t, 'l, 'p) UtpSocket go" where
  "handleIncomingBuf K incomingRaw s =
     (case DecodePacket (raw_payload incomingRaw) of
        Inl err \<Rightarrow> Some s
      | Inr pkt \<Rightarrow>
          let src = raw_peer incomingRaw; ty = h_PacketType (Header pkt)
          in (case find_conn K pkt src cidTypes s of
               Some connStream \<Rightarrow>
                 if length (so_queue s connStream) < 1000
                 then Some (s\<lparr>so_queue := (so_queue s)(connStream := so_queue s connStream
                              @ [\<lparr>ev_Type = streamIncoming, ev_Packet = Some pkt\<rparr>])\<rparr>)
                 else Some s
             | None \<Rightarrow>
                 if ty \<noteq> st_syn then
                   (if ty \<noteq> st_reset
                    then let resetPacket = Build (NewPacketBuilder st_reset (h_ConnectionId (Header pkt))
                                             (NowMicro (e_now (k_conn K) 0)) 100000 (e_rand (k_conn K)))
                         in Some (s\<lparr>so_socketEvents := so_socketEvents s
                                     @ [newOutgoingSocketEvent resetPacket (PlainPeer src)]\<rparr>)
                    else Some s)
                 else handle_syn K pkt (CidFromPacket K pkt src IdTypeRecvId) s))"

text \<open>A request with an identifier; one without has no \<open>cid\<close> and would panic here.\<close>

definition handleNewAcceptWithCidEvent ::
  "('t, 'l, 'p) sock_env \<Rightarrow> 'p Accept \<Rightarrow> ('t, 'l, 'p) UtpSocket \<Rightarrow> ('t, 'l, 'p) UtpSocket go" where
  "handleNewAcceptWithCidEvent K acceptWithCid s = do {
     cid \<leftarrow> acc_cid acceptWithCid;
     let key = cid_hash cid;
     (case removeIncomingConn key s of
        (s, Some incomingConn) \<Rightarrow>
          selectAcceptHelper K (acc_ctx acceptWithCid) cid (ip_pkt incomingConn) acceptWithCid s
      | (s, None) \<Rightarrow> putAwaiting key acceptWithCid s)
   }"

definition handleNewAcceptEvent ::
  "('t, 'l, 'p) sock_env \<Rightarrow> ((string \<times> 'p IncomingPacket) list \<Rightarrow> (string \<times> 'p IncomingPacket) list)
     \<Rightarrow> 'p Accept \<Rightarrow> ('t, 'l, 'p) UtpSocket \<Rightarrow> ('t, 'l, 'p) UtpSocket go" where
  "handleNewAcceptEvent K ord accept s =
     (case nextIncomingConn ord s of
        (s, Some incomingAccept) \<Rightarrow>
          selectAcceptHelper K (acc_ctx accept) (ip_cid incomingAccept) (ip_pkt incomingAccept) accept s
      | (s, None) \<Rightarrow>
          Some (answer_accept accept \<lparr>sr_stream = None, sr_err = Some (Errorf ''no incoming conn'')\<rparr> s))"

text \<open>
  The cases of the two \<open>select\<close> statements of \<open>eventLoop\<close>: a packet is taken first, the others only when
  none waits. The result says whether the loop goes on.
\<close>

datatype socket_case = CasePacket | CaseAcceptWithCid | CaseAccept | CaseCancelled

fun socket_ready :: "socket_case \<Rightarrow> ('t, 'l, 'p) UtpSocket \<Rightarrow> bool" where
  "socket_ready CasePacket s \<longleftrightarrow> so_incomingBuf s \<noteq> []"
| "socket_ready CaseAcceptWithCid s \<longleftrightarrow> so_incomingBuf s = [] \<and> so_acceptsWithCid s \<noteq> []"
| "socket_ready CaseAccept s \<longleftrightarrow> so_incomingBuf s = [] \<and> so_accepts s \<noteq> []"
| "socket_ready CaseCancelled s \<longleftrightarrow> so_incomingBuf s = [] \<and> so_cancelled s"

definition socket_turn ::
  "('t, 'l, 'p) sock_env \<Rightarrow> ((string \<times> 'p IncomingPacket) list \<Rightarrow> (string \<times> 'p IncomingPacket) list)
     \<Rightarrow> socket_case \<Rightarrow> ('t, 'l, 'p) UtpSocket \<Rightarrow> (('t, 'l, 'p) UtpSocket \<times> bool) go" where
  "socket_turn K ord k s =
     (case k of
        CasePacket \<Rightarrow>
          map_option (\<lambda>s. (s, True))
            (handleIncomingBuf K (hd (so_incomingBuf s)) (s\<lparr>so_incomingBuf := tl (so_incomingBuf s)\<rparr>))
      | CaseAcceptWithCid \<Rightarrow>
          map_option (\<lambda>s. (s, True))
            (handleNewAcceptWithCidEvent K (hd (so_acceptsWithCid s)) (s\<lparr>so_acceptsWithCid := tl (so_acceptsWithCid s)\<rparr>))
      | CaseAccept \<Rightarrow>
          map_option (\<lambda>s. (s, True))
            (handleNewAcceptEvent K ord (hd (so_accepts s)) (s\<lparr>so_accepts := tl (so_accepts s)\<rparr>))
      | CaseCancelled \<Rightarrow> Some (s, False))"

section \<open>Reading and writing\<close>

text \<open>
  What \<open>ReadFrom\<close> returned: \<open>n\<close> bytes in the buffer and the sender, or an error, which is temporary or not
  (\<open>netutil.IsTemporaryError\<close>). The result says whether \<open>readLoop\<close> goes on.
\<close>

datatype 'p read_from = ReadFrom bytes 'p | ReadFailed bool

fun readLoop_step :: "'p read_from \<Rightarrow> ('t, 'l, 'p) UtpSocket \<Rightarrow> ('t, 'l, 'p) UtpSocket \<times> bool" where
  "readLoop_step (ReadFailed temporary) s = (s, temporary)"
| "readLoop_step (ReadFrom dstBuf from) s =
     (s\<lparr>so_incomingBuf := so_incomingBuf s @ [\<lparr>raw_peer = from, raw_payload = dstBuf\<rparr>]\<rparr>, True)"

text \<open>
  One event of \<open>writeLoop\<close>. The packet is handed to \<open>WriteTo\<close>, whose error is only logged. A plain peer
  is written to as it is, a connection identifier stands for its peer.
\<close>

definition writeLoop_step ::
  "('t, 'l, 'p) sock_env \<Rightarrow> 'p socketEvent \<Rightarrow> ('t, 'l, 'p) UtpSocket \<Rightarrow> ('t, 'l, 'p) UtpSocket go" where
  "writeLoop_step K event s =
     (case se_Type event of
        outgoing \<Rightarrow> do {
          pkt \<leftarrow> se_Packet event;
          let encoded = packet_Encode pkt;
          let peer = (case se_ConnectionId event of CidPeer cid \<Rightarrow> cid_Peer cid | PlainPeer p \<Rightarrow> p);
          Some (s\<lparr>so_sent := so_sent s @ [(encoded, peer)]\<rparr>)
        }
      | socketShutdown \<Rightarrow> Some (removeConnStream (peer_Hash (k_PeerHash K) (se_ConnectionId event)) s))"

section \<open>What the application calls\<close>

definition sendShutdownEventToConns :: "('t, 'l, 'p) UtpSocket \<Rightarrow> ('t, 'l, 'p) UtpSocket" where
  "sendShutdownEventToConns s =
     s\<lparr>so_queue := fold (\<lambda>(_, ch) q. q(ch := q ch @ [\<lparr>ev_Type = streamShutdown, ev_Packet = None\<rparr>]))
                     (so_conns s) (so_queue s)\<rparr>"

definition UtpSocket_Close :: "('t, 'l, 'p) UtpSocket \<Rightarrow> ('t, 'l, 'p) UtpSocket go" where
  "UtpSocket_Close s = do {
     let s = sendShutdownEventToConns (s\<lparr>so_cancelled := True\<rparr>);
     awaiting \<leftarrow> tw_stop (so_awaitingExpirations s);
     incoming \<leftarrow> tw_stop (so_incomingExpirations s);
     Some (s\<lparr>so_awaitingExpirations := awaiting, so_incomingExpirations := incoming\<rparr>)
   }"

text \<open>What a call of \<open>Accept\<close> or \<open>AcceptWithCid\<close> returns for what it received: a nil result, or a result.\<close>

datatype ('t, 'l, 'p) accept_case = AcceptResult "('t, 'l, 'p) StreamResult option" | AcceptCtxDone goerr

fun Accept_returns :: "('t, 'l, 'p) accept_case \<Rightarrow> ('t, 'l, 'p) UtpStream option \<times> goerr option" where
  "Accept_returns (AcceptResult None) = (None, Some (Errorf ''stream creation failed''))"
| "Accept_returns (AcceptResult (Some streamRes)) = (sr_stream streamRes, None)"
| "Accept_returns (AcceptCtxDone e) = (None, Some e)"

definition Accept_request :: "nat \<Rightarrow> nat \<Rightarrow> ConnectionConfig \<Rightarrow> ('t, 'l, 'p) UtpSocket \<Rightarrow> ('t, 'l, 'p) UtpSocket" where
  "Accept_request ctx ch config s =
     s\<lparr>so_accepts := so_accepts s
         @ [\<lparr>acc_ctx = ctx, acc_stream = ch, acc_config = config, acc_cid = None, acc_hasCid = False\<rparr>]\<rparr>"

definition AcceptWithCid_request ::
  "nat \<Rightarrow> nat \<Rightarrow> 'p ConnectionId \<Rightarrow> ConnectionConfig \<Rightarrow> ('t, 'l, 'p) UtpSocket \<Rightarrow> ('t, 'l, 'p) UtpSocket" where
  "AcceptWithCid_request ctx ch cid config s =
     s\<lparr>so_acceptsWithCid := so_acceptsWithCid s
         @ [\<lparr>acc_ctx = ctx, acc_stream = ch, acc_config = config, acc_cid = Some cid, acc_hasCid = True\<rparr>]\<rparr>"

text \<open>\<open>Connect\<close> and \<open>ConnectWithCid\<close> up to where they wait, and what they return for what they received.\<close>

definition Connect_open ::
  "nat \<Rightarrow> ('t, 'l, 'p) sock_env \<Rightarrow> (nat \<Rightarrow> u16) \<Rightarrow> nat \<Rightarrow> 'p \<Rightarrow> ConnectionConfig \<Rightarrow> ('t, 'l, 'p) UtpSocket
     \<Rightarrow> (('t, 'l, 'p) UtpSocket \<times> ('t, 'l, 'p) UtpStream) option" where
  "Connect_open fuel K rands ctx peer config s = do {
     let (s, streamEvents) = new_events s;
     (s, cid) \<leftarrow> GenerateCid fuel K rands peer True (Some streamEvents) s;
     start_stream K ctx cid config None streamEvents None s
   }"

datatype connect_case = ConnectedResult "goerr option \<times> bool" | ConnectCtxDone goerr

fun Connect_returns ::
  "('t, 'l, 'p) UtpStream \<Rightarrow> connect_case \<Rightarrow> ('t, 'l, 'p) UtpStream option \<times> goerr option" where
  "Connect_returns stream (ConnectedResult (err, ok)) =
     (if ok \<and> err = None then (Some stream, None)
      else if err \<noteq> None then (None, err)
      else (None, Some (Errorf ''connection timed out'')))"
| "Connect_returns stream (ConnectCtxDone e) = (None, Some e)"

definition ConnectWithCid_open ::
  "('t, 'l, 'p) sock_env \<Rightarrow> nat \<Rightarrow> 'p ConnectionId \<Rightarrow> ConnectionConfig \<Rightarrow> ('t, 'l, 'p) UtpSocket
     \<Rightarrow> (('t, 'l, 'p) UtpSocket \<times> (goerr + ('t, 'l, 'p) UtpStream)) go" where
  "ConnectWithCid_open K ctx cid config s =
     (if getConnStream (cid_hash cid) s \<noteq> None then Some (s, Inl (Errorf ''connection ID unavailable''))
      else
        let (s, streamEvents) = new_events s
        in map_option (\<lambda>(s, stream). (s, Inr stream)) (start_stream K ctx cid config None streamEvents None s))"

definition ConnectWithCid_returns ::
  "('t, 'l, 'p) UtpStream \<Rightarrow> goerr option \<times> bool \<Rightarrow> ('t, 'l, 'p) UtpStream option \<times> goerr option" where
  "ConnectWithCid_returns stream received =
     (if fst received = None then (Some stream, None) else (None, Some (Errorf ''connection timed out'')))"

end
