(* ===== verification/Socket_Props.thy ===== *)
theory Socket_Props
  imports Socket
begin

text \<open>
  Properties of a socket (\<open>utp_socket.go\<close>): which connection a packet is given to, that a request and its
  SYN may come in either order, and what the application is told.
\<close>

section \<open>The table of connections\<close>

text \<open>
  The map \<open>conns\<close> has hash strings as its keys. What it stands for is a table of identifiers: the send
  number, the receive number and the peer of each connection, with its channel.
\<close>

type_synonym 'p conn_table = "((u16 \<times> u16 \<times> 'p) \<times> nat) list"

definition table_conns :: "('t, 'l, 'p) sock_env \<Rightarrow> 'p conn_table \<Rightarrow> (string \<times> nat) list" where
  "table_conns K tab = map (\<lambda>((send, recv, peer), ch). (cid_hash (newCid K peer recv send), ch)) tab"

definition owner :: "('t, 'l, 'p) sock_env \<Rightarrow> 'p conn_table \<Rightarrow> 'p \<Rightarrow> u16 \<Rightarrow> u16 \<Rightarrow> nat option" where
  "owner K tab peer send recv =
     map_of (map (\<lambda>((s, r, p), ch). ((s, r, k_PeerHash K p), ch)) tab) (send, recv, k_PeerHash K peer)"

definition id_text :: "('t, 'l, 'p) sock_env \<Rightarrow> u16 \<times> u16 \<times> 'p \<Rightarrow> string" where
  "id_text K = (\<lambda>(send, recv, peer).
     cid_text (k_PeerHash K) \<lparr>cid_Send = send, cid_Recv = recv, cid_Peer = peer, cid_hash = []\<rparr>)"

text \<open>The identifiers a packet with number \<open>i\<close> is tried against.\<close>

definition candidates :: "'p \<Rightarrow> u16 \<Rightarrow> (u16 \<times> u16 \<times> 'p) list" where
  "candidates src i = [(i, i - 1, src), (i + 1, i, src), (i - 1, i, src)]"

text \<open>The digests of the texts in use do not collide.\<close>

definition collision_free :: "('t, 'l, 'p) sock_env \<Rightarrow> (u16 \<times> u16 \<times> 'p) list \<Rightarrow> bool" where
  "collision_free K ids \<longleftrightarrow> inj_on (\<lambda>x. take 20 (k_sum256 K (string_bytes x))) (id_text K ` set ids)"

lemma newCid_hash_eq:
  assumes "collision_free K ids" and "(s, r, p) \<in> set ids" and "(s', r', p') \<in> set ids"
  shows "cid_hash (newCid K p r s) = cid_hash (newCid K p' r' s')
     \<longleftrightarrow> s = s' \<and> r = r' \<and> k_PeerHash K p = k_PeerHash K p'"
proof -
  have "take 20 (k_sum256 K (string_bytes (id_text K (s, r, p))))
        = take 20 (k_sum256 K (string_bytes (id_text K (s', r', p')))) \<longleftrightarrow> id_text K (s, r, p) = id_text K (s', r', p')"
    using assms by (intro inj_on_eq_iff [of "\<lambda>x. take 20 (k_sum256 K (string_bytes x))" "id_text K ` set ids"])
      (simp_all add: collision_free_def)
  then show ?thesis
    by (simp add: newCid_def NewConnectionId_def genHash_def Let_def EncodeToString_inj id_text_def cid_text_inj)
qed

lemma getConnStream_owner:
  assumes "collision_free K ids" and "fst ` set tab \<subseteq> set ids" and "(send, recv, peer) \<in> set ids"
    and "so_conns s = table_conns K tab"
  shows "getConnStream (cid_hash (newCid K peer recv send)) s = owner K tab peer send recv"
proof -
  have "map_of (table_conns K tab) (cid_hash (newCid K peer recv send)) = owner K tab peer send recv"
    using assms(2)
  proof (induction tab)
    case (Cons e tab)
    obtain s r p ch where e: "e = ((s, r, p), ch)" by (metis surj_pair)
    with Cons.prems have "(s, r, p) \<in> set ids" by simp
    from newCid_hash_eq [OF assms(1,3) this] Cons show ?case
      by (auto simp: e table_conns_def owner_def)
  qed (simp add: table_conns_def owner_def)
  then show ?thesis by (simp add: getConnStream_def sm_get_def assms(4))
qed

lemma find_conn_conns: "so_conns t = so_conns s \<Longrightarrow> find_conn K pkt src tys t = find_conn K pkt src tys s"
  by (induction tys) (simp_all add: getConnStream_def split: option.split)

lemma find_conn_owner:
  assumes "collision_free K (map fst tab @ candidates src i)" and "so_conns s = table_conns K tab"
    and "h_ConnectionId (Header pkt) = i" and "h_PacketType (Header pkt) \<in> {st_data, st_fin, st_state, st_reset}"
  shows "find_conn K pkt src cidTypes s =
     (case owner K tab src i (i - 1) of Some ch \<Rightarrow> Some ch
      | None \<Rightarrow> (case owner K tab src (i + 1) i of Some ch \<Rightarrow> Some ch
      | None \<Rightarrow> owner K tab src (i - 1) i))"
proof -
  have g: "getConnStream (cid_hash (newCid K src r q)) s = owner K tab src q r" if "(q, r, src) \<in> set (candidates src i)" for q r
    using that by (intro getConnStream_owner [OF assms(1) _ _ assms(2)]) auto
  have "getConnStream (cid_hash (newCid K src (i - 1) i)) s = owner K tab src i (i - 1)"
    "getConnStream (cid_hash (newCid K src i (i + 1))) s = owner K tab src (i + 1) i"
    "getConnStream (cid_hash (newCid K src i (i - 1))) s = owner K tab src (i - 1) i"
    by (rule g; simp add: candidates_def)+
  then show ?thesis using assms(3,4)
    by (auto simp: cidTypes_def CidFromPacket_def Let_def st_defs split: option.splits)
qed

section \<open>Routing\<close>

text \<open>
  C6. A packet reaches the connection it is meant for. A connection of this socket with a peer is
  addressed by its receive number. When a packet with that number comes from the peer, the packet is
  queued for that connection, unless its queue is full, and nothing else changes; this holds for
  the end that opened the connection, whose send number is one higher, and for the end that accepted
  it, whose send number is one lower, as long as no other connection with the same peer has one
  of the identifiers that are tried before.
\<close>

theorem packets_reach_connection:
  assumes "collision_free K (map fst tab @ candidates (raw_peer raw) i)" and "so_conns s = table_conns K tab"
    and "DecodePacket (raw_payload raw) = Inr pkt" and "h_ConnectionId (Header pkt) = i"
    and "h_PacketType (Header pkt) \<in> {st_data, st_fin, st_state, st_reset}"
    and "owner K tab (raw_peer raw) i (i - 1) = None"
    and "owner K tab (raw_peer raw) (i + 1) i = Some ch
         \<or> owner K tab (raw_peer raw) (i + 1) i = None \<and> owner K tab (raw_peer raw) (i - 1) i = Some ch"
  shows "handleIncomingBuf K raw s = Some (if length (so_queue s ch) < 1000
       then s\<lparr>so_queue := (so_queue s)(ch := so_queue s ch @ [\<lparr>ev_Type = streamIncoming, ev_Packet = Some pkt\<rparr>])\<rparr> else s)"
  using find_conn_owner [OF assms(1,2,4,5)] assms(3,6,7)
  by (auto simp: handleIncomingBuf_def)

text \<open>
  C33. Two connections opened to one peer can be confused. If their receive numbers are adjacent,
  \<open>i - 1\<close> and \<open>i\<close>, then a packet for the second one, whose number is \<open>i\<close>, is first tried as the send number
  of the first one: it is queued for the first connection, and the second one gets nothing.
\<close>

theorem adjacent_connections_confused:
  assumes "collision_free K (map fst tab @ candidates (raw_peer raw) i)" and "so_conns s = table_conns K tab"
    and "DecodePacket (raw_payload raw) = Inr pkt" and "h_ConnectionId (Header pkt) = i"
    and "h_PacketType (Header pkt) \<in> {st_data, st_fin, st_state, st_reset}"
    and "owner K tab (raw_peer raw) (i + 1) i = Some meant" and "owner K tab (raw_peer raw) i (i - 1) = Some other"
    and "meant \<noteq> other" and "length (so_queue s other) < 1000"
  shows "\<exists>s'. handleIncomingBuf K raw s = Some s' \<and> so_queue s' meant = so_queue s meant
     \<and> so_queue s' other = so_queue s other @ [\<lparr>ev_Type = streamIncoming, ev_Packet = Some pkt\<rparr>]"
  using find_conn_owner [OF assms(1,2,4,5)] assms(3,7-9)
  by (auto simp: handleIncomingBuf_def)

section \<open>Accepting\<close>

lemma remove_first_update:
  "\<lbrakk> i < length slots; \<forall>slot \<in> set slots. map_of slot k = None \<rbrakk>
   \<Longrightarrow> remove_first k (slots[i := AList.update k v (slots ! i)]) = slots"
  by (induction slots arbitrary: i) (auto simp: delete_update_absent update_conv' split: nat.splits)

lemma tw_remove_put:
  assumes "tw_put tw k v d = Some w" and "\<forall>slot \<in> set (tw_slots tw). map_of slot k = None"
  shows "tw_remove k w = tw"
proof -
  define i where "i = go_rem (int (tw_current tw) + go_quot (if d > tw_maxDelay tw then tw_maxDelay tw else d)
    (tw_interval tw)) (int (tw_slotNum tw))"
  have "nat i < length (tw_slots tw)" "w = tw\<lparr>tw_slots := (tw_slots tw)[nat i := AList.update k v (tw_slots tw ! nat i)]\<rparr>"
    using assms(1) unfolding tw_put_def Let_def i_def [symmetric] by (auto split: if_splits)
  then show ?thesis using remove_first_update [OF _ assms(2)] by (simp add: tw_remove_def)
qed

text \<open>No request and no SYN waits under the key.\<close>

definition nothing_waits :: "string \<Rightarrow> ('t, 'l, 'p) UtpSocket \<Rightarrow> bool" where
  "nothing_waits key s \<longleftrightarrow> sm_get key (so_awaiting s) = None \<and> sm_get key (so_incomingConns s) = None
     \<and> tw_wf (so_awaitingExpirations s) \<and> (\<forall>slot \<in> set (tw_slots (so_awaitingExpirations s)). map_of slot key = None)
     \<and> tw_wf (so_incomingExpirations s) \<and> (\<forall>slot \<in> set (tw_slots (so_incomingExpirations s)). map_of slot key = None)"

definition opened ::
  "('t, 'l, 'p) UtpStream \<Rightarrow> 'p Accept \<Rightarrow> string \<Rightarrow> ('t, 'l, 'p) UtpSocket \<Rightarrow> ('t, 'l, 'p) UtpSocket" where
  "opened stream accept key s = s\<lparr>so_conns := sm_put key (so_nextCh s) (so_conns s), so_nextCh := so_nextCh s + 1,
     so_queue := (so_queue s)(so_nextCh s := []),
     so_started := so_started s @ [\<lparr>sd_events = so_nextCh s, sd_stream = stream, sd_accept = Some accept\<rparr>]\<rparr>"

lemma NewUtpStream_ok:
  fixes E :: "('t, 'l) conn_env" and cid :: "'p ConnectionId"
  assumes "conn_config_ok config"
  shows "\<exists>stream. \<forall>ctx. NewUtpStream E ctx cid config syn ch = Some (stream\<lparr>us_ctx := ctx\<rparr>)"
proof -
  have "0 < go_quot (cc_InitialTimeout config) 4" using config_bounds(1) [OF assms] by (simp add: go_quot_def)
  then obtain w :: "(u16, packet) timeWheel" where "newTimeWheel (go_quot (cc_InitialTimeout config) 4) 8 = Some w"
    using wheel_new by (metis zero_less_numeral)
  then obtain c where c: "newConnection E cid config syn ch = Some c" by (cases syn) (simp_all add: newConnection_def)
  let ?s = "\<lparr>us_ctx = 0, us_cid = cid, us_chans = \<lparr>st_streamEvents = [], st_writes = [], st_shutdown = False\<rparr>,
    us_conn = c, us_done = False, us_closed = False\<rparr>"
  show ?thesis by (rule exI [of _ ?s]) (simp add: NewUtpStream_def c)
qed

lemma handle_syn_waits:
  assumes "nothing_waits (cid_hash cid) s"
  shows "\<exists>w. handle_syn K pkt cid s = Some (s\<lparr>so_incomingConns := sm_put (cid_hash cid) \<lparr>ip_pkt = pkt, ip_cid = cid\<rparr>
       (so_incomingConns s), so_incomingExpirations := w\<rparr>)
     \<and> tw_remove (cid_hash cid) w = so_incomingExpirations s"
proof -
  let ?p = "\<lparr>ip_pkt = pkt, ip_cid = cid\<rparr>"
  obtain w where w: "tw_put (so_incomingExpirations s) (cid_hash cid) ?p AWAITING_CONNECTION_TIMEOUT = Some w"
    using assms wheel_put [of "so_incomingExpirations s" AWAITING_CONNECTION_TIMEOUT "cid_hash cid" ?p]
    by (auto simp: nothing_waits_def AWAITING_CONNECTION_TIMEOUT_def)
  then have "tw_remove (cid_hash cid) w = so_incomingExpirations s"
    using assms by (intro tw_remove_put) (auto simp: nothing_waits_def)
  then show ?thesis using assms w
    by (intro exI [of _ w]) (simp add: handle_syn_def getAwaiting_def nothing_waits_def putIncomingConn_def)
qed

lemma accept_waits:
  assumes "nothing_waits (cid_hash cid) s" and "acc_cid accept = Some cid"
  shows "\<exists>w. handleNewAcceptWithCidEvent K accept s = Some (s\<lparr>so_awaiting := sm_put (cid_hash cid) accept (so_awaiting s),
       so_awaitingExpirations := w\<rparr>)
     \<and> tw_remove (cid_hash cid) w = so_awaitingExpirations s"
proof -
  obtain w where w: "tw_put (so_awaitingExpirations s) (cid_hash cid) accept AWAITING_CONNECTION_TIMEOUT = Some w"
    using assms wheel_put [of "so_awaitingExpirations s" AWAITING_CONNECTION_TIMEOUT "cid_hash cid" accept]
    by (auto simp: nothing_waits_def AWAITING_CONNECTION_TIMEOUT_def)
  then have "tw_remove (cid_hash cid) w = so_awaitingExpirations s"
    using assms by (intro tw_remove_put) (auto simp: nothing_waits_def)
  then show ?thesis
    using assms w by (intro exI [of _ w])
      (simp add: handleNewAcceptWithCidEvent_def nothing_waits_def removeIncomingConn_def putAwaiting_def)
qed

text \<open>
  C12. A request for an identifier and the SYN with that identifier may come in either order. Either
  way the connection is opened once, with the configuration of the request and the SYN, registered
  under its identifier, and nothing is left waiting; the two orders end in the same state, except that
  the stream lives in the context of the request if the SYN came first, and in that of the socket if
  the request came first.
\<close>

theorem accept_in_either_order:
  assumes "DecodePacket (raw_payload raw) = Inr syn" and "h_PacketType (Header syn) = st_syn"
    and "cid = CidFromPacket K syn (raw_peer raw) IdTypeRecvId" and "acc_cid accept = Some cid"
    and "find_conn K syn (raw_peer raw) cidTypes s = None" and "nothing_waits (cid_hash cid) s"
    and "conn_config_ok (acc_config accept)"
  shows "\<exists>stream. (\<forall>ctx. NewUtpStream (k_conn K) ctx cid (acc_config accept) (Some syn) (Some open_chan)
         = Some (stream\<lparr>us_ctx := ctx\<rparr>))
     \<and> handleIncomingBuf K raw s \<bind> handleNewAcceptWithCidEvent K accept
         = Some (opened (stream\<lparr>us_ctx := acc_ctx accept\<rparr>) accept (cid_hash cid) s)
     \<and> handleNewAcceptWithCidEvent K accept s \<bind> handleIncomingBuf K raw
         = Some (opened (stream\<lparr>us_ctx := 0\<rparr>) accept (cid_hash cid) s)"
proof -
  let ?k = "cid_hash cid"
  obtain stream where st: "\<And>ctx. NewUtpStream (k_conn K) ctx cid (acc_config accept) (Some syn) (Some open_chan)
      = Some (stream\<lparr>us_ctx := ctx\<rparr>)" using NewUtpStream_ok [OF assms(7)] by blast
  have none: "getConnStream ?k s = None"
    using assms(3,5) by (simp add: cidTypes_def split: option.splits)
  have in_packet: "handleIncomingBuf K raw t = handle_syn K syn cid t" if "so_conns t = so_conns s" for t
    using assms(1-3) find_conn_conns [OF that] assms(5) by (simp add: handleIncomingBuf_def)
  obtain w where w: "handle_syn K syn cid s = Some (s\<lparr>so_incomingConns := sm_put ?k \<lparr>ip_pkt = syn, ip_cid = cid\<rparr>
      (so_incomingConns s), so_incomingExpirations := w\<rparr>)" "tw_remove ?k w = so_incomingExpirations s"
    using handle_syn_waits [OF assms(6)] by blast
  obtain v where v: "handleNewAcceptWithCidEvent K accept s = Some (s\<lparr>so_awaiting := sm_put ?k accept (so_awaiting s),
      so_awaitingExpirations := v\<rparr>)" "tw_remove ?k v = so_awaitingExpirations s"
    using accept_waits [OF assms(6,4)] by blast
  have rem: "sm_remove ?k (sm_put ?k x (so_incomingConns s)) = so_incomingConns s"
    "sm_remove ?k (sm_put ?k y (so_awaiting s)) = so_awaiting s" for x y
    using assms(6) by (simp_all add: nothing_waits_def sync_map.remove_put)
  note run = start_stream_def new_events_def putConnStream_def st opened_def Let_def
  have "handleIncomingBuf K raw s \<bind> handleNewAcceptWithCidEvent K accept
      = Some (opened (stream\<lparr>us_ctx := acc_ctx accept\<rparr>) accept ?k s)"
    using in_packet [of s] w rem(1) none assms(4)
    by (simp add: handleNewAcceptWithCidEvent_def removeIncomingConn_def sync_map.get_put selectAcceptHelper_def
        getConnStream_def run)
  moreover have "handleNewAcceptWithCidEvent K accept s \<bind> handleIncomingBuf K raw
      = Some (opened (stream\<lparr>us_ctx := 0\<rparr>) accept ?k s)"
    using v rem(2) by (simp add: in_packet handle_syn_def getAwaiting_def sync_map.get_put removeAwaiting_def run)
  ultimately show ?thesis using st by blast
qed

section \<open>Opening\<close>

text \<open>The identifier of a role with a receive number.\<close>

definition role_cid :: "('t, 'l, 'p) sock_env \<Rightarrow> 'p \<Rightarrow> bool \<Rightarrow> u16 \<Rightarrow> 'p ConnectionId" where
  "role_cid K peer isInitiator recv = newCid K peer recv (if isInitiator then recv + 1 else recv - 1)"

abbreviation free_cid :: "'p ConnectionId \<Rightarrow> ('t, 'l, 'p) UtpSocket \<Rightarrow> bool" where
  "free_cid cid s \<equiv> getConnStream (cid_hash cid) s = None"

lemma GenerateCid_Suc:
  "GenerateCid (Suc fuel) K rands peer isInitiator (Some ch) s =
     (if free_cid (role_cid K peer isInitiator (rands 0)) s
      then Some (putConnStream (cid_hash (role_cid K peer isInitiator (rands 0))) ch s, role_cid K peer isInitiator (rands 0))
      else GenerateCid fuel K (\<lambda>i. rands (Suc i)) peer isInitiator (Some ch) s)"
  by (simp add: role_cid_def Let_def)

text \<open>
  C20. \<open>GenerateCid\<close> finds a free identifier as soon as a draw allows it. If one of the first draws is free,
  it returns; the identifier is the one of the first free draw, with the send number of the role, it
  was not registered before, and it is registered with the given channel afterwards, while every other key
  keeps its channel.
\<close>

theorem GenerateCid_first_free:
  assumes "free_cid (role_cid K peer isInitiator (rands j)) s" and "j < fuel"
  shows "\<exists>s' i. i \<le> j
     \<and> GenerateCid fuel K rands peer isInitiator (Some ch) s = Some (s', role_cid K peer isInitiator (rands i))
     \<and> (\<forall>i' < i. \<not> free_cid (role_cid K peer isInitiator (rands i')) s)
     \<and> free_cid (role_cid K peer isInitiator (rands i)) s
     \<and> (\<forall>key. getConnStream key s'
         = (if key = cid_hash (role_cid K peer isInitiator (rands i)) then Some ch else getConnStream key s))"
  using assms
proof (induction fuel arbitrary: rands j)
  case (Suc fuel)
  let ?id = "role_cid K peer isInitiator"
  show ?case
  proof (cases "free_cid (?id (rands 0)) s")
    case True
    then show ?thesis unfolding GenerateCid_Suc
      by (intro exI [of _ "putConnStream (cid_hash (?id (rands 0))) ch s"] exI [of _ 0])
        (simp add: putConnStream_def getConnStream_def sync_map.get_put)
  next
    case False
    then obtain j' where j: "j = Suc j'" using Suc.prems(1) by (cases j) simp_all
    obtain s' i where i: "i \<le> j'" "GenerateCid fuel K (\<lambda>i. rands (Suc i)) peer isInitiator (Some ch) s = Some (s', ?id (rands (Suc i)))"
      "\<forall>i' < i. \<not> free_cid (?id (rands (Suc i'))) s" "free_cid (?id (rands (Suc i))) s"
      "\<forall>key. getConnStream key s' = (if key = cid_hash (?id (rands (Suc i))) then Some ch else getConnStream key s)"
      using Suc.IH [of "\<lambda>i. rands (Suc i)" j'] Suc.prems unfolding j by auto
    have prior: "\<forall>i' < Suc i. \<not> free_cid (?id (rands i')) s" using False i(3) by (simp add: All_less_Suc2)
    have run: "GenerateCid (Suc fuel) K rands peer isInitiator (Some ch) s = Some (s', ?id (rands (Suc i)))"
      unfolding GenerateCid_Suc using False i(2) by (simp only: if_False)
    have "Suc i \<le> j" using i(1) j by simp
    then show ?thesis
      by (intro exI [of _ s'] exI [of _ "Suc i"] conjI) (assumption, rule run, rule prior, rule i(4), rule i(5))
  qed
qed simp

text \<open>
  C32. \<open>Connect\<close> reports a timeout for a connection that has been opened. When the answer to the SYN
  arrives, the connection is connected and closes the channel \<open>Connect\<close> waits on; \<open>Connect\<close> takes a closed
  channel for a failure and returns no stream. \<open>ConnectWithCid\<close>, which only looks at the error, returns
  the stream.
\<close>

theorem Connect_reports_timeout:
  assumes "conn_trees BP invarP BL invarL" and "conn_config_ok config" and "e_pending E = BP" and "e_lost E = BL"
    and "Connect_open fuel K rands ctx peer config s = Some (s', stream)"
  shows "\<exists>a a' ch r. loop_start (later 1 (k_conn K)) (us_conn stream) = Some a
     \<and> onPacket E a (syn_ack F cid cfg (e_rand (k_conn K)) m d) now = Some a' \<and> stateType (c_state a') = ConnConnected
     \<and> connectedCh (c_state a') = Some ch \<and> ch_recv ch = Some r
     \<and> Connect_returns stream (ConnectedResult r) = (None, Some (Errorf ''connection timed out''))
     \<and> ConnectWithCid_returns stream r = (Some stream, None)"
proof -
  obtain cid' where new: "newConnection (k_conn K) cid' config None (Some open_chan) = Some (us_conn stream)"
    using assms(5) by (auto simp: Connect_open_def start_stream_def NewUtpStream_def Let_def bind_eq_Some_conv
        split: prod.splits)
  obtain a where a: "loop_start (later 1 (k_conn K)) (us_conn stream) = Some a" "c_state a = NewConnState (Some open_chan)"
    "c_config a = config" "ep_Type (c_endpoint a) = Initiator" "ep_SynNum (c_endpoint a) = e_rand (k_conn K)"
    using initiator_started [OF assms(2), of "k_conn K" cid' "Some open_chan" "later 1 (k_conn K)"] new by auto
  have "conn_config_ok (c_config a)" using assms(2) a(3) by simp
  from conn_trees.syn_ack_accepted [OF assms(1) conjI [OF assms(3,4)] this a(2,4,5)]
  obtain a' where "onPacket E a (syn_ack F cid cfg (e_rand (k_conn K)) m d) now = Some a'"
    "stateType (c_state a') = ConnConnected" "connectedCh (c_state a') = Some \<lparr>ch_sent = [], ch_closed = True\<rparr>" by blast
  then show ?thesis using a(1) by (auto simp: ch_recv_def ConnectWithCid_returns_def)
qed

text \<open>
  A request without an identifier cannot be answered with a stream: the goroutine that waits for its
  connection reads the missing identifier and panics. If no SYN waits, the request is answered with an error,
  which \<open>Accept\<close> drops: it returns no stream and no error.
\<close>

lemma accept_without_cid:
  assumes "acc_cid accept = None"
  shows "awaitConnected stream accept received s = None"
    and "so_incomingConns s = newSyncMap \<Longrightarrow> \<exists>res. handleNewAcceptEvent K (\<lambda>m. m) accept s = Some (answer_accept accept res s)
       \<and> sr_err res \<noteq> None \<and> Accept_returns (AcceptResult (Some res)) = (None, None)"
  using assms by (simp add: awaitConnected_def)
    (intro exI [of _ "\<lparr>sr_stream = None, sr_err = Some (Errorf ''no incoming conn'')\<rparr>"],
      simp add: handleNewAcceptEvent_def nextIncomingConn_def sm_Range_def newSyncMap_def)

section \<open>Instances\<close>

text \<open>A digest that keeps short texts apart, one peer, and a new socket with the connections of a table.\<close>

definition local_env :: "(pendingItem list, u16 list, nat) sock_env" where
  "local_env = \<lparr>k_sum256 = (\<lambda>b. take 32 (b @ replicate 32 0)), k_PeerHash = (\<lambda>_. ''a''), k_conn = still_env\<rparr>"

definition local_socket :: "nat conn_table \<Rightarrow> (pendingItem list, u16 list, nat) UtpSocket" where
  "local_socket tab = (the WithSocket)\<lparr>so_conns := table_conns local_env tab\<rparr>"

definition local_raw :: "u8 \<Rightarrow> u16 \<Rightarrow> nat IncomingPacketRaw" where
  "local_raw ty i = \<lparr>raw_peer = 0, raw_payload = packet_Encode (Build (NewPacketBuilder ty i 0 0 9))\<rparr>"

lemma local_socket_fields [simp]:
  "so_conns (local_socket tab) = table_conns local_env tab" "so_queue (local_socket tab) ch = []"
  "raw_peer (local_raw ty i) = 0" "k_conn local_env = still_env"
  by (simp_all add: local_socket_def WithSocket_def newTimeWheel_def local_raw_def local_env_def)

lemma local_packet:
  assumes "ty \<in> {st_state, st_reset, st_syn}"
  shows "DecodePacket (raw_payload (local_raw ty i)) = Inr (Build (NewPacketBuilder ty i 0 0 9))"
    and "h_ConnectionId (Header (Build (NewPacketBuilder ty i 0 0 9))) = i"
    and "h_PacketType (Header (Build (NewPacketBuilder ty i 0 0 9))) = ty"
proof -
  have "packet_ok (Build (NewPacketBuilder ty i 0 0 9))"
    using assms by (intro Build_packet_ok) (auto simp: builder_defs st_defs)
  then show "DecodePacket (raw_payload (local_raw ty i)) = Inr (Build (NewPacketBuilder ty i 0 0 9))"
    by (simp add: local_raw_def packet_roundtrip)
qed (simp_all add: Build_def builder_defs)

lemma local_collision_free:
  "collision_free local_env (map fst [((101, 100, 0), 5), ((100, 99, 0), 6)] @ candidates 0 100)"
proof -
  have d: "decimal 101 = ''101''" "decimal 100 = ''100''" "decimal 99 = ''99''" by code_simp+
  show ?thesis
    by (simp add: collision_free_def candidates_def id_text_def cid_text_def local_env_def d inj_on_def string_bytes_def)
qed

theorem packets_reach_connection_witness:
  "\<exists>p. handleIncomingBuf local_env (local_raw st_state 100) (local_socket [((101, 100, 0), 5)])
     = Some ((local_socket [((101, 100, 0), 5)])\<lparr>so_queue := (so_queue (local_socket [((101, 100, 0), 5)]))
         (5 := [\<lparr>ev_Type = streamIncoming, ev_Packet = Some p\<rparr>])\<rparr>)"
proof -
  note p = local_packet [of st_state 100]
  have "collision_free local_env (map fst [((101, 100, 0), 5)] @ candidates 0 100)"
    using local_collision_free by (auto simp: collision_free_def intro: inj_on_subset)
  then show ?thesis
    using packets_reach_connection [of local_env "[((101, 100, 0), 5)]" "local_raw st_state 100" 100
        "local_socket [((101, 100, 0), 5)]", OF _ _ p(1,2), of 5] p(3)
    by (auto simp: owner_def)
qed

theorem adjacent_connections_confused_witness:
  "\<exists>s' p. handleIncomingBuf local_env (local_raw st_state 100) (local_socket [((101, 100, 0), 5), ((100, 99, 0), 6)]) = Some s'
     \<and> so_queue s' 5 = [] \<and> so_queue s' 6 = [\<lparr>ev_Type = streamIncoming, ev_Packet = Some p\<rparr>]"
proof -
  note p = local_packet [of st_state 100]
  show ?thesis
    using adjacent_connections_confused [of local_env "[((101, 100, 0), 5), ((100, 99, 0), 6)]" "local_raw st_state 100" 100
        "local_socket [((101, 100, 0), 5), ((100, 99, 0), 6)]", OF _ _ p(1,2), of 5 6] local_collision_free p(3)
    by (auto simp: owner_def)
qed

theorem GenerateCid_first_free_witness:
  "\<exists>s' (i :: nat). i \<le> 1 \<and> GenerateCid 2 local_env (\<lambda>i. if i = 0 then 100 else 99) 0 True (Some 7) (local_socket [((101, 100, 0), 5)])
     = Some (s', role_cid local_env 0 True (if i = 0 then 100 else 99))"
proof -
  let ?s = "local_socket [((101, 100, 0), 5)]"
  have "collision_free local_env (map fst [((101, 100, 0), 5)] @ candidates 0 100)"
    using local_collision_free by (auto simp: collision_free_def intro: inj_on_subset)
  from getConnStream_owner [OF this, of "[((101, 100, 0), 5)]" 100 99 0 ?s]
  have "free_cid (role_cid local_env 0 True 99) ?s" by (simp add: role_cid_def owner_def candidates_def)
  then have free: "free_cid (role_cid local_env 0 True (if 1 = (0 :: nat) then 100 else 99)) ?s" by simp
  have "1 < (2 :: nat)" by simp
  from GenerateCid_first_free [of local_env 0 True "\<lambda>i. if i = 0 then 100 else 99" 1, OF free this, of 7]
  show ?thesis by blast
qed

theorem Connect_reports_timeout_witness:
  "\<exists>s' stream a a' ch r. Connect_open 1 local_env (\<lambda>_. 100) 3 0 small_config (local_socket []) = Some (s', stream)
     \<and> loop_start (later 1 still_env) (us_conn stream) = Some a
     \<and> onPacket still_env a (syn_ack still_env still_cid small_config (e_rand still_env) 9 0) 1 = Some a'
     \<and> stateType (c_state a') = ConnConnected \<and> connectedCh (c_state a') = Some ch \<and> ch_recv ch = Some r
     \<and> Connect_returns stream (ConnectedResult r) = (None, Some (Errorf ''connection timed out''))"
proof -
  obtain s' stream where c: "Connect_open 1 local_env (\<lambda>_. 100) 3 0 small_config (local_socket []) = Some (s', stream)"
    using NewUtpStream_ok [OF small_config_ok, of still_env "role_cid local_env 0 True 100" None "Some open_chan"]
    by (auto simp: Connect_open_def new_events_def GenerateCid_Suc getConnStream_def sm_get_def table_conns_def
        start_stream_def putConnStream_def simp del: GenerateCid.simps)
  from Connect_reports_timeout [OF conn_lists.conn_trees_axioms small_config_ok still_trees c,
      of still_env still_cid small_config 9 0 1, unfolded local_socket_fields] c show ?thesis by blast
qed

text \<open>The SYN of a peer with number 100, and a request for its connection.\<close>

definition local_accept :: "nat Accept" where
  "local_accept = \<lparr>acc_ctx = 4, acc_stream = 2, acc_config = small_config,
     acc_cid = Some (CidFromPacket local_env (Build (NewPacketBuilder st_syn 100 0 0 9)) 0 IdTypeRecvId), acc_hasCid = True\<rparr>"

theorem accept_in_either_order_witness:
  "\<exists>s1 s2. handleIncomingBuf local_env (local_raw st_syn 100) (local_socket []) \<bind> handleNewAcceptWithCidEvent local_env local_accept = Some s1
     \<and> handleNewAcceptWithCidEvent local_env local_accept (local_socket []) \<bind> handleIncomingBuf local_env (local_raw st_syn 100) = Some s2
     \<and> length (so_started s1) = 1 \<and> so_conns s1 = so_conns s2 \<and> so_awaiting s1 = [] \<and> so_incomingConns s2 = []"
proof -
  let ?syn = "Build (NewPacketBuilder st_syn 100 0 0 9)" and ?s = "local_socket []"
  have s: "nothing_waits k ?s" "so_started ?s = []" "so_awaiting ?s = []" "so_incomingConns ?s = []" for k
    by (simp_all add: local_socket_def WithSocket_def newTimeWheel_def nothing_waits_def newSyncMap_def sm_get_def tw_wf_def)
  have none: "find_conn local_env ?syn 0 cidTypes ?s = None"
    by (simp add: cidTypes_def getConnStream_def table_conns_def sm_get_def)
  have a: "acc_cid local_accept = Some (CidFromPacket local_env ?syn 0 IdTypeRecvId)" "conn_config_ok (acc_config local_accept)"
    by (simp_all add: local_accept_def small_config_ok)
  have cid: "CidFromPacket local_env ?syn 0 IdTypeRecvId = CidFromPacket local_env ?syn (raw_peer (local_raw st_syn 100)) IdTypeRecvId"
    by simp
  from accept_in_either_order [OF local_packet(1) local_packet(3) cid a(1) _ s(1) a(2)] none
  show ?thesis using s(2-4) by (fastforce simp: opened_def)
qed

end
