(* ===== verification/Spec2Isabelle.thy ===== *)
theory Spec2Isabelle
  imports Packet_Codec Send_Buffer Recv_Buffer Utp_Utils Sent_Packets_Props Time_Wheel Cid
    Connection_Silence Connection_Streams Stream_History Handshake Connection_Faults Delay_Map Socket_Props
begin

text \<open>
  A verification library of \<^verbatim>\<open>utp-go\<close>, an implementation of the micro transport protocol (uTP,
  BEP 29) over UDP in Go. All paths below are relative to \<^verbatim>\<open>src/\<close>.

  \<^bold>\<open>The program.\<close> A \<open>UtpSocket\<close> (\<^verbatim>\<open>utp_socket.go\<close>) owns a UDP connection. Its read loop queues the datagrams it
  receives, its event loop decodes each one (\<^verbatim>\<open>packet.go\<close>) and gives it to the connection with the identifier
  of the packet (\<^verbatim>\<open>cid.go\<close>), or, if it is a SYN, matches it with a request of \<open>Accept\<close> or \<open>AcceptWithCid\<close>; requests
  and SYNs wait for each other in maps (\<^verbatim>\<open>sync_map.go\<close>) with a timer wheel (\<^verbatim>\<open>delay_set.go\<close>). \<open>Connect\<close> and \<open>Accept\<close>
  give the application a \<open>UtpStream\<close> (\<^verbatim>\<open>stream.go\<close>), which runs the event loop of a connection (\<^verbatim>\<open>conn.go\<close>) and
  exchanges reads and writes with it over channels. A connection keeps written bytes in a send
  buffer (\<^verbatim>\<open>send_buffer.go\<close>), cuts them into packets as the congestion controller (\<^verbatim>\<open>congestion.go\<close>) allows,
  records what it sent and what was acknowledged (\<^verbatim>\<open>sent_packet.go\<close>), repeats what is lost, and puts what it
  receives in order in a receive buffer (\<^verbatim>\<open>recv_buffer.go\<close>). Sequence numbers live on a circle (\<^verbatim>\<open>seq.go\<close>).
  Connections and the socket exchange the events of \<^verbatim>\<open>event.go\<close>.

  \<^bold>\<open>The reading of Go.\<close> \<open>Utp_Prelude\<close>: unsigned integers are words of their width, \<open>int\<close>, durations (in
  nanoseconds) and times are \<^typ>\<open>int\<close>, with the wrap-around of 64 bits written out where a value can reach
  it. \<open>'a go\<close> is \<open>'a option\<close>, and \<^const>\<open>None\<close> is a panic: an index out of range, a nil dereference, a division
  by zero, a send on a closed channel. An \<open>error\<close> result is a \<open>goerr option\<close>. A struct is a record, a
  method takes the record and returns the new one. \<open>Go_Float\<close> has \<open>float64\<close>, rounded to 53 bits. A channel is the
  list of its values. A goroutine is a step function, one step for each case of its \<open>select\<close>; the interleaving
  is a list of steps. Clock readings, random draws and the order in which Go visits a map are arguments.

  \<^bold>\<open>Code outside the sources\<close> is a parameter: the trees of \<^verbatim>\<open>google/btree\<close> (record and locale in \<open>BTree_Spec\<close>,
  met by sorted lists), the SHA3 digest and the hash of a peer (\<open>Cid\<close>, assumed collision free on the texts
  in use where that matters), and the random source. The witnesses use the list trees and a concrete digest.

  \<^bold>\<open>The theories.\<close>
  \<^item> \<open>Utp_Utils\<close> (\<^verbatim>\<open>utp_utils.go\<close>), \<open>Circular_Range\<close> (\<^verbatim>\<open>seq.go\<close>): the helpers; \<open>Next\<close> yields exactly what \<open>Contains\<close>
    accepts (C28), \<open>DurationBetween\<close> is a distance on a circle (C30).
  \<^item> \<open>Packet\<close>, \<open>Packet_Codec\<close> (\<^verbatim>\<open>packet.go\<close>): the byte formats. The locale \<open>codec\<close> is the contract of an encoder with
    its decoder, with three interpretations. Round trip (C5), built packets (C21), arbitrary input (C22),
    lengths (C27), and a packet that is misread (C35).
  \<^item> \<open>Send_Buffer\<close> (\<^verbatim>\<open>send_buffer.go\<close>): a bounded queue of bytes, the locale \<open>byte_fifo\<close> (C9, C26).
  \<^item> \<open>Recv_Buffer\<close> (\<^verbatim>\<open>recv_buffer.go\<close>): in-order delivery for every arrival (C4), the cumulative and the selective
    acknowledgement (C23, C24), every outcome of \<open>Write\<close> (C25), and the end at 65535 packets (C34), proved in
    the locale \<open>recv_tree\<close> for every tree that keeps the contract.
  \<^item> \<open>Delay_Heap\<close>, \<open>Congestion\<close>, \<open>Congestion_Inv\<close>, \<open>Congestion_Props\<close> (\<^verbatim>\<open>congestion.go\<close>): the heap of recent delays (C17), the
    controller, its invariant over all histories (C15), the window of LEDBAT (C16), and the timeout that the
    round trips do not reach (C40). The locale \<open>controller\<close> is the interface \<open>Controller\<close>; \<open>ack_keeps\<close> and \<open>timed_controller\<close>
    are what an acknowledgement keeps.
  \<^item> \<open>Sent_Packets\<close>, with \<open>_Inv\<close>, \<open>_Props\<close> and \<open>_Timed\<close> (\<^verbatim>\<open>sent_packet.go\<close>): transmissions, acknowledgements (C14), losses;
    no history within the window panics (C13); two histories outside it (C36, C37). The locale \<open>send_side\<close> joins
    the contracts of the tree and the controller.
  \<^item> \<open>Time_Wheel\<close> (\<^verbatim>\<open>delay_set.go\<close>): the locale \<open>countdown\<close> (C18), and two cases in which an entry does not expire as the caller
    means (C38, C39). \<open>Sync_Map\<close> (\<^verbatim>\<open>sync_map.go\<close>): the locale \<open>key_store\<close>. \<open>Delay_Map\<close> (\<^verbatim>\<open>delay_map.go\<close>): a map with a timer per
    entry, which no other file uses; its invariant and the item that fires after its removal.
  \<^item> \<open>Cid\<close> (\<^verbatim>\<open>cid.go\<close>, \<^verbatim>\<open>event.go\<close>): the hash of an identifier determines it (C29).
  \<^item> \<open>Connection\<close> (\<^verbatim>\<open>conn.go\<close>): all handlers and \<open>loop_turn\<close>, a turn of \<open>eventLoop\<close>. \<open>Connection_Loops\<close>, \<open>_Inv\<close>, \<open>_Handlers\<close>,
    \<open>_Events\<close>, \<open>_Moves\<close> and \<open>Event_Loop\<close> prove, handler by handler, an invariant that excludes panics, in the locale
    \<open>conn_trees\<close>. \<open>Connection_Props\<close>: every run keeps it (C2) and a turn only moves forward (C8). \<open>Connection_Silence\<close>: an
    initiator nobody answers gives up (C7). \<open>Connection_Streams\<close>: reads against a reference (C11), writes as a
    queue (C10). \<open>Handshake\<close>: both ends agree after SYN and STATE have crossed (C3). \<open>Connection_Faults\<close>: the backoff of
    the SYN, the repeated SYN, and the stream cut short when both ends close (C31).
  \<^item> \<open>Stream_History\<close>: a calculus of partial correctness (\<open>gives\<close>) in which every handler keeps the invariant \<open>flow\<close>: the
    payloads sent, the send buffer and the waiting writes are the bytes written, and each packet on the wire
    has the payload of its number. The property of the whole chain, from one application to the other, is C1
    at the end of this theory; it composes \<open>flow\<close> with the receive buffer of the peer.
  \<^item> \<open>Stream\<close> (\<^verbatim>\<open>stream.go\<close>): construction, \<open>ReadToEOF\<close> (C19), \<open>Write\<close>, \<open>Close\<close>.
  \<^item> \<open>Socket\<close>, \<open>Socket_Props\<close> (\<^verbatim>\<open>utp_socket.go\<close>): the maps, the three loops, and the calls of the application. Routing refines
    a table of identifiers (C6), with one confusion (C33); request and SYN in either order (C12);
    \<open>GenerateCid\<close> (C20); what \<open>Connect\<close> reports (C32).

  \<^bold>\<open>Loops and fuel.\<close> Loops are structural recursions or functions with a measure, but for three. \<open>drain\<close>, a
  test loop over a range, gets 65537 rounds, one more than there are numbers (C28 shows that it returns).
  \<open>rb_drain\<close> gets one round more than there are pending packets, each round removing one; its lemma shows
  that it returns. \<open>GenerateCid\<close> draws until a number is free and has no bound in the code; C20 shows that it
  returns if one of the first \<open>fuel\<close> draws is free. The loops of the socket and of a connection do not end
  by themselves: a step is modelled, and runs are sequences of steps.

  \<^bold>\<open>Conditions.\<close> C2 holds as long as sequence numbers are left for the packets to send, no packet has been sent
  \<open>2^32 - 1\<close> times, the window has room for a FIN, and the configuration is sane (\<open>conn_config_ok\<close>). C34, C36 and C37 show what
  happens beyond. C1 needs none of these: a handler that panics ends the run.

  \<^bold>\<open>Not modelled.\<close> \<open>UdpConn\<close> and \<open>Bind\<close> (they pass calls to the network); logging, except where reading its arguments
  panics; \<^verbatim>\<open>global.go\<close> (a context for logging); the \<open>String\<close> methods and \<open>TcpPeer\<close>, which nothing but logging or nothing
  uses; \<^verbatim>\<open>integrated/test_utils.go\<close> (helpers of tests); \<^verbatim>\<open>native/cgo/utp.go\<close> (bindings to a C library, no code in common).
  A send to a full channel that waits is taken to find room, so deadlocks between goroutines are not seen;
  the memory model is not either, each access under a mutex being one step.
\<close>

section \<open>From the writer to the reader\<close>


text \<open>A run: an acceptor is started, the application writes three bytes, and the loop takes the write.\<close>

lemma sample_stream:
  "\<exists>st (c :: (pendingItem list, u16 list, nat) connection). stream_run (list_BTree pendingItem_Less) (list_BTree (<)) st c [1, 2, 3]"
proof -
  let ?E = still_env and ?w = "\<lparr>qw_data = [1, 2, 3], qw_written = 0, qw_resultCh = 0\<rparr>"
  let ?st = "\<lparr>st_streamEvents = [], st_writes = [], st_shutdown = False\<rparr>"
  obtain c0 c where c: "newConnection ?E still_cid small_config (Some (synPacket ?E still_start 7)) (Some open_chan) = Some c0"
    "loop_start (later 1 ?E) c0 = Some c" "stateType (c_state c) = ConnConnected" "closing (c_state c) = None"
    "SentPackets (c_state c) = Some (newSentPackets (e_lost (later 1 ?E)) (e_rand ?E - 1) (newDefaultController (fromConnConfig small_config)))"
    "SendBuf (c_state c) = Some (newSendBuffer (cc_BufferSize small_config))" "c_pendingWrites c = []"
    using acceptor_started [OF small_config_ok, of ?E still_cid "synPacket ?E still_start 7" "later 1 ?E"] by blast
  have r: "stream_run (list_BTree pendingItem_Less) (list_BTree (<)) (?st\<lparr>st_writes := [?w]\<rparr>) c []"
    using stream_write [OF stream_start [OF small_config_ok still_trees c(1,2)], of ?w] by simp
  obtain rb sb sp where l: "conn_lists.live c rb sb sp"
    using conn_lists.run_inv [OF stream_conn_run [OF r]] c(3) by (auto simp: conn_inv_def)
  then have sb: "sb_contents sb = []" "sb_inv sb" "sp_packets sp = []" "SentPackets (c_state c) = Some sp" "SendBuf (c_state c) = Some sb"
    using c(5,6) newSendBuffer_inv(2) by (auto simp: conn_live_def newSentPackets_def)
  have none: "new_payloads F c = []" "new_payloads F (c\<lparr>c_pendingWrites := [?w]\<rparr>) = []" for F :: "(pendingItem list, u16 list) conn_env"
    using length_new_payloads [OF sb(5,2), of F] length_new_payloads [of "c\<lparr>c_pendingWrites := [?w]\<rparr>" sb F] sb by auto
  have room: "seq_room (later 1 ?E) c" using sb(3,4) by (simp add: seq_room_def none)
  obtain c2 where c2: "processWrites (later 1 ?E) (c\<lparr>c_pendingWrites := [?w]\<rparr>) (e_now ?E 0) = Some c2" "stateType (c_state c2) = ConnConnected"
    using conn_lists.processWrites_connected [of "c\<lparr>c_pendingWrites := [?w]\<rparr>" rb sb sp "later 1 ?E" "e_now ?E 0"] l c(3) sb(3) none
    by (auto dest: transmitted_frame(1))
  let ?c = "c2\<lparr>c_writable := notify_token (c_writable c2)\<rparr>"
  have "onWrite ?E c ?w = Some ?c" using c(3,4,7) c2(1) by (simp add: onWrite_def)
  then have "loop_turn ?E ?E CaseWrite (?st\<lparr>st_writes := [?w]\<rparr>) c = Some (?st, ?c, Continue)"
    and "turn_fits ?E ?E CaseWrite (?st\<lparr>st_writes := [?w]\<rparr>) c"
    using c2(2) room by (simp_all add: loop_turn_def run_case_def after_select_def turn_fits_def)
  from stream_turn [OF r still_trees still_trees _ this(2,1)] c(3,4) show ?thesis
    by (auto simp: accepts_write_def)
qed


end
